(* ===== verification/Prelude.thy ===== *)
theory Prelude imports Main "HOL-Library.Word" begin

text \<open>
  Shared vocabulary of the development: the fixed-width integers of \<^verbatim>\<open>types.h\<close>, flat byte
  memory with region reads and writes, the ways a C function can fail to return normally, bit
  fields, and the generic lemmas every component uses.  Three collections carry the automation:
  \<open>region_simps\<close> (reads of written regions), \<open>fault_simps\<close> (sequencing of
  fallible code) and \<open>bitfield_simps\<close> (bits of updated bit fields).
\<close>

unbundle bit_operations_syntax

named_theorems region_simps \<open>reads and writes of memory regions\<close>
named_theorems fault_simps \<open>sequencing of code that may fail to return\<close>
named_theorems bitfield_simps \<open>bits of values built from bit fields\<close>

section \<open>Machine integers and addresses\<close>

type_synonym u8 = "8 word"
type_synonym u16 = "16 word"
type_synonym u32 = "32 word"
type_synonym addr = "32 word"
type_synonym mem = "32 word \<Rightarrow> 8 word"

lemma unat_of_nat_u32 [simp]: "n < 4294967296 \<Longrightarrow> unat (of_nat n :: u32) = n"
  by (simp add: unat_of_nat take_bit_nat_eq_self_iff)

lemma ucast_u8_u32_id [simp]: "ucast (ucast (x :: u8) :: u32) = x"
  by (rule bit_word_eqI) (auto simp: bit_simps)

lemma of_nat_eq_u32:
  "p < 4294967296 \<Longrightarrow> q < 4294967296 \<Longrightarrow> of_nat p = (of_nat q :: u32) \<longleftrightarrow> p = q"
  by (metis unat_of_nat_u32)

lemma unat_u32_less: "unat (x :: u32) < 4294967296"
  using unsigned_less [of x] by simp

lemma unat_diff_Suc:
  assumes "x \<noteq> (a :: u32)"
  shows "unat (x - a) = Suc (unat (x - (a + 1)))"
proof -
  have nz: "x - a \<noteq> 0" using assms by simp
  have eq: "x - (a + 1) = x - a - 1" by simp
  have "unat (x - (a + 1)) = unat (x - a) - 1"
    unfolding eq using nz by (rule unat_minus_one)
  moreover have "0 < unat (x - a)" using nz by (simp add: unat_gt_0)
  ultimately show ?thesis by simp
qed

lemma unat_minus_1_u32 [simp]: "unat (- 1 :: u32) = 4294967295"
  by (simp add: unsigned_minus_1_eq_mask mask_eq_exp_minus_1)

lemma addr_plus_offset: "(a :: u32) + of_nat (unat (x - a)) = x"
  by simp

section \<open>How C code can fail to return\<close>

text \<open>
  A C function of the kernel either returns normally or meets one of these: an endless loop, a
  divide error (\<open>#DE\<close>), an access outside an array whose neighbour is not modelled, a
  call through a null function pointer, or a jump to the dispatcher from a frame that is not its own.
\<close>

datatype fault = Diverges | DivideError | OutOfBounds | NullCall | StrayReturn

type_synonym 'a res = "fault + 'a"

definition andthen :: "'a res \<Rightarrow> ('a \<Rightarrow> 'b res) \<Rightarrow> 'b res" where
  "andthen r f = (case r of Inl e \<Rightarrow> Inl e | Inr x \<Rightarrow> f x)"

lemma andthen_Inl [simp, fault_simps]: "andthen (Inl e) f = Inl e"
  and andthen_Inr [simp, fault_simps]: "andthen (Inr x) f = f x"
  by (simp_all add: andthen_def)

lemma andthen_eq_Inr [fault_simps]:
  "andthen r f = Inr y \<longleftrightarrow> (\<exists>x. r = Inr x \<and> f x = Inr y)"
  by (cases r) auto

lemma andthen_eq_Inl [fault_simps]:
  "andthen r f = Inl e \<longleftrightarrow> r = Inl e \<or> (\<exists>x. r = Inr x \<and> f x = Inl e)"
  by (cases r) auto

lemma andthen_assoc: "andthen (andthen r f) g = andthen r (\<lambda>x. andthen (f x) g)"
  by (cases r) auto

definition of_loop :: "'a option \<Rightarrow> 'a res" where
  "of_loop r = (case r of None \<Rightarrow> Inl Diverges | Some x \<Rightarrow> Inr x)"

lemma of_loop_simps [simp, fault_simps]:
  "of_loop None = Inl Diverges" "of_loop (Some x) = Inr x"
  by (simp_all add: of_loop_def)

lemma of_loop_eq_Inr [fault_simps]: "of_loop r = Inr x \<longleftrightarrow> r = Some x"
  by (cases r) auto

section \<open>Regions of memory\<close>

definition bytes :: "mem \<Rightarrow> addr \<Rightarrow> nat \<Rightarrow> u8 list" where
  "bytes m a n = map (\<lambda>i. m (a + of_nat i)) [0..<n]"

primrec write_bytes :: "mem \<Rightarrow> addr \<Rightarrow> u8 list \<Rightarrow> mem" where
  "write_bytes m a [] = m"
| "write_bytes m a (b # bs) = write_bytes (m(a := b)) (a + 1) bs"

definition inside :: "addr \<Rightarrow> nat \<Rightarrow> addr \<Rightarrow> bool" where
  "inside a n x \<longleftrightarrow> unat (x - a) < n"

text \<open>Two regions share no address; the right-hand side is the computable form.\<close>

definition apart :: "addr \<Rightarrow> nat \<Rightarrow> addr \<Rightarrow> nat \<Rightarrow> bool" where
  "apart a n b k \<longleftrightarrow> n = 0 \<or> k = 0 \<or> (n \<le> unat (b - a) \<and> k \<le> unat (a - b))"

lemma length_bytes [simp, region_simps]: "length (bytes m a n) = n"
  by (simp add: bytes_def)

lemma nth_bytes [simp, region_simps]: "i < n \<Longrightarrow> bytes m a n ! i = m (a + of_nat i)"
  by (simp add: bytes_def)

lemma bytes_0 [simp]: "bytes m a 0 = []"
  by (simp add: bytes_def)

lemma bytes_Suc: "bytes m a (Suc n) = m a # bytes m (a + 1) n"
  by (rule nth_equalityI) (auto simp: nth_Cons algebra_simps split: nat.split)

lemma bytes_Suc_snoc: "bytes m a (Suc n) = bytes m a n @ [m (a + of_nat n)]"
  by (simp add: bytes_def)

lemma bytes_add: "bytes m a (n + k) = bytes m a n @ bytes m (a + of_nat n) k"
  by (rule nth_equalityI) (auto simp: nth_append of_nat_diff algebra_simps)

lemma take_bytes: "n \<le> k \<Longrightarrow> take n (bytes m a k) = bytes m a n"
  by (rule nth_equalityI) auto

lemma drop_bytes: "n \<le> k \<Longrightarrow> drop n (bytes m a k) = bytes m (a + of_nat n) (k - n)"
  by (rule nth_equalityI) (auto simp: algebra_simps)

lemma bytes_cong: "(\<And>i. i < n \<Longrightarrow> m (a + of_nat i) = m' (a + of_nat i)) \<Longrightarrow> bytes m a n = bytes m' a n"
  by (rule nth_equalityI) auto

lemma bytes_eqI: "length bs = n \<Longrightarrow> (\<And>i. i < n \<Longrightarrow> m (a + of_nat i) = bs ! i) \<Longrightarrow> bytes m a n = bs"
  by (rule nth_equalityI) auto

lemma write_bytes_apply:
  "length bs \<le> 4294967296 \<Longrightarrow>
    write_bytes m a bs x = (if inside a (length bs) x then bs ! unat (x - a) else m x)"
proof (induction bs arbitrary: m a)
  case Nil
  then show ?case by (simp add: inside_def)
next
  case (Cons b bs)
  then have IH: "write_bytes (m(a := b)) (a + 1) bs x =
      (if inside (a + 1) (length bs) x then bs ! unat (x - (a + 1)) else (m(a := b)) x)"
    by simp
  show ?case
  proof (cases "x = a")
    case True
    then show ?thesis using IH Cons.prems by (simp add: inside_def)
  next
    case False
    then show ?thesis using IH by (simp add: inside_def unat_diff_Suc [OF False])
  qed
qed

lemma write_bytes_append:
  "write_bytes m a (bs @ cs) = write_bytes (write_bytes m a bs) (a + of_nat (length bs)) cs"
  by (induction bs arbitrary: m a) (simp_all add: algebra_simps)

lemma inside_offset [region_simps]: "i < n \<Longrightarrow> n \<le> 4294967296 \<Longrightarrow> inside a n (a + of_nat i)"
  by (simp add: inside_def)

lemma inside_obtain:
  assumes "inside a n x"
  obtains i where "i < n" "x = a + of_nat i"
  using assms addr_plus_offset [of a x] by (metis inside_def)

lemma apart_sym: "apart a n b k \<Longrightarrow> apart b k a n"
  by (auto simp: apart_def)

lemma apart_not_inside:
  assumes "apart a n b k" "inside a n x"
  shows "\<not> inside b k x"
proof
  assume ib: "inside b k x"
  define p q where "p = x - a" and "q = x - b"
  have pq: "unat p < n" "unat q < k"
    using assms(2) ib by (simp_all add: inside_def p_def q_def)
  then have nk: "n \<le> unat (b - a)" "k \<le> unat (a - b)"
    using assms(1) by (auto simp: apart_def)
  have "a - b = q - p" "b - a = p - q" by (simp_all add: p_def q_def)
  then show False
    using pq nk by (cases "p \<le> q") (auto simp: unat_sub not_le dest: order.strict_implies_order)
qed

lemma apart_sub:
  assumes "apart a n b k" "i + n' \<le> n" "n \<le> 4294967296"
  shows "apart (a + of_nat i) n' b k"
proof (rule ccontr)
  assume neg: "\<not> apart (a + of_nat i) n' b k"
  then have pos: "0 < n'" "0 < k" by (auto simp: apart_def)
  let ?a = "a + of_nat i"
  from neg consider "unat (b - ?a) < n'" | "unat (?a - b) < k"
    by (auto simp: apart_def)
  then show False
  proof cases
    case 1
    have "b = a + of_nat (i + unat (b - ?a))" by (simp add: algebra_simps)
    moreover have "i + unat (b - ?a) < n" using 1 assms(2) by simp
    ultimately have "inside a n b" using assms(3) inside_offset by metis
    moreover have "inside b k b" using pos by (simp add: inside_def)
    ultimately show False using apart_not_inside [OF assms(1)] by blast
  next
    case 2
    then have "inside b k ?a" by (simp add: inside_def)
    moreover have "inside a n ?a" using pos assms by (intro inside_offset) auto
    ultimately show False using apart_not_inside [OF assms(1)] by blast
  qed
qed

lemma apart_sub_right:
  "apart b k a n \<Longrightarrow> i + n' \<le> n \<Longrightarrow> n \<le> 4294967296 \<Longrightarrow> apart b k (a + of_nat i) n'"
  by (metis apart_sub apart_sym)

lemma write_bytes_outside [region_simps]:
  "\<not> inside a (length bs) x \<Longrightarrow> length bs \<le> 4294967296 \<Longrightarrow> write_bytes m a bs x = m x"
  by (simp add: write_bytes_apply)

lemma bytes_write_same [region_simps]:
  "length bs = n \<Longrightarrow> n \<le> 4294967296 \<Longrightarrow> bytes (write_bytes m a bs) a n = bs"
  by (rule bytes_eqI) (auto simp: write_bytes_apply inside_def)

lemma bytes_write_apart [region_simps]:
  assumes "apart a (length bs) b k" "length bs \<le> 4294967296" "k \<le> 4294967296"
  shows "bytes (write_bytes m a bs) b k = bytes m b k"
proof (rule bytes_cong)
  fix i assume "i < k"
  then have "inside b k (b + of_nat i)" using assms(3) by (rule inside_offset)
  then have "\<not> inside a (length bs) (b + of_nat i)"
    using apart_not_inside [OF apart_sym [OF assms(1)]] by blast
  then show "write_bytes m a bs (b + of_nat i) = m (b + of_nat i)"
    using assms(2) by (rule write_bytes_outside)
qed

lemma write_bytes_eqI:
  assumes "length bs \<le> 4294967296"
    and "\<And>i. i < length bs \<Longrightarrow> m' (a + of_nat i) = bs ! i"
    and "\<And>x. \<not> inside a (length bs) x \<Longrightarrow> m' x = m x"
  shows "m' = write_bytes m a bs"
proof
  fix x
  show "m' x = write_bytes m a bs x"
  proof (cases "inside a (length bs) x")
    case True
    then obtain i where "i < length bs" "x = a + of_nat i" by (rule inside_obtain)
    then show ?thesis using assms by (simp add: write_bytes_apply inside_def)
  next
    case False
    then show ?thesis using assms by (simp add: write_bytes_apply)
  qed
qed

lemma write_bytes_nth [region_simps]:
  "i < length bs \<Longrightarrow> length bs \<le> 4294967296 \<Longrightarrow> write_bytes m a bs (a + of_nat i) = bs ! i"
  by (simp add: write_bytes_apply inside_def)

lemma write_bytes_overwrite:
  assumes "length xs' = length xs" "length (xs @ ys) \<le> 4294967296"
  shows "write_bytes (write_bytes m a (xs @ ys)) a xs' = write_bytes m a (xs' @ ys)"
proof (rule write_bytes_eqI)
  show "length (xs' @ ys) \<le> 4294967296" using assms by simp
next
  fix i assume i: "i < length (xs' @ ys)"
  then have "unat (a + of_nat i - a) = i" using assms by simp
  then show "write_bytes (write_bytes m a (xs @ ys)) a xs' (a + of_nat i) = (xs' @ ys) ! i"
    using assms i by (auto simp: write_bytes_apply inside_def nth_append)
next
  fix x assume "\<not> inside a (length (xs' @ ys)) x"
  then show "write_bytes (write_bytes m a (xs @ ys)) a xs' x = m x"
    using assms by (auto simp: write_bytes_apply inside_def)
qed

section \<open>Little-endian words in memory\<close>

definition read32 :: "mem \<Rightarrow> addr \<Rightarrow> u32" where
  "read32 m a = ucast (m a) OR push_bit 8 (ucast (m (a + 1)))
     OR push_bit 16 (ucast (m (a + 2))) OR push_bit 24 (ucast (m (a + 3)))"

definition bytes_of32 :: "u32 \<Rightarrow> u8 list" where
  "bytes_of32 v = [ucast v, ucast (drop_bit 8 v), ucast (drop_bit 16 v), ucast (drop_bit 24 v)]"

definition write32 :: "mem \<Rightarrow> addr \<Rightarrow> u32 \<Rightarrow> mem" where
  "write32 m a v = write_bytes m a (bytes_of32 v)"

lemma length_bytes_of32 [simp]: "length (bytes_of32 v) = 4"
  by (simp add: bytes_of32_def)

lemma read32_cong: "bytes m a 4 = bytes m' a 4 \<Longrightarrow> read32 m a = read32 m' a"
  by (simp add: bytes_def read32_def eval_nat_numeral)

lemma bytes_of32_read32: "bytes_of32 (read32 m a) = bytes m a 4"
proof -
  have "ucast (read32 m a) = m a"
    "ucast (drop_bit 8 (read32 m a)) = m (a + 1)"
    "ucast (drop_bit 16 (read32 m a)) = m (a + 2)"
    "ucast (drop_bit 24 (read32 m a)) = m (a + 3)"
    unfolding read32_def
    by (rule bit_word_eqI, auto simp: bit_simps dest: bit_imp_le_length)+
  then show ?thesis by (simp add: bytes_of32_def bytes_def eval_nat_numeral)
qed

lemma read32_write32 [region_simps]: "read32 (write32 m a v) a = v"
proof -
  have nz: "(a + 1 = a) = False" "(a + 2 = a) = False" "(a + 3 = a) = False"
    "(a + 2 = a + 1) = False" "(a + 3 = a + 1) = False" "(a + 3 = a + 2) = False" by auto
  have split: "n < 8 \<or> (8 \<le> n \<and> n < 16) \<or> (16 \<le> n \<and> n < 24) \<or> 24 \<le> n" for n :: nat
    by linarith
  show ?thesis
    unfolding read32_def write32_def bytes_of32_def
  proof (rule bit_word_eqI, goal_cases)
    case (1 n)
    then show ?case using split [of n] by (auto simp: nz bit_simps add.assoc)
  qed
qed

section \<open>Bit fields\<close>

text \<open>A C bit field of \<open>w\<close> bits starting at bit \<open>lo\<close>: reading and assigning it.\<close>

definition get_bits :: "nat \<Rightarrow> nat \<Rightarrow> u32 \<Rightarrow> u32" where
  "get_bits lo w v = take_bit w (drop_bit lo v)"

definition put_bits :: "nat \<Rightarrow> nat \<Rightarrow> u32 \<Rightarrow> u32 \<Rightarrow> u32" where
  "put_bits lo w x v = (v AND NOT (push_bit lo (mask w))) OR push_bit lo (take_bit w x)"

lemma bit_get_bits [bitfield_simps]:
  "bit (get_bits lo w v) n \<longleftrightarrow> n < w \<and> bit v (lo + n)"
  by (auto simp: get_bits_def bit_simps)

lemma bit_put_bits [bitfield_simps]:
  "bit (put_bits lo w x v) n \<longleftrightarrow>
    n < 32 \<and> (if lo \<le> n \<and> n < lo + w then bit x (n - lo) else bit v n)"
  by (auto simp: put_bits_def bit_simps)

lemma get_put_bits_same:
  "lo + w \<le> 32 \<Longrightarrow> get_bits lo w (put_bits lo w x v) = take_bit w x"
  by (rule bit_word_eqI) (auto simp: bitfield_simps bit_simps)

lemma get_put_bits_other:
  "lo + w \<le> lo' \<or> lo' + w' \<le> lo \<Longrightarrow> get_bits lo w (put_bits lo' w' x v) = get_bits lo w v"
  by (rule bit_word_eqI) (auto simp: bitfield_simps dest: bit_imp_le_length)

end
