(* ===== verification/Machine.thy ===== *)
theory Machine imports Prelude begin

text \<open>
  The processor as the kernel's C code sees it: physical memory, the bytes sent to I/O ports in
  the order they are sent, the interrupt flag, the two stack registers and the debug registers.  The
  port output, \<open>cli\<close> and \<open>sti\<close> are the macros of \<^verbatim>\<open>src/src/lib.h\<close>.  Bytes read from ports come
  from devices, so every operation that executes \<^verbatim>\<open>inb\<close> takes them as arguments.
\<close>

record machine =
  phys :: mem
  out_log :: "(u16 \<times> u8) list"
  int_flag :: bool
  esp :: u32
  ebp :: u32
  debug_regs :: "nat \<Rightarrow> u32"

definition outb :: "u32 \<Rightarrow> u16 \<Rightarrow> 'a machine_scheme \<Rightarrow> 'a machine_scheme" where
  "outb data port st = st\<lparr>out_log := out_log st @ [(port, ucast data)]\<rparr>"

definition cli :: "'a machine_scheme \<Rightarrow> 'a machine_scheme" where
  "cli st = st\<lparr>int_flag := False\<rparr>"

definition sti :: "'a machine_scheme \<Rightarrow> 'a machine_scheme" where
  "sti st = st\<lparr>int_flag := True\<rparr>"

lemma outb_simps [simp]:
  "phys (outb d p st) = phys st" "int_flag (outb d p st) = int_flag st"
  "esp (outb d p st) = esp st" "ebp (outb d p st) = ebp st"
  "out_log (outb d p st) = out_log st @ [(p, ucast d)]"
  "machine.more (outb d p st) = machine.more st"
  by (simp_all add: outb_def)

lemma cli_sti_simps [simp]:
  "phys (cli st) = phys st" "int_flag (cli st) = False" "esp (cli st) = esp st"
  "ebp (cli st) = ebp st" "out_log (cli st) = out_log st" "machine.more (cli st) = machine.more st"
  "phys (sti st) = phys st" "int_flag (sti st) = True" "esp (sti st) = esp st"
  "ebp (sti st) = ebp st" "out_log (sti st) = out_log st" "machine.more (sti st) = machine.more st"
  by (simp_all add: cli_def sti_def)

text \<open>The bytes a log sends to one port, and the last of them: what a device register holds.\<close>

definition sent :: "u16 \<Rightarrow> (u16 \<times> u8) list \<Rightarrow> u8 list" where
  "sent port xs = map snd (filter (\<lambda>(p, b). p = port) xs)"

definition last_sent :: "u16 \<Rightarrow> (u16 \<times> u8) list \<Rightarrow> u8 option" where
  "last_sent port xs = (if sent port xs = [] then None else Some (last (sent port xs)))"

lemma sent_append [simp]: "sent port (xs @ ys) = sent port xs @ sent port ys"
  by (simp add: sent_def)

lemma sent_Nil [simp]: "sent port [] = []"
  by (simp add: sent_def)

lemma sent_Cons [simp]: "sent port ((p, b) # xs) = (if p = port then b # sent port xs else sent port xs)"
  by (simp add: sent_def)

lemma last_sent_append [simp]:
  "last_sent port (xs @ ys) = (case last_sent port ys of None \<Rightarrow> last_sent port xs | Some b \<Rightarrow> Some b)"
  by (simp add: last_sent_def)

lemma last_sent_Nil [simp]: "last_sent port [] = None"
  by (simp add: last_sent_def)

lemma last_sent_Cons [simp]:
  "last_sent port ((p, b) # xs) =
    (case last_sent port xs of None \<Rightarrow> if p = port then Some b else None | Some b' \<Rightarrow> Some b')"
  by (simp add: last_sent_def)

end
