(* ===== verification/I8259.thy ===== *)
theory I8259 imports Machine begin

text \<open>
  The interrupt controller of \<^verbatim>\<open>src/src/i8259.c\<close>: the two software masks, their initialisation,
  enabling and disabling of a line, and end of interrupt.  A register that holds one mask is the
  interface \<open>mask_register\<close>; it is interpreted for the master and for the slave.  The abstract
  view is \<open>irq_masked\<close>: the set of masked lines 0 to 15.
\<close>

record pic = machine +
  master_mask :: u8
  slave_mask :: u8

definition enable_irq :: "u32 \<Rightarrow> 'a pic_scheme \<Rightarrow> 'a pic_scheme" where
  "enable_irq irq_num st =
     (if 8 \<le> irq_num
      then let new_mask = ucast (NOT (push_bit (unat (irq_num - 8)) (1 :: u32)));
               st = st\<lparr>slave_mask := slave_mask st AND new_mask\<rparr>
           in outb (ucast (slave_mask st)) 0xA1 st
      else let new_mask = ucast (NOT (push_bit (unat irq_num) (1 :: u32)));
               st = st\<lparr>master_mask := master_mask st AND new_mask\<rparr>
           in outb (ucast (master_mask st)) 0x21 st)"

definition disable_irq :: "u32 \<Rightarrow> 'a pic_scheme \<Rightarrow> 'a pic_scheme" where
  "disable_irq irq_num st =
     (if 8 \<le> irq_num
      then let new_mask = ucast (push_bit (unat (irq_num - 8)) (1 :: u32));
               st = st\<lparr>slave_mask := slave_mask st OR new_mask\<rparr>
           in outb (ucast (slave_mask st)) 0xA1 st
      else let new_mask = ucast (push_bit (unat irq_num) (1 :: u32));
               st = st\<lparr>master_mask := master_mask st OR new_mask\<rparr>
           in outb (ucast (master_mask st)) 0x21 st)"

definition send_eoi :: "u32 \<Rightarrow> 'a pic_scheme \<Rightarrow> 'a pic_scheme" where
  "send_eoi irq_num st =
     (if 8 \<le> irq_num
      then outb (0x60 + 2) 0x20 (outb (0x60 + (irq_num - 8)) 0xA0 st)
      else outb (0x60 + irq_num) 0x20 st)"

definition i8259_init :: "'a pic_scheme \<Rightarrow> 'a pic_scheme" where
  "i8259_init st =
     (let st = outb 0xff 0x21 st;
          st = outb 0xff 0xA1 st;
          st = outb 0x11 0x20 st;
          st = outb 0x11 0xA0 st;
          st = outb 0x20 0x21 st;
          st = outb 0x28 0xA1 st;
          st = outb 0x04 0x21 st;
          st = outb 0x02 0xA1 st;
          st = outb 0x01 0x21 st;
          st = outb 0x01 0xA1 st;
          st = outb (ucast (master_mask st)) 0x21 st;
          st = outb (ucast (slave_mask st)) 0xA1 st
      in enable_irq 2 st)"

section \<open>A mask register\<close>

locale mask_register =
  fixes get :: "'s \<Rightarrow> u8" and put :: "u8 \<Rightarrow> 's \<Rightarrow> 's"
  assumes get_put [simp]: "get (put v s) = v"
begin

lemma unmask_bit:
  "i < 8 \<Longrightarrow> j < 8 \<Longrightarrow>
    bit (get (put (get s AND ucast (NOT (push_bit i (1 :: u32)))) s)) j \<longleftrightarrow> bit (get s) j \<and> j \<noteq> i"
  by (auto simp: bit_simps)

lemma mask_bit:
  "i < 8 \<Longrightarrow> j < 8 \<Longrightarrow>
    bit (get (put (get s OR ucast (push_bit i (1 :: u32))) s)) j \<longleftrightarrow> bit (get s) j \<or> j = i"
  by (auto simp: bit_simps)

text \<open>A line number past the register's eight lines shifts the mask bit out: nothing changes.\<close>

lemma unmask_beyond: "8 \<le> i \<Longrightarrow> get (put (get s AND ucast (NOT (push_bit i (1 :: u32)))) s) = get s"
  by (rule bit_word_eqI) (auto simp: bit_simps)

lemma mask_beyond: "8 \<le> i \<Longrightarrow> get (put (get s OR ucast (push_bit i (1 :: u32))) s) = get s"
  by (rule bit_word_eqI) (auto simp: bit_simps)

end

interpretation master: mask_register master_mask "\<lambda>v. master_mask_update (\<lambda>_. v)"
  by unfold_locales simp

interpretation slave: mask_register slave_mask "\<lambda>v. slave_mask_update (\<lambda>_. v)"
  by unfold_locales simp

section \<open>The masked lines\<close>

definition irq_masked :: "nat \<Rightarrow> 'a pic_scheme \<Rightarrow> bool" where
  "irq_masked i st = (if 8 \<le> i then bit (slave_mask st) (i - 8) else bit (master_mask st) i)"

text \<open>The controllers' mask registers hold what the two data ports were sent last.\<close>

definition pic_synced :: "'a pic_scheme \<Rightarrow> bool" where
  "pic_synced st \<longleftrightarrow> last_sent 0x21 (out_log st) = Some (master_mask st) \<and>
     last_sent 0xA1 (out_log st) = Some (slave_mask st)"

lemma unat_minus_8: "8 \<le> (n :: u32) \<Longrightarrow> unat (n - 8) = unat n - 8"
  by (simp add: unat_sub)

lemma outb_pic [simp]:
  "master_mask (outb d p st) = master_mask st" "slave_mask (outb d p st) = slave_mask st"
  "pic.more (outb d p st) = pic.more st"
  by (simp_all add: outb_def)

lemma irq_masked_enable:
  assumes "irq_num < 16" "j < 16"
  shows "irq_masked j (enable_irq irq_num st) \<longleftrightarrow> irq_masked j st \<and> j \<noteq> unat irq_num"
proof -
  have lt: "unat irq_num < 16" using assms(1) by (simp add: word_less_nat_alt)
  show ?thesis
  proof (cases "8 \<le> irq_num")
    case True
    then have "8 \<le> unat irq_num" by (simp add: word_le_nat_alt)
    then show ?thesis
      using slave.unmask_bit [of "unat irq_num - 8" "j - 8" st] lt assms(2) True
      by (auto simp: irq_masked_def enable_irq_def Let_def unat_minus_8)
  next
    case False
    then have "unat irq_num < 8" by (simp add: word_le_nat_alt)
    then show ?thesis
      using master.unmask_bit [of "unat irq_num" j st] False
      by (auto simp: irq_masked_def enable_irq_def Let_def)
  qed
qed

lemma irq_masked_disable:
  assumes "irq_num < 16" "j < 16"
  shows "irq_masked j (disable_irq irq_num st) \<longleftrightarrow> irq_masked j st \<or> j = unat irq_num"
proof -
  have lt: "unat irq_num < 16" using assms(1) by (simp add: word_less_nat_alt)
  show ?thesis
  proof (cases "8 \<le> irq_num")
    case True
    then have "8 \<le> unat irq_num" by (simp add: word_le_nat_alt)
    then show ?thesis
      using slave.mask_bit [of "unat irq_num - 8" "j - 8" st] lt assms(2) True
      by (auto simp: irq_masked_def disable_irq_def Let_def unat_minus_8)
  next
    case False
    then have "unat irq_num < 8" by (simp add: word_le_nat_alt)
    then show ?thesis
      using master.mask_bit [of "unat irq_num" j st] False
      by (auto simp: irq_masked_def disable_irq_def Let_def)
  qed
qed

text \<open>A line number of 16 or more leaves every line as it was.\<close>

lemma irq_masked_beyond:
  assumes "16 \<le> irq_num"
  shows "irq_masked j (enable_irq irq_num st) = irq_masked j st"
    "irq_masked j (disable_irq irq_num st) = irq_masked j st"
proof -
  have "16 \<le> unat irq_num" "8 \<le> irq_num" using assms by (simp_all add: word_le_nat_alt)
  then have "8 \<le> unat (irq_num - 8)" "8 \<le> irq_num" by (simp_all add: unat_minus_8)
  then show "irq_masked j (enable_irq irq_num st) = irq_masked j st"
    "irq_masked j (disable_irq irq_num st) = irq_masked j st"
    using slave.unmask_beyond [of "unat (irq_num - 8)" st] slave.mask_beyond [of "unat (irq_num - 8)" st]
    by (simp_all add: irq_masked_def enable_irq_def Let_def disable_irq_def)
qed

lemma pic_synced_ops:
  "pic_synced st \<Longrightarrow> pic_synced (enable_irq n st)"
  "pic_synced st \<Longrightarrow> pic_synced (disable_irq n st)"
  "pic_synced st \<Longrightarrow> pic_synced (send_eoi n st)"
  "pic_synced (i8259_init st)"
  by (simp_all add: pic_synced_def enable_irq_def disable_irq_def send_eoi_def i8259_init_def Let_def)

text \<open>The other operations of the kernel touch the controllers only through these four.\<close>

lemma pic_ops_frame [simp]:
  "phys (enable_irq n st) = phys st" "esp (enable_irq n st) = esp st" "ebp (enable_irq n st) = ebp st"
  "int_flag (enable_irq n st) = int_flag st" "pic.more (enable_irq n st) = pic.more st"
  "phys (send_eoi n st) = phys st" "esp (send_eoi n st) = esp st" "ebp (send_eoi n st) = ebp st"
  "int_flag (send_eoi n st) = int_flag st" "pic.more (send_eoi n st) = pic.more st"
  "master_mask (send_eoi n st) = master_mask st" "slave_mask (send_eoi n st) = slave_mask st"
  by (simp_all add: enable_irq_def send_eoi_def Let_def)

lemma irq_masked_init:
  "j < 16 \<Longrightarrow> irq_masked j (i8259_init st) \<longleftrightarrow> irq_masked j st \<and> j \<noteq> 2"
  unfolding i8259_init_def Let_def
  by (subst irq_masked_enable) (simp_all add: irq_masked_def)

section \<open>Properties\<close>

text \<open>For the lines 0 to 15 \<open>enable_irq\<close> unmasks exactly its line and \<open>disable_irq\<close> masks exactly its
  line, on whichever controller has it; for any other number no line changes.  All operations keep
  the mask registers of both controllers equal to the software masks.\<close>

theorem irq_lines:
  assumes "j < 16" "pic_synced st"
  shows "irq_masked j (enable_irq n st) = (irq_masked j st \<and> j \<noteq> unat n) \<and>
    irq_masked j (disable_irq n st) = (irq_masked j st \<or> j = unat n) \<and>
    pic_synced (enable_irq n st) \<and> pic_synced (disable_irq n st) \<and> pic_synced (send_eoi n st)"
proof (cases "n < 16")
  case True
  then show ?thesis
    using irq_masked_enable [OF True assms(1)] irq_masked_disable [OF True assms(1)]
      pic_synced_ops(1-3) [OF assms(2)] by blast
next
  case False
  then have "16 \<le> n" "j \<noteq> unat n" using assms(1) by (auto simp: word_less_nat_alt word_le_nat_alt)
  then show ?thesis using irq_masked_beyond pic_synced_ops(1-3) [OF assms(2)] by blast
qed

definition idle_pic :: pic where
  "idle_pic = \<lparr>phys = \<lambda>_. 0, out_log = [(0x21, 0), (0xA1, 0xFF)], int_flag = True, esp = 0, ebp = 0, debug_regs = \<lambda>_. 0,
     master_mask = 0, slave_mask = 0xFF\<rparr>"

lemma irq_lines_witness:
  "irq_masked 5 (disable_irq 5 idle_pic) \<and> irq_masked 8 (enable_irq 5 idle_pic)"
  using irq_lines [of 5 idle_pic 5] irq_lines [of 8 idle_pic 5]
  by (simp add: idle_pic_def pic_synced_def irq_masked_def)

text \<open>The initialisation of the controllers sends the command words in the order the 8259 wants
  them, vectors 0x20 and 0x28, and leaves line 2, the cascade, unmasked, every other line as the
  software masks had it, and the mask registers in step with the software masks.\<close>

theorem pic_initialised:
  "sent 0x20 (out_log (i8259_init st)) = sent 0x20 (out_log st) @ [0x11] \<and>
   sent 0xA0 (out_log (i8259_init st)) = sent 0xA0 (out_log st) @ [0x11] \<and>
   sent 0x21 (out_log (i8259_init st)) =
     sent 0x21 (out_log st) @ [0xff, 0x20, 0x04, 0x01, master_mask st, master_mask (i8259_init st)] \<and>
   sent 0xA1 (out_log (i8259_init st)) = sent 0xA1 (out_log st) @ [0xff, 0x28, 0x02, 0x01, slave_mask st] \<and>
   pic_synced (i8259_init st) \<and> \<not> irq_masked 2 (i8259_init st) \<and>
   (j < 16 \<longrightarrow> j \<noteq> 2 \<longrightarrow> irq_masked j (i8259_init st) = irq_masked j st)"
proof -
  have "master_mask (i8259_init st) = master_mask (enable_irq 2 st) \<and>
      sent 0x20 (out_log (i8259_init st)) = sent 0x20 (out_log st) @ [0x11] \<and>
      sent 0xA0 (out_log (i8259_init st)) = sent 0xA0 (out_log st) @ [0x11] \<and>
      sent 0x21 (out_log (i8259_init st)) =
        sent 0x21 (out_log st) @ [0xff, 0x20, 0x04, 0x01, master_mask st, master_mask (enable_irq 2 st)] \<and>
      sent 0xA1 (out_log (i8259_init st)) = sent 0xA1 (out_log st) @ [0xff, 0x28, 0x02, 0x01, slave_mask st]"
    by (simp add: i8259_init_def enable_irq_def Let_def)
  then show ?thesis using pic_synced_ops(4) [of st] irq_masked_init [of 2 st] irq_masked_init [of j st] by simp
qed

lemma pic_initialised_witness:
  "irq_masked 9 (i8259_init idle_pic)"
  using pic_initialised [of idle_pic 9] by (simp add: irq_masked_def idle_pic_def)

text \<open>End of interrupt: a line of the master sends one specific EOI to the master, a line of the
  slave sends its own to the slave first and then that of line 2 to the master.\<close>

theorem eoi_sent:
  "out_log (send_eoi n st) = out_log st @
     (if n < 8 then [(0x20, 0x60 OR ucast n)]
      else if n < 16 then [(0xA0, 0x60 OR ucast (n - 8)), (0x20, 0x62)]
      else [(0xA0, ucast (0x60 + (n - 8))), (0x20, 0x62)])"
proof -
  have small: "ucast (0x60 + k) = (0x60 OR ucast k :: u8)" if "k < 8" for k :: u32
  proof -
    have "k = of_nat (unat k)" by simp
    moreover have "unat k < 8" using that by (simp add: word_less_nat_alt)
    then have "unat k \<in> {0, 1, 2, 3, 4, 5, 6, 7}" by auto
    ultimately have "k \<in> of_nat ` {0, 1, 2, 3, 4, 5, 6, 7}" by (metis image_eqI)
    then show ?thesis by auto
  qed
  have "n - 8 < 8" if "8 \<le> n" "n < 16"
    using that by (simp add: word_less_nat_alt word_le_nat_alt unat_minus_8)
  then have slave: "ucast (0x60 + (n - 8)) = (0x60 OR ucast (n - 8) :: u8)" if "8 \<le> n" "n < 16"
    using small that by blast
  show ?thesis
  proof (cases "8 \<le> n")
    case True
    then have "\<not> n < 8" by simp
    then show ?thesis
      unfolding send_eoi_def if_P [OF True] outb_simps if_not_P [OF \<open>\<not> n < 8\<close>]
      using slave [OF True] by simp
  next
    case False
    then have "n < 8" by simp
    then show ?thesis using small [of n] False by (simp add: send_eoi_def)
  qed
qed

end
