(* ===== verification/Paging.thy ===== *)
theory Paging imports I8259 begin

text \<open>
  Paging: the entry formats of \<^verbatim>\<open>src/src/x86_desc.h\<close>, the operations of \<^verbatim>\<open>src/src/paging.c\<close>, and
  the translation the processor performs on the tables they build.  A C local that the code fills
  bit field by bit field starts with an indeterminate value; it is an argument of the operation.
  The kernel reads and writes user memory through the page at 128 MB, so memory seen through the
  tables, \<open>vmem\<close>, is a view of physical memory that follows entry 32 of the directory.
\<close>

record vmm = pic +
  pdt :: "nat \<Rightarrow> u32"
  pt0 :: "nat \<Rightarrow> u32"
  pt_vidmap :: "nat \<Rightarrow> u32"
  at_pdt :: addr
  at_pt0 :: addr
  at_pt_vidmap :: addr
  cr0 :: u32
  cr3 :: u32
  cr4 :: u32
  tlb_fresh :: bool
  tss_esp0 :: u32
  tss_ss0 :: u16

section \<open>The code\<close>

definition pdt_entry_page_setup :: "u32 \<Rightarrow> u32 \<Rightarrow> u32 \<Rightarrow> u32" where
  "pdt_entry_page_setup page physical_memory_22_31 user =
     (let page = put_bits 0 1 1 page;
          page = put_bits 1 1 1 page;
          page = put_bits 2 1 user page;
          page = put_bits 3 1 0 page;
          page = put_bits 4 1 0 page;
          page = put_bits 5 1 0 page;
          page = put_bits 6 1 0 page;
          page = put_bits 7 1 1 page;
          page = put_bits 8 1 0 page;
          page = put_bits 12 1 0 page;
          page = put_bits 21 1 0 page
      in put_bits 22 10 physical_memory_22_31 page)"

definition set_pt_entry :: "u32 \<Rightarrow> u32 \<Rightarrow> u32 \<Rightarrow> u32" where
  "set_pt_entry ptentry user offset =
     (let ptentry = put_bits 0 1 1 ptentry;
          ptentry = put_bits 1 1 1 ptentry;
          ptentry = put_bits 2 1 user ptentry;
          ptentry = put_bits 3 1 0 ptentry;
          ptentry = put_bits 4 1 0 ptentry;
          ptentry = put_bits 5 1 0 ptentry;
          ptentry = put_bits 6 1 0 ptentry;
          ptentry = put_bits 7 1 0 ptentry;
          ptentry = put_bits 8 1 0 ptentry
      in put_bits 12 20 (0xB8 + offset) ptentry)"

text \<open>A store to the directory leaves older translations in the TLB until it is flushed.\<close>

definition write_pdt :: "nat \<Rightarrow> u32 \<Rightarrow> 'a vmm_scheme \<Rightarrow> 'a vmm_scheme" where
  "write_pdt i v st = st\<lparr>pdt := (pdt st)(i := v), tlb_fresh := False\<rparr>"

definition write_pt_vidmap :: "nat \<Rightarrow> u32 \<Rightarrow> 'a vmm_scheme \<Rightarrow> 'a vmm_scheme" where
  "write_pt_vidmap i v st = st\<lparr>pt_vidmap := (pt_vidmap st)(i := v), tlb_fresh := False\<rparr>"

definition write_pt0 :: "nat \<Rightarrow> u32 \<Rightarrow> 'a vmm_scheme \<Rightarrow> 'a vmm_scheme" where
  "write_pt0 i v st = st\<lparr>pt0 := (pt0 st)(i := v), tlb_fresh := False\<rparr>"

definition flush_tlb :: "'a vmm_scheme \<Rightarrow> 'a vmm_scheme" where
  "flush_tlb st = st\<lparr>cr3 := cr3 st, tlb_fresh := True\<rparr>"

text \<open>The six locals of \<open>setup_kernel_paging\<close> before they are filled in.\<close>

record paging_locals =
  kernal_page :: u32
  first_mb :: u32
  video_memory_page :: u32
  video_memory_page1 :: u32
  video_memory_page2 :: u32
  video_memory_page3 :: u32

definition setup_kernel_paging :: "paging_locals \<Rightarrow> 'a vmm_scheme \<Rightarrow> 'a vmm_scheme" where
  "setup_kernel_paging l st =
     (let st = write_pdt 1 (pdt_entry_page_setup (kernal_page l) 0x01 0) st;
          first = put_bits 0 1 1 (first_mb l);
          first = put_bits 1 1 1 first;
          first = put_bits 2 1 0 first;
          first = put_bits 3 1 0 first;
          first = put_bits 4 1 0 first;
          first = put_bits 5 1 0 first;
          first = put_bits 7 1 0 first;
          first = put_bits 12 20 (drop_bit 12 (at_pt0 st)) first;
          st = write_pdt 0 first st;
          st = write_pt0 0xB8 (set_pt_entry (video_memory_page l) 0 0) st;
          st = write_pt0 (0xB8 + 1) (set_pt_entry (video_memory_page1 l) 0 1) st;
          st = write_pt0 (0xB8 + 2) (set_pt_entry (video_memory_page2 l) 0 2) st
      in write_pt0 (0xB8 + 3) (set_pt_entry (video_memory_page3 l) 0 3) st)"

definition load_page_directory :: "addr \<Rightarrow> 'a vmm_scheme \<Rightarrow> 'a vmm_scheme" where
  "load_page_directory a st = st\<lparr>cr3 := a, tlb_fresh := True\<rparr>"

definition enable_paging_bit :: "'a vmm_scheme \<Rightarrow> 'a vmm_scheme" where
  "enable_paging_bit st = st\<lparr>cr4 := cr4 st OR 0x10, cr0 := cr0 st OR 0x80000000\<rparr>"

definition enable_paging :: "'a vmm_scheme \<Rightarrow> 'a vmm_scheme" where
  "enable_paging st = enable_paging_bit (load_page_directory (at_pdt st) st)"

section \<open>Translation by the processor\<close>

text \<open>
  What a 32-bit processor with page size extensions does with a linear address.  Bits 13 to 21 of
  a 4 MB entry are more physical address bits or reserved, depending on the processor; a
  translation is counted on only when they are 0, which every processor agrees on.  A directory
  entry that points to neither of the kernel's two page tables is no translation.
\<close>

record translation =
  frame_addr :: addr
  user_ok :: bool
  write_ok :: bool

definition table_at :: "'a vmm_scheme \<Rightarrow> u32 \<Rightarrow> (nat \<Rightarrow> u32) option" where
  "table_at st n = (if push_bit 12 n = at_pt0 st then Some (pt0 st)
     else if push_bit 12 n = at_pt_vidmap st then Some (pt_vidmap st) else None)"

definition page_walk :: "'a vmm_scheme \<Rightarrow> addr \<Rightarrow> translation option" where
  "page_walk st va =
     (let pde = pdt st (unat (drop_bit 22 va)) in
      if \<not> bit pde 0 then None
      else if bit pde 7 then
        (if get_bits 13 9 pde \<noteq> 0 then None
         else Some \<lparr>frame_addr = push_bit 22 (drop_bit 22 pde) OR take_bit 22 va,
                user_ok = bit pde 2, write_ok = bit pde 1\<rparr>)
      else case table_at st (drop_bit 12 pde) of None \<Rightarrow> None
        | Some pt \<Rightarrow>
          (let pte = pt (unat (take_bit 10 (drop_bit 12 va))) in
           if \<not> bit pte 0 then None
           else Some \<lparr>frame_addr = push_bit 12 (drop_bit 12 pte) OR take_bit 12 va,
                  user_ok = bit pde 2 \<and> bit pte 2, write_ok = bit pde 1 \<and> bit pte 1\<rparr>))"

section \<open>The entries\<close>

lemma less_9_cases:
  "(n :: nat) < 9 \<Longrightarrow>
    n = 0 \<or> n = 1 \<or> n = 2 \<or> n = 3 \<or> n = 4 \<or> n = 5 \<or> n = 6 \<or> n = 7 \<or> n = 8"
  by arith

lemma pdt_entry_bits [bitfield_simps]:
  "bit (pdt_entry_page_setup g a u) n \<longleftrightarrow> n < 32 \<and>
    (n = 0 \<or> n = 1 \<or> n = 7 \<or> (n = 2 \<and> bit u 0) \<or> (9 \<le> n \<and> n \<le> 11 \<and> bit g n) \<or>
     (13 \<le> n \<and> n \<le> 20 \<and> bit g n) \<or> (22 \<le> n \<and> bit a (n - 22)))"
proof (cases "n < 9")
  case True
  then show ?thesis
    unfolding pdt_entry_page_setup_def Let_def
    by (elim less_9_cases [THEN disjE] disjE) (simp_all add: bitfield_simps)
next
  case False
  then consider "9 \<le> n" "n \<le> 11" | "n = 12" | "13 \<le> n" "n \<le> 20" | "n = 21" | "22 \<le> n"
    by linarith
  then show ?thesis
    unfolding pdt_entry_page_setup_def Let_def by cases (simp_all add: bitfield_simps)
qed

lemma pt_entry_bits [bitfield_simps]:
  "bit (set_pt_entry g u off) n \<longleftrightarrow> n < 32 \<and>
    (n = 0 \<or> n = 1 \<or> (n = 2 \<and> bit u 0) \<or> (9 \<le> n \<and> n \<le> 11 \<and> bit g n) \<or>
     (12 \<le> n \<and> bit (0xB8 + off) (n - 12)))"
proof (cases "n < 9")
  case True
  then show ?thesis
    unfolding set_pt_entry_def Let_def
    by (elim less_9_cases [THEN disjE] disjE) (simp_all add: bitfield_simps)
next
  case False
  then consider "9 \<le> n" "n \<le> 11" | "12 \<le> n" by linarith
  then show ?thesis
    unfolding set_pt_entry_def Let_def by cases (simp_all add: bitfield_simps)
qed

lemma drop_bit_pdt_entry: "drop_bit 22 (pdt_entry_page_setup g a u) = take_bit 10 a"
  by (rule bit_word_eqI) (auto simp: bitfield_simps bit_simps)

lemma drop_bit_pt_entry: "drop_bit 12 (set_pt_entry g u off) = take_bit 20 (0xB8 + off)"
  by (rule bit_word_eqI) (auto simp: bitfield_simps bit_simps)

lemma reserved_pdt_entry: "get_bits 13 9 (pdt_entry_page_setup g a u) = get_bits 13 8 g"
  by (rule bit_word_eqI) (auto simp: bitfield_simps bit_simps)

text \<open>
  Walking through an entry made by \<open>pdt_entry_page_setup\<close>: the 4 MB page it names, when bits 13 to 20 of the
  local it was made in were 0.  The function assigns every bit but these and bits 9 to 11.
\<close>

lemma page_walk_4M:
  assumes "pdt st (unat (drop_bit 22 va)) = pdt_entry_page_setup g a u"
  shows "page_walk st va = (if get_bits 13 8 g = 0
    then Some \<lparr>frame_addr = push_bit 22 a OR take_bit 22 va, user_ok = bit u 0, write_ok = True\<rparr> else None)"
proof -
  have frame: "push_bit 22 (take_bit 10 a) = push_bit 22 a"
    by (rule bit_word_eqI) (auto simp: bit_simps)
  show ?thesis
    unfolding page_walk_def assms Let_def reserved_pdt_entry drop_bit_pdt_entry frame
    by (simp add: bitfield_simps)
qed

lemma vmm_frame [simp]:
  "pdt (write_pdt i v st) = (pdt st)(i := v)" "pt0 (write_pdt i v st) = pt0 st"
  "pt_vidmap (write_pdt i v st) = pt_vidmap st"
  "at_pt0 (write_pdt i v st) = at_pt0 st" "at_pt_vidmap (write_pdt i v st) = at_pt_vidmap st"
  "pdt (write_pt0 i v st) = pdt st" "pt0 (write_pt0 i v st) = (pt0 st)(i := v)"
  "pt_vidmap (write_pt0 i v st) = pt_vidmap st"
  "at_pt0 (write_pt0 i v st) = at_pt0 st" "at_pt_vidmap (write_pt0 i v st) = at_pt_vidmap st"
  "pdt (write_pt_vidmap i v st) = pdt st" "pt0 (write_pt_vidmap i v st) = pt0 st"
  "pt_vidmap (write_pt_vidmap i v st) = (pt_vidmap st)(i := v)"
  "at_pt0 (write_pt_vidmap i v st) = at_pt0 st" "at_pt_vidmap (write_pt_vidmap i v st) = at_pt_vidmap st"
  "pdt (flush_tlb st) = pdt st" "pt0 (flush_tlb st) = pt0 st" "pt_vidmap (flush_tlb st) = pt_vidmap st"
  "at_pt0 (flush_tlb st) = at_pt0 st" "at_pt_vidmap (flush_tlb st) = at_pt_vidmap st"
  "tlb_fresh (flush_tlb st)" "vmm.more (flush_tlb st) = vmm.more st"
  "vmm.more (write_pdt i v st) = vmm.more st" "vmm.more (write_pt_vidmap i v st) = vmm.more st"
  by (simp_all add: write_pdt_def write_pt0_def write_pt_vidmap_def flush_tlb_def)

section \<open>The kernel's address space\<close>

lemma first_mb_entry:
  fixes g t :: u32
  defines "e \<equiv> put_bits 12 20 (drop_bit 12 t) (put_bits 7 1 0 (put_bits 5 1 0 (put_bits 4 1 0
      (put_bits 3 1 0 (put_bits 2 1 0 (put_bits 1 1 1 (put_bits 0 1 1 g)))))))"
  shows "bit e 0" "bit e 1" "\<not> bit e 2" "\<not> bit e 7" "drop_bit 12 e = drop_bit 12 t"
proof -
  show "bit e 0" "bit e 1" "\<not> bit e 2" "\<not> bit e 7"
    unfolding e_def by (simp_all add: bitfield_simps bit_1_iff)
  show "drop_bit 12 e = drop_bit 12 t"
    unfolding e_def by (rule bit_word_eqI) (auto simp: bitfield_simps bit_simps dest: bit_imp_le_length)
qed

definition zero_tables :: "'a vmm_scheme \<Rightarrow> bool" where
  "zero_tables st \<longleftrightarrow> pdt st = (\<lambda>_. 0) \<and> pt0 st = (\<lambda>_. 0) \<and> pt_vidmap st = (\<lambda>_. 0)"

lemma unat_drop_bit_u32: "unat (drop_bit k (x :: u32)) = unat x div 2 ^ k"
  by (metis drop_bit_eq_div unat_drop_bit_eq)

lemma kernel_page_walk_high:
  assumes "zero_tables st" "0x400000 \<le> va"
  shows "page_walk (setup_kernel_paging l st) va =
    (if va < 0x800000 \<and> get_bits 13 8 (kernal_page l) = 0 then Some \<lparr>frame_addr = va, user_ok = False, write_ok = True\<rparr> else None)"
proof -
  let ?s = "setup_kernel_paging l st"
  have va: "0x400000 \<le> unat va" using assms(2) by (simp add: word_le_nat_alt)
  have idx: "unat (drop_bit 22 va) = unat va div 0x400000" by (simp add: unat_drop_bit_u32)
  show ?thesis
  proof (cases "va < 0x800000")
    case True
    then have "unat va < 0x800000" by (simp add: word_less_nat_alt)
    then have one: "unat (drop_bit 22 va) = 1" unfolding idx using va by simp
    then have d1: "drop_bit 22 va = 1" by (metis unat_1 word_unat_eq_iff)
    have "push_bit 22 (1 :: u32) OR take_bit 22 va = push_bit 22 (drop_bit 22 va) OR take_bit 22 va"
      unfolding d1 by simp
    also have "\<dots> = va" by (rule bit_word_eqI) (auto simp: bit_simps)
    finally have join: "push_bit 22 (1 :: u32) OR take_bit 22 va = va" .
    have "pdt ?s (unat (drop_bit 22 va)) = pdt_entry_page_setup (kernal_page l) 1 0"
      unfolding one by (simp add: setup_kernel_paging_def Let_def)
    from page_walk_4M [OF this] show ?thesis
      unfolding join using True by simp
  next
    case False
    then have "0x800000 \<le> unat va" by (simp add: word_less_nat_alt)
    then have "2 \<le> unat (drop_bit 22 va)" unfolding idx by simp
    then have "pdt ?s (unat (drop_bit 22 va)) = 0"
      using assms(1) by (simp add: setup_kernel_paging_def zero_tables_def Let_def)
    then show ?thesis using False by (simp add: page_walk_def)
  qed
qed

lemma pt0_after_setup:
  assumes "zero_tables st"
  shows "pt0 (setup_kernel_paging l st) i =
    (if i = 0xB8 then set_pt_entry (video_memory_page l) 0 0
     else if i = 0xB9 then set_pt_entry (video_memory_page1 l) 0 1
     else if i = 0xBA then set_pt_entry (video_memory_page2 l) 0 2
     else if i = 0xBB then set_pt_entry (video_memory_page3 l) 0 3 else 0)"
  using assms by (auto simp: setup_kernel_paging_def zero_tables_def Let_def)

lemma kernel_page_walk_low:
  assumes "zero_tables st" "take_bit 12 (at_pt0 st) = 0" "va < 0x400000"
  shows "page_walk (setup_kernel_paging l st) va =
    (if 0xB8000 \<le> va \<and> va < 0xBC000
     then Some \<lparr>frame_addr = va, user_ok = False, write_ok = True\<rparr> else None)"
proof -
  let ?s = "setup_kernel_paging l st"
  have va: "unat va < 0x400000" using assms(3) by (simp add: word_less_nat_alt)
  then have dir: "unat (drop_bit 22 va) = 0" by (simp add: unat_drop_bit_u32)
  define i where "i = unat va div 0x1000"
  have i: "i < 1024" using va by (simp add: i_def)
  have idx: "unat (take_bit 10 (drop_bit 12 va)) = i"
    unfolding unsigned_take_bit_eq unat_drop_bit_u32 using i by (simp add: i_def take_bit_nat_eq_self_iff)
  have page: "drop_bit 12 va = of_nat i"
    using i by (simp add: word_unat_eq_iff unat_drop_bit_u32 i_def)
  define e where "e = pdt ?s 0"
  have e: "bit e 0" "bit e 1" "\<not> bit e 2" "\<not> bit e 7" "drop_bit 12 e = drop_bit 12 (at_pt0 st)"
    using first_mb_entry [of "at_pt0 st" "first_mb l"]
    by (simp_all add: e_def setup_kernel_paging_def Let_def)
  have "push_bit 12 (drop_bit 12 (at_pt0 st)) = at_pt0 st"
    using assms(2) by (metis bits_ident add.right_neutral)
  then have tab: "table_at ?s (drop_bit 12 e) = Some (pt0 ?s)"
    unfolding e(5) by (simp add: table_at_def setup_kernel_paging_def Let_def)
  have walk: "page_walk ?s va = (let pte = pt0 ?s i in if \<not> bit pte 0 then None
      else Some \<lparr>frame_addr = push_bit 12 (drop_bit 12 pte) OR take_bit 12 va,
        user_ok = False, write_ok = bit pte 1\<rparr>)"
    using e unfolding page_walk_def dir e_def [symmetric] tab Let_def idx by simp
  have join: "push_bit 12 (of_nat i :: u32) OR take_bit 12 va = va"
    unfolding page [symmetric] by (rule bit_word_eqI) (auto simp: bit_simps)
  have range: "0xB8000 \<le> va \<and> va < 0xBC000 \<longleftrightarrow> 0xB8 \<le> i \<and> i < 0xBC"
    by (auto simp: word_le_nat_alt word_less_nat_alt i_def)
  have "i = 0xB8 \<or> i = 0xB9 \<or> i = 0xBA \<or> i = 0xBB" if "0xB8 \<le> i \<and> i < 0xBC"
    using that by auto
  then show ?thesis
    unfolding walk range
    using join by (auto simp: pt0_after_setup [OF assms(1)] Let_def bitfield_simps drop_bit_pt_entry)
qed

section \<open>Memory through entry 32\<close>

text \<open>
  \<open>map_process\<close> is the fragment shared by \<open>execute\<close>, \<open>halt\<close> and \<open>pit_handler\<close>: entry 32 of the
  directory is pointed to a 4 MB frame for user mode and the TLB is flushed.
\<close>

definition map_process :: "u32 \<Rightarrow> u32 \<Rightarrow> 'a vmm_scheme \<Rightarrow> 'a vmm_scheme" where
  "map_process new_page n st = flush_tlb (write_pdt 32 (pdt_entry_page_setup new_page n 1) st)"

text \<open>
  The linear-to-physical map the kernel's own accesses use: linear block 32 is the frame named by
  entry 32, everything else is where it is in physical memory.  Exchanging the two blocks makes
  the map a bijection; the block it moves out of the way, the frame itself as a linear block, is
  at 8 MB or above and not mapped by the directory.
\<close>

definition user_mapped :: "'a vmm_scheme \<Rightarrow> bool" where
  "user_mapped st \<longleftrightarrow> bit (pdt st 32) 0 \<and> bit (pdt st 32) 7"

definition remap :: "'a vmm_scheme \<Rightarrow> addr \<Rightarrow> addr" where
  "remap st a =
     (let f = drop_bit 22 (pdt st 32); b = drop_bit 22 a in
      if \<not> user_mapped st then a
      else if b = 32 then push_bit 22 f OR take_bit 22 a
      else if b = f then push_bit 22 32 OR take_bit 22 a
      else a)"

definition vmem :: "'a vmm_scheme \<Rightarrow> mem" where
  "vmem st = (\<lambda>a. phys st (remap st a))"

definition set_vmem :: "mem \<Rightarrow> 'a vmm_scheme \<Rightarrow> 'a vmm_scheme" where
  "set_vmem m st = st\<lparr>phys := (\<lambda>a. m (remap st a))\<rparr>"

lemma take_bit_10_id:
  assumes "b < (1024 :: u32)"
  shows "take_bit 10 b = b"
proof -
  have "unat b < 2 ^ 10" using assms by (simp add: word_less_nat_alt)
  then show ?thesis
    by (simp only: word_unat_eq_iff unsigned_take_bit_eq take_bit_nat_eq_self_iff)
qed

lemma join_drop: "b < 1024 \<Longrightarrow> drop_bit 22 (push_bit 22 b OR take_bit 22 (a :: u32)) = b"
  and join_take: "take_bit 22 (push_bit 22 b OR take_bit 22 (a :: u32)) = take_bit 22 a"
  and join_all: "push_bit 22 (drop_bit 22 a) OR take_bit 22 (a :: u32) = a"
proof -
  assume b: "b < 1024"
  have "take_bit 10 b = b" using b by (rule take_bit_10_id)
  moreover have "drop_bit 22 (push_bit 22 b OR take_bit 22 a) = take_bit 10 b"
    by (rule bit_word_eqI) (auto simp: bit_simps)
  ultimately show "drop_bit 22 (push_bit 22 b OR take_bit 22 a) = b" by simp
next
  show "take_bit 22 (push_bit 22 b OR take_bit 22 a) = take_bit 22 a"
    by (rule bit_word_eqI) (auto simp: bit_simps)
  show "push_bit 22 (drop_bit 22 a) OR take_bit 22 a = a"
    by (rule bit_word_eqI) (auto simp: bit_simps)
qed

lemma drop_bit_22_less: "drop_bit 22 (x :: u32) < 1024"
proof -
  have "unat x < 4294967296" by (rule unat_u32_less)
  then have "unat (drop_bit 22 x) < 1024" by (simp add: unat_drop_bit_u32)
  then show ?thesis by (simp add: word_less_nat_alt)
qed

lemma remap_remap: "remap st (remap st a) = a"
proof (cases "user_mapped st \<and> (drop_bit 22 a = 32 \<or> drop_bit 22 a = drop_bit 22 (pdt st 32))")
  case True
  then show ?thesis
    using join_drop [OF drop_bit_22_less, of "pdt st 32" a] join_drop [of 32 a] join_take join_all [of a]
    by (auto simp: remap_def Let_def simp del: push_bit_of_1 push_bit_numeral)
next
  case False
  then show ?thesis by (auto simp: remap_def Let_def)
qed

text \<open>Memory through the tables behaves as one memory: the laws of a lens.\<close>

locale memory_view =
  fixes view :: "'s \<Rightarrow> mem" and set_view :: "mem \<Rightarrow> 's \<Rightarrow> 's"
  assumes view_set: "view (set_view m s) = m"
    and set_set: "set_view m (set_view m' s) = set_view m s"
    and set_view_same: "set_view (view s) s = s"
begin

definition poke :: "addr \<Rightarrow> u8 list \<Rightarrow> 's \<Rightarrow> 's" where
  "poke a bs s = set_view (write_bytes (view s) a bs) s"

lemma poke_Nil: "poke a [] s = s"
  by (simp add: poke_def set_view_same)

lemma poke_append: "poke a (bs @ cs) s = poke (a + of_nat (length bs)) cs (poke a bs s)"
  by (simp add: poke_def view_set set_set write_bytes_append)

lemma peek_poke: "length bs \<le> 4294967296 \<Longrightarrow> bytes (view (poke a bs s)) a (length bs) = bs"
  by (simp add: poke_def view_set bytes_write_same)

lemma peek_poke_apart:
  "apart a (length bs) b k \<Longrightarrow> length bs \<le> 4294967296 \<Longrightarrow> k \<le> 4294967296 \<Longrightarrow>
    bytes (view (poke a bs s)) b k = bytes (view s) b k"
  by (simp add: poke_def view_set bytes_write_apart)

end

lemma remap_set_vmem [simp]: "remap (set_vmem m st) = remap st"
  by (rule ext) (simp add: remap_def set_vmem_def user_mapped_def)

lemma vmem_set_vmem [simp]: "vmem (set_vmem m st) = m"
  unfolding vmem_def remap_set_vmem by (rule ext) (simp add: set_vmem_def remap_remap)

interpretation paged: memory_view vmem set_vmem
proof unfold_locales
  show "vmem (set_vmem m s) = m" for m and s :: "'a vmm_scheme" by simp
  show "set_vmem m (set_vmem m' s) = set_vmem m s" for m m' and s :: "'a vmm_scheme"
    unfolding set_vmem_def [of m "set_vmem m' s"] remap_set_vmem by (simp add: set_vmem_def)
  show "set_vmem (vmem s) s = s" for s :: "'a vmm_scheme"
    by (simp add: set_vmem_def vmem_def remap_remap)
qed

lemma set_vmem_frame [simp]:
  "pdt (set_vmem m st) = pdt st" "pt0 (set_vmem m st) = pt0 st" "pt_vidmap (set_vmem m st) = pt_vidmap st"
  "at_pt0 (set_vmem m st) = at_pt0 st" "at_pt_vidmap (set_vmem m st) = at_pt_vidmap st"
  "tlb_fresh (set_vmem m st) = tlb_fresh st" "tss_esp0 (set_vmem m st) = tss_esp0 st"
  "tss_ss0 (set_vmem m st) = tss_ss0 st" "vmm.more (set_vmem m st) = vmm.more st"
  "esp (set_vmem m st) = esp st" "ebp (set_vmem m st) = ebp st" "int_flag (set_vmem m st) = int_flag st"
  "out_log (set_vmem m st) = out_log st" "master_mask (set_vmem m st) = master_mask st"
  "slave_mask (set_vmem m st) = slave_mask st"
  by (simp_all add: set_vmem_def)

text \<open>
  The view is what the processor's walk gives: on the user page always, and on the kernel's page
  and the video pages, which it leaves in place.
\<close>

lemma page_walk_user:
  assumes "drop_bit 22 va = 32" "get_bits 13 8 g = 0" "n < 1024"
  shows "page_walk (map_process g n st) va =
    Some \<lparr>frame_addr = remap (map_process g n st) va, user_ok = True, write_ok = True\<rparr>"
proof -
  let ?s = "map_process g n st"
  have n: "take_bit 10 n = n" using assms(3) by (rule take_bit_10_id)
  have e: "pdt ?s 32 = pdt_entry_page_setup g n 1" by (simp add: map_process_def)
  have u: "user_mapped ?s" unfolding user_mapped_def e by (simp add: bitfield_simps)
  have "pdt ?s (unat (drop_bit 22 va)) = pdt_entry_page_setup g n 1" unfolding assms(1) by (simp add: e)
  from page_walk_4M [OF this] show ?thesis
    unfolding remap_def e drop_bit_pdt_entry n using u assms(1,2) by (simp add: Let_def)
qed

lemma page_walk_map_process_other:
  assumes "drop_bit 22 va \<noteq> 32"
  shows "page_walk (map_process g n st) va = page_walk st va"
proof -
  have "unat (drop_bit 22 va) \<noteq> 32"
    using assms by (auto simp: word_unat_eq_iff)
  then have "pdt (map_process g n st) (unat (drop_bit 22 va)) = pdt st (unat (drop_bit 22 va))"
    by (simp add: map_process_def)
  moreover have "table_at (map_process g n st) f = table_at st f" for f
    by (simp add: table_at_def map_process_def)
  ultimately show ?thesis by (simp add: page_walk_def Let_def)
qed

lemma frame_arith:
  fixes p q x y :: nat
  assumes "x < 0x400000" "y < 0x400000"
  shows "q \<le> 6 \<Longrightarrow> (q + 1) * 0x400000 + x < 4294967296"
    and "(p + 1) * 0x400000 + x = (q + 1) * 0x400000 + y \<Longrightarrow> p = q \<and> x = y"
proof -
  assume "q \<le> 6"
  then have "(q + 1) * 0x400000 \<le> 7 * 0x400000" by (intro mult_le_mono1) simp
  then show "(q + 1) * 0x400000 + x < 4294967296" using assms(1) by simp
next
  assume eq: "(p + 1) * 0x400000 + x = (q + 1) * 0x400000 + y"
  have "((r + 1) * 0x400000 + z) div 0x400000 = r + 1" "((r + 1) * 0x400000 + z) mod 0x400000 = z"
    if "z < 0x400000" for r z :: nat
    using that by (simp_all only: div_mult_self3 mod_mult_self3 div_less mod_less)
  then show "p = q \<and> x = y" using eq assms by (metis add_right_cancel)
qed

lemma unat_user_frame:
  assumes "q \<le> 6"
  shows "unat (of_nat (q + 1) * 0x400000 + take_bit 22 x :: addr) = (q + 1) * 0x400000 + unat (take_bit 22 x)"
    and "unat (take_bit 22 (x :: addr)) < 0x400000"
proof -
  show off: "unat (take_bit 22 (x :: addr)) < 0x400000"
    unfolding unsigned_take_bit_eq using take_bit_nat_less_exp [of 22 "unat x"] by simp
  have "of_nat (q + 1) * 0x400000 + take_bit 22 x = (of_nat ((q + 1) * 0x400000 + unat (take_bit 22 x)) :: addr)"
    by simp
  moreover have "(q + 1) * 0x400000 + unat (take_bit 22 x) < 4294967296"
    using frame_arith(1) off assms by blast
  ultimately show "unat (of_nat (q + 1) * 0x400000 + take_bit 22 x :: addr) =
      (q + 1) * 0x400000 + unat (take_bit 22 x)"
    by (metis unat_of_nat_u32)
qed

lemma user_frame_inject:
  assumes "of_nat (p + 1) * 0x400000 + take_bit 22 x = (of_nat (q + 1) * 0x400000 + take_bit 22 y :: addr)"
    and "p \<le> 6" "q \<le> 6"
  shows "p = q \<and> take_bit 22 x = take_bit 22 y"
proof -
  have "(p + 1) * 0x400000 + unat (take_bit 22 x) = (q + 1) * 0x400000 + unat (take_bit 22 y)"
    using assms unat_user_frame(1) by metis
  then have "p = q" "unat (take_bit 22 x) = unat (take_bit 22 y)"
    using frame_arith(2) unat_user_frame(2) [OF assms(2), of x] unat_user_frame(2) [OF assms(3), of y]
    by blast+
  then show ?thesis by (simp only: word_unat_eq_iff) 
qed

lemma page_walk_map_process:
  assumes "drop_bit 22 va = 32"
  shows "page_walk (map_process g n st) va = (if get_bits 13 8 g = 0
    then Some \<lparr>frame_addr = n * 0x400000 + take_bit 22 va, user_ok = True, write_ok = True\<rparr> else None)"
proof -
  have "push_bit 22 n OR take_bit 22 va = push_bit 22 n + take_bit 22 va"
    by (rule disjunctive_add [symmetric]) (auto simp: bit_simps)
  then have join: "push_bit 22 n OR take_bit 22 va = n * 0x400000 + take_bit 22 va"
    by (simp add: push_bit_eq_mult)
  have "pdt (map_process g n st) (unat (drop_bit 22 va)) = pdt_entry_page_setup g n 1"
    unfolding assms by (simp add: map_process_def)
  from page_walk_4M [OF this] show ?thesis unfolding join by simp
qed

lemma kernel_page_walk:
  assumes "zero_tables st" "take_bit 12 (at_pt0 st) = 0"
  shows "page_walk (setup_kernel_paging l st) va =
    (if 0x400000 \<le> va \<and> va < 0x800000 \<and> get_bits 13 8 (kernal_page l) = 0 \<or> 0xB8000 \<le> va \<and> va < 0xBC000
     then Some \<lparr>frame_addr = va, user_ok = False, write_ok = True\<rparr> else None)"
proof (cases "0x400000 \<le> va")
  case True
  then have "\<not> va < 0xBC000" by (auto simp: word_le_nat_alt word_less_nat_alt)
  then show ?thesis using kernel_page_walk_high [OF assms(1) True] True by simp
next
  case False
  then have "va < 0x400000" by simp
  from kernel_page_walk_low [OF assms(1,2) this] show ?thesis using False by simp
qed

section \<open>Properties\<close>

text \<open>C24: the address space \<open>setup_kernel_paging\<close> builds on the zeroed tables of \<^verbatim>\<open>x86_desc.S\<close>: the
  processor maps the four video pages from 0xB8000 and, if bits 13 to 20 of the uninitialised \<open>kernal_page\<close>
  happen to be 0, the kernel's 4 MB to 8 MB to themselves, for the supervisor only, and maps nothing else:
  not the rest of the first 4 MB, which the function's comment says is mapped, and not the kernel's page when
  one of these bits is set, which the code never clears.  No other uninitialised bit matters.\<close>

theorem kernel_address_space:
  assumes "zero_tables st" "take_bit 12 (at_pt0 st) = 0"
  shows "page_walk (setup_kernel_paging l st) va =
    (if 0x400000 \<le> va \<and> va < 0x800000 \<and> get_bits 13 8 (kernal_page l) = 0 \<or> 0xB8000 \<le> va \<and> va < 0xBC000
     then Some \<lparr>frame_addr = va, user_ok = False, write_ok = True\<rparr> else None)"
  using assms by (rule kernel_page_walk)

definition boot_vmm :: vmm where
  "boot_vmm = \<lparr>phys = \<lambda>_. 0, out_log = [], int_flag = False, esp = 0x7FFF00, ebp = 0x7FFF20, debug_regs = \<lambda>_. 0,
     master_mask = 0xFF, slave_mask = 0xFF, pdt = \<lambda>_. 0, pt0 = \<lambda>_. 0, pt_vidmap = \<lambda>_. 0,
     at_pdt = 0x410000, at_pt0 = 0x411000, at_pt_vidmap = 0x412000, cr0 = 0, cr3 = 0, cr4 = 0,
     tlb_fresh = True, tss_esp0 = 0, tss_ss0 = 0\<rparr>"

definition junk_locals :: paging_locals where
  "junk_locals = \<lparr>kernal_page = 0xFFC00F55, first_mb = 0xFFFFFFFF, video_memory_page = 0x12345678,
     video_memory_page1 = 0xFFFFFFFF, video_memory_page2 = 0, video_memory_page3 = 0xDEADBEEF\<rparr>"

lemma boot_vmm_zero: "zero_tables boot_vmm" "take_bit 12 (at_pt0 boot_vmm) = 0"
  by (simp_all add: zero_tables_def boot_vmm_def)

lemma kernel_address_space_witness:
  "page_walk (setup_kernel_paging junk_locals boot_vmm) 0xB9FFF =
     Some \<lparr>frame_addr = 0xB9FFF, user_ok = False, write_ok = True\<rparr> \<and>
   page_walk (setup_kernel_paging junk_locals boot_vmm) 0xBC000 = None \<and>
   page_walk (setup_kernel_paging junk_locals boot_vmm) 0x400123 =
     Some \<lparr>frame_addr = 0x400123, user_ok = False, write_ok = True\<rparr>"
  using kernel_address_space [OF boot_vmm_zero, of junk_locals "0xB9FFF"]
    kernel_address_space [OF boot_vmm_zero, of junk_locals "0xBC000"]
    kernel_address_space [OF boot_vmm_zero, of junk_locals "0x400123"] by (simp add: junk_locals_def get_bits_def)

text \<open>C23: mapping process \<open>pid\<close> gives user mode the 4 MB at 128 MB, backed by the frame at
  \<open>(pid + 1) * 4\<close> MB, provided that bits 13 to 20 of the uninitialised \<open>new_page\<close> are 0, and no translation to
  count on otherwise: the code never clears these bits.  In both cases it changes no other translation and
  leaves no stale translation in the TLB; the frames of two processes are disjoint and lie above the
  kernel.\<close>

theorem process_page_mapped:
  assumes "1 \<le> pid" "pid \<le> 6" "1 \<le> pid'" "pid' \<le> 6"
  shows "page_walk (map_process g (of_nat (pid + 1)) st) va =
      (if drop_bit 22 va \<noteq> 32 then page_walk st va
       else if get_bits 13 8 g = 0
       then Some \<lparr>frame_addr = of_nat (pid + 1) * 0x400000 + take_bit 22 va, user_ok = True, write_ok = True\<rparr>
       else None) \<and>
    tlb_fresh (map_process g (of_nat (pid + 1)) st) \<and>
    (of_nat (pid + 1) * 0x400000 + take_bit 22 va = of_nat (pid' + 1) * 0x400000 + take_bit 22 (va' :: addr)
       \<longrightarrow> pid = pid' \<and> take_bit 22 va = take_bit 22 va') \<and>
    0x800000 \<le> of_nat (pid + 1) * 0x400000 + take_bit 22 va"
proof -
  have "0x800000 \<le> (of_nat (pid + 1) * 0x400000 + take_bit 22 va :: addr)"
    unfolding word_le_nat_alt unat_user_frame(1) [OF assms(2)] using assms(1) by simp
  moreover have "tlb_fresh (map_process g (of_nat (pid + 1)) st)" by (simp add: map_process_def)
  moreover have "page_walk (map_process g (of_nat (pid + 1)) st) va =
      (if drop_bit 22 va \<noteq> 32 then page_walk st va
       else if get_bits 13 8 g = 0
       then Some \<lparr>frame_addr = of_nat (pid + 1) * 0x400000 + take_bit 22 va, user_ok = True, write_ok = True\<rparr>
       else None)"
    using page_walk_map_process [of va g "of_nat (pid + 1)" st] page_walk_map_process_other [of va g "of_nat (pid + 1)" st]
    by (cases "drop_bit 22 va = 32") (simp_all only: if_True if_False not_True_eq_False not_False_eq_True simp_thms)
  ultimately show ?thesis
    using user_frame_inject [OF _ assms(2,4)] by blast
qed

lemma process_page_mapped_witness:
  "page_walk (map_process 0x55 2 boot_vmm) 0x8048000 =
     Some \<lparr>frame_addr = 0x848000, user_ok = True, write_ok = True\<rparr>"
  using process_page_mapped [of 1 1 "0x55" boot_vmm "0x8048000" "0x8048000"]
  by (simp add: get_bits_def)

end
