(* ===== verification/Process.thy ===== *)
theory Process imports Paging begin

text \<open>
  Process control blocks, file descriptors and the scheduler's globals, from
  \<^verbatim>\<open>src/src/sys_calls.h\<close>, \<^verbatim>\<open>src/src/sys_calls.c\<close> and \<^verbatim>\<open>src/src/pit.c\<close>.  A control block lies at the
  bottom of the 8 KB kernel stack of its process; the model keeps the blocks in a heap of their
  own, indexed by address.  The abstract view of the heap is one stack of process numbers per
  terminal (\<open>chain\<close>): its bottom is the terminal's base shell, its top the process that runs.
\<close>

section \<open>Data\<close>

text \<open>A function pointer of an operations table is the driver it belongs to, or NULL.\<close>

datatype driver = Rtc | Dir | File | Terminal

record file_ops =
  read_op :: "driver option"
  write_op :: "driver option"
  open_op :: "driver option"
  close_op :: "driver option"

record file_desc =
  operations_table :: file_ops
  inode :: u32
  file_position :: u32
  fd_flags :: u32

record pcb =
  process_id :: int
  exit_status :: u32
  files :: "nat \<Rightarrow> file_desc"
  args :: "nat \<Rightarrow> u8"
  pname :: "u8 list"
  child_pcb :: addr
  parent_pcb :: addr
  pcb_ebp :: u32
  sched_ebp :: u32

record proc = vmm +
  pcbs :: "addr \<Rightarrow> pcb"
  aux_processes :: int
  base_shell_live_bitmask :: u8
  base_shell_booted_bitmask :: u8
  shell_init_boot :: int
  active_processes :: "int \<Rightarrow> u8"
  cur_process :: int
  cur_terminal :: int

section \<open>Finding control blocks\<close>

text \<open>The block of the running process: the stack pointer rounded down to 8 KB.\<close>

definition current_pcb_addr :: "'a machine_scheme \<Rightarrow> addr" where
  "current_pcb_addr st = esp st AND 0xFFFFE000"

definition current_pcb :: "'a proc_scheme \<Rightarrow> pcb" where
  "current_pcb st = pcbs st (current_pcb_addr st)"

definition update_pcb :: "addr \<Rightarrow> (pcb \<Rightarrow> pcb) \<Rightarrow> 'a proc_scheme \<Rightarrow> 'a proc_scheme" where
  "update_pcb a f st = st\<lparr>pcbs := (pcbs st)(a := f (pcbs st a))\<rparr>"

text \<open>\<open>BASE_MEM - (n + 1) * PCB_MEM\<close> and \<open>BASE_MEM - n * PCB_MEM\<close>.\<close>

definition pcb_at :: "int \<Rightarrow> addr" where
  "pcb_at n = 0x800000 - (of_int n + 1) * 0x2000"

definition kernel_stack_top :: "int \<Rightarrow> addr" where
  "kernel_stack_top n = 0x800000 - of_int n * 0x2000"

partial_function (option) get_top_process_pcb :: "(addr \<Rightarrow> pcb) \<Rightarrow> addr \<Rightarrow> addr option" where
  "get_top_process_pcb heap starting_pcb =
     (if child_pcb (heap starting_pcb) \<noteq> 0
      then get_top_process_pcb heap (child_pcb (heap starting_pcb))
      else Some starting_pcb)"

partial_function (option) get_base_process_pcb :: "(addr \<Rightarrow> pcb) \<Rightarrow> addr \<Rightarrow> addr option" where
  "get_base_process_pcb heap starting_pcb =
     (if parent_pcb (heap starting_pcb) \<noteq> 0
      then get_base_process_pcb heap (parent_pcb (heap starting_pcb))
      else Some starting_pcb)"

definition get_current_process :: "'a proc_scheme \<Rightarrow> int" where
  "get_current_process st = cur_process st - 1"

lemma update_pcb_simps [simp]:
  "pcbs (update_pcb a f st) = (pcbs st)(a := f (pcbs st a))"
  "current_pcb_addr (update_pcb a f st) = current_pcb_addr st"
  "pdt (update_pcb a f st) = pdt st" "phys (update_pcb a f st) = phys st"
  "esp (update_pcb a f st) = esp st" "vmem (update_pcb a f st) = vmem st"
  "aux_processes (update_pcb a f st) = aux_processes st"
  "base_shell_live_bitmask (update_pcb a f st) = base_shell_live_bitmask st"
  "base_shell_booted_bitmask (update_pcb a f st) = base_shell_booted_bitmask st"
  "shell_init_boot (update_pcb a f st) = shell_init_boot st"
  "active_processes (update_pcb a f st) = active_processes st"
  "cur_process (update_pcb a f st) = cur_process st" "cur_terminal (update_pcb a f st) = cur_terminal st"
  "tss_esp0 (update_pcb a f st) = tss_esp0 st" "tss_ss0 (update_pcb a f st) = tss_ss0 st"
  "tlb_fresh (update_pcb a f st) = tlb_fresh st" "proc.more (update_pcb a f st) = proc.more st"
  by (simp_all add: update_pcb_def current_pcb_addr_def vmem_def remap_def user_mapped_def fun_eq_iff)

text \<open>Distinct process numbers have distinct, non-null blocks.\<close>

lemma unat_pcb_at: "0 \<le> n \<Longrightarrow> n \<le> 1000 \<Longrightarrow> unat (pcb_at n) = nat (0x800000 - (n + 1) * 0x2000)"
proof -
  assume n: "0 \<le> n" "n \<le> 1000"
  define k where "k = nat (0x800000 - (n + 1) * 0x2000)"
  have "int k = 0x800000 - (n + 1) * 0x2000" using n by (simp add: k_def)
  then have "pcb_at n = of_int (int k)" by (simp add: pcb_at_def)
  then have "pcb_at n = of_nat k" by simp
  moreover have "k < 4294967296" using n by (simp add: k_def)
  ultimately show ?thesis by (simp add: k_def)
qed

lemma pcb_at_eq: "0 \<le> n \<Longrightarrow> n \<le> 1000 \<Longrightarrow> 0 \<le> k \<Longrightarrow> k \<le> 1000 \<Longrightarrow> pcb_at n = pcb_at k \<longleftrightarrow> n = k"
  using unat_pcb_at [of n] unat_pcb_at [of k] by auto

lemma pcb_at_nz: "0 \<le> n \<Longrightarrow> n \<le> 1000 \<Longrightarrow> pcb_at n \<noteq> 0"
  using unat_pcb_at [of n] by (auto simp: unat_eq_0 [symmetric])

section \<open>Chains of processes\<close>

text \<open>\<open>chain heap ps\<close>: the processes \<open>ps\<close>, base first, are linked to each other by their blocks.\<close>

definition chain :: "(addr \<Rightarrow> pcb) \<Rightarrow> int list \<Rightarrow> bool" where
  "chain heap ps \<longleftrightarrow> distinct ps \<and> set ps \<subseteq> {1..6} \<and>
     (\<forall>i < length ps. process_id (heap (pcb_at (ps ! i))) = ps ! i \<and>
        child_pcb (heap (pcb_at (ps ! i))) = (if Suc i < length ps then pcb_at (ps ! Suc i) else 0) \<and>
        parent_pcb (heap (pcb_at (ps ! i))) = (if i = 0 then 0 else pcb_at (ps ! (i - 1))))"

lemma chain_range: "chain heap ps \<Longrightarrow> p \<in> set ps \<Longrightarrow> 1 \<le> p \<and> p \<le> 6"
  by (auto simp: chain_def)

lemma chain_nth_range: "chain heap ps \<Longrightarrow> i < length ps \<Longrightarrow> 1 \<le> ps ! i \<and> ps ! i \<le> 6"
  by (rule chain_range) auto

lemma get_top_chain:
  assumes "chain heap ps"
  shows "i < length ps \<Longrightarrow> get_top_process_pcb heap (pcb_at (ps ! i)) = Some (pcb_at (last ps))"
proof (induction "length ps - Suc i" arbitrary: i)
  case 0
  then have i: "Suc i = length ps" by simp
  then have "ps ! i = last ps" by (metis diff_Suc_1 last_conv_nth length_0_conv nat.distinct(1))
  moreover have "child_pcb (heap (pcb_at (ps ! i))) = 0" using assms i by (auto simp: chain_def)
  ultimately show ?case by (subst get_top_process_pcb.simps) simp
next
  case (Suc k)
  then have i: "Suc i < length ps" by simp
  then have c: "child_pcb (heap (pcb_at (ps ! i))) = pcb_at (ps ! Suc i)"
    using assms by (auto simp: chain_def)
  have "pcb_at (ps ! Suc i) \<noteq> 0" using chain_nth_range [OF assms i] by (intro pcb_at_nz) auto
  moreover have "get_top_process_pcb heap (pcb_at (ps ! Suc i)) = Some (pcb_at (last ps))"
    using Suc i by (intro Suc.hyps(1)) auto
  ultimately show ?case by (subst get_top_process_pcb.simps) (simp add: c)
qed

lemma get_base_chain:
  assumes "chain heap ps"
  shows "i < length ps \<Longrightarrow> get_base_process_pcb heap (pcb_at (ps ! i)) = Some (pcb_at (hd ps))"
proof (induction i)
  case 0
  then have "parent_pcb (heap (pcb_at (ps ! 0))) = 0" using assms by (auto simp: chain_def)
  then show ?case using 0 by (subst get_base_process_pcb.simps) (simp add: hd_conv_nth)
next
  case (Suc i)
  then have p: "parent_pcb (heap (pcb_at (ps ! Suc i))) = pcb_at (ps ! i)"
    using assms by (auto simp: chain_def)
  have "pcb_at (ps ! i) \<noteq> 0" using chain_nth_range [OF assms, of i] Suc.prems by (intro pcb_at_nz) auto
  then show ?case using Suc by (subst get_base_process_pcb.simps) (simp add: p)
qed

text \<open>Changing blocks of other processes, or other fields, keeps a chain.\<close>

lemma chain_cong:
  assumes "\<And>p. p \<in> set ps \<Longrightarrow> process_id (h' (pcb_at p)) = process_id (h (pcb_at p)) \<and>
      child_pcb (h' (pcb_at p)) = child_pcb (h (pcb_at p)) \<and>
      parent_pcb (h' (pcb_at p)) = parent_pcb (h (pcb_at p))"
  shows "chain h' ps = chain h ps"
  using assms by (simp add: chain_def)

text \<open>Linking a new process on top of a chain, and unlinking the top one.\<close>

lemma chain_push:
  assumes "chain h ps" "ps \<noteq> []" "q \<notin> set ps" "1 \<le> q" "q \<le> 6"
    and "process_id (h' (pcb_at q)) = q" "child_pcb (h' (pcb_at q)) = 0"
    and "parent_pcb (h' (pcb_at q)) = pcb_at (last ps)"
    and "process_id (h' (pcb_at (last ps))) = last ps" "child_pcb (h' (pcb_at (last ps))) = pcb_at q"
    and "parent_pcb (h' (pcb_at (last ps))) = parent_pcb (h (pcb_at (last ps)))"
    and "\<And>p. p \<in> set ps \<Longrightarrow> p \<noteq> last ps \<Longrightarrow> h' (pcb_at p) = h (pcb_at p)"
  shows "chain h' (ps @ [q])"
proof -
  have "process_id (h' (pcb_at ((ps @ [q]) ! i))) = (ps @ [q]) ! i \<and>
      child_pcb (h' (pcb_at ((ps @ [q]) ! i))) =
        (if Suc i < length (ps @ [q]) then pcb_at ((ps @ [q]) ! Suc i) else 0) \<and>
      parent_pcb (h' (pcb_at ((ps @ [q]) ! i))) = (if i = 0 then 0 else pcb_at ((ps @ [q]) ! (i - 1)))"
    if i: "i < length (ps @ [q])" for i
  proof -
    consider "i = length ps" | "Suc i = length ps" | "Suc i < length ps" using i by fastforce
    then show ?thesis
    proof cases
      case 1
      then show ?thesis using assms(2,6,7,8) by (simp add: nth_append last_conv_nth)
    next
      case 2
      then have l: "ps ! i = last ps" by (metis assms(2) diff_Suc_1 last_conv_nth)
      have "parent_pcb (h (pcb_at (ps ! i))) = (if i = 0 then 0 else pcb_at (ps ! (i - 1)))"
        using assms(1) 2 by (auto simp: chain_def)
      moreover have "i - Suc 0 < length ps" using 2 by simp
      ultimately show ?thesis using 2 l assms(9,10,11) by (simp add: nth_append less_Suc_eq)
    next
      case 3
      have "ps ! i \<noteq> last ps"
        using assms(1,2) 3 by (auto simp: chain_def last_conv_nth nth_eq_iff_index_eq)
      then have "h' (pcb_at (ps ! i)) = h (pcb_at (ps ! i))" using assms(12) 3 by simp
      moreover have "i - Suc 0 < length ps" using 3 by simp
      ultimately show ?thesis using assms(1) 3 by (simp add: chain_def nth_append)
    qed
  qed
  then show ?thesis using assms(1,3,4,5) by (auto simp: chain_def)
qed

lemma chain_pop:
  assumes "chain h (ps @ [q])" "ps \<noteq> []"
    and "process_id (h' (pcb_at (last ps))) = last ps" "child_pcb (h' (pcb_at (last ps))) = 0"
    and "parent_pcb (h' (pcb_at (last ps))) = parent_pcb (h (pcb_at (last ps)))"
    and "\<And>p. p \<in> set ps \<Longrightarrow> p \<noteq> last ps \<Longrightarrow> h' (pcb_at p) = h (pcb_at p)"
  shows "chain h' ps"
proof -
  have old: "process_id (h (pcb_at (ps ! i))) = ps ! i"
      "child_pcb (h (pcb_at (ps ! i))) = pcb_at ((ps @ [q]) ! Suc i)"
      "parent_pcb (h (pcb_at (ps ! i))) = (if i = 0 then 0 else pcb_at (ps ! (i - 1)))"
    if "i < length ps" for i
    using assms(1) that unfolding chain_def by (auto simp: nth_append dest!: spec [of _ i])
  have "process_id (h' (pcb_at (ps ! i))) = ps ! i \<and>
      child_pcb (h' (pcb_at (ps ! i))) = (if Suc i < length ps then pcb_at (ps ! Suc i) else 0) \<and>
      parent_pcb (h' (pcb_at (ps ! i))) = (if i = 0 then 0 else pcb_at (ps ! (i - 1)))"
    if "i < length ps" for i
  proof (cases "Suc i = length ps")
    case True
    then have "ps ! i = last ps" by (metis assms(2) diff_Suc_1 last_conv_nth)
    then show ?thesis using old [OF that] True assms(3,4,5) by simp
  next
    case False
    then have "Suc i < length ps" using that by simp
    moreover have "ps ! i \<noteq> last ps"
      using assms(1,2) calculation that by (auto simp: chain_def last_conv_nth nth_eq_iff_index_eq)
    then have "h' (pcb_at (ps ! i)) = h (pcb_at (ps ! i))" using assms(6) that by simp
    ultimately show ?thesis using old [OF that] by (simp add: nth_append)
  qed
  then show ?thesis using assms(1) by (auto simp: chain_def)
qed

end
