(* ===== verification/CMem.thy ===== *)
theory CMem imports Prelude begin

text \<open>
  The memory routines of \<^verbatim>\<open>src/src/lib.c\<close> on flat byte memory: the \<open>memset\<close> family,
  \<open>memcpy\<close> and \<open>memmove\<close>.  The inline assembly is modelled register by register: the
  counters \<open>ecx\<close> and \<open>edx\<close> are the number of iterations left, \<open>rep\<close> prefixes are
  recursion on the counter, and the direction flag is explicit.  The lemmas show that the unrolled
  routines compute their byte-wise reference results.
\<close>

section \<open>memset\<close>

text \<open>\<^verbatim>\<open>rep stosl\<close> and \<^verbatim>\<open>rep stosw\<close> with the direction flag clear.\<close>

fun rep_stosl :: "mem \<Rightarrow> u32 \<Rightarrow> addr \<Rightarrow> nat \<Rightarrow> mem \<times> addr" where
  "rep_stosl m eax edi 0 = (m, edi)"
| "rep_stosl m eax edi (Suc ecx) = rep_stosl (write32 m edi eax) eax (edi + 4) ecx"

fun rep_stosw :: "mem \<Rightarrow> u32 \<Rightarrow> addr \<Rightarrow> nat \<Rightarrow> mem \<times> addr" where
  "rep_stosw m eax edi 0 = (m, edi)"
| "rep_stosw m eax edi (Suc ecx) =
     rep_stosw (write_bytes m edi [ucast eax, ucast (drop_bit 8 eax)]) eax (edi + 2) ecx"

fun memset_bottom :: "mem \<Rightarrow> u32 \<Rightarrow> addr \<Rightarrow> nat \<Rightarrow> mem" where
  "memset_bottom m eax edi 0 = m"
| "memset_bottom m eax edi (Suc edx) = memset_bottom (m(edi := ucast eax)) eax (edi + 1) edx"

definition memset_aligned :: "mem \<Rightarrow> u32 \<Rightarrow> addr \<Rightarrow> nat \<Rightarrow> mem" where
  "memset_aligned m eax edi ecx =
     (let edx = ecx mod 4;
          (m', edi') = rep_stosl m eax edi (ecx div 4)
      in memset_bottom m' eax edi' edx)"

fun memset_top :: "mem \<Rightarrow> u32 \<Rightarrow> addr \<Rightarrow> nat \<Rightarrow> mem" where
  "memset_top m eax edi 0 = m"
| "memset_top m eax edi (Suc ecx) =
     (if edi AND 3 = 0 then memset_aligned m eax edi (Suc ecx)
      else memset_top (m(edi := ucast eax)) eax (edi + 1) ecx)"

definition memset :: "mem \<Rightarrow> addr \<Rightarrow> u32 \<Rightarrow> u32 \<Rightarrow> mem" where
  "memset m s c n =
     (let c' = c AND 0xFF
      in memset_top m (push_bit 24 c' OR push_bit 16 c' OR push_bit 8 c' OR c') s (unat n))"

definition memset_word :: "mem \<Rightarrow> addr \<Rightarrow> u32 \<Rightarrow> u32 \<Rightarrow> mem" where
  "memset_word m s c n = fst (rep_stosw m c s (unat n))"

definition memset_dword :: "mem \<Rightarrow> addr \<Rightarrow> u32 \<Rightarrow> u32 \<Rightarrow> mem" where
  "memset_dword m s c n = fst (rep_stosl m c s (unat n))"

lemma rep_stosl_bytes:
  "rep_stosl m eax edi k =
    (write_bytes m edi (concat (replicate k (bytes_of32 eax))), edi + of_nat (4 * k))"
proof (induction k arbitrary: m edi)
  case (Suc k)
  then show ?case by (simp add: write_bytes_append write32_def algebra_simps)
qed simp

lemma rep_stosw_bytes:
  "rep_stosw m eax edi k =
    (write_bytes m edi (concat (replicate k [ucast eax, ucast (drop_bit 8 eax)])), edi + of_nat (2 * k))"
  by (induction k arbitrary: m edi) (simp_all add: algebra_simps)

lemma memset_bottom_bytes: "memset_bottom m eax edi k = write_bytes m edi (replicate k (ucast eax))"
  by (induction k arbitrary: m edi) simp_all

lemma concat_replicate_const: "concat (replicate k (replicate n x)) = replicate (k * n) x"
  by (induction k) (simp_all add: replicate_add)

lemma memset_aligned_bytes:
  assumes "bytes_of32 eax = replicate 4 b"
  shows "memset_aligned m eax edi ecx = write_bytes m edi (replicate ecx b)"
proof -
  have b: "ucast eax = b" using assms by (simp add: bytes_of32_def eval_nat_numeral)
  have "replicate ecx b = replicate (ecx div 4 * 4) b @ replicate (ecx mod 4) b"
    by (simp flip: replicate_add)
  then show ?thesis
    by (simp add: memset_aligned_def rep_stosl_bytes memset_bottom_bytes assms b
        concat_replicate_const write_bytes_append mult.commute)
qed

lemma memset_top_bytes:
  "bytes_of32 eax = replicate 4 b \<Longrightarrow> memset_top m eax edi ecx = write_bytes m edi (replicate ecx b)"
proof (induction ecx arbitrary: m edi)
  case (Suc ecx)
  have b: "ucast eax = b" using Suc.prems by (simp add: bytes_of32_def eval_nat_numeral)
  show ?case
    using Suc by (simp add: memset_aligned_bytes b)
qed simp

lemma replicate_4: "replicate 4 x = [x, x, x, x]"
  by (simp add: eval_nat_numeral)

lemma bytes_of32_splat:
  fixes c :: u32
  defines "c' \<equiv> c AND 0xFF"
  shows "bytes_of32 (push_bit 24 c' OR push_bit 16 c' OR push_bit 8 c' OR c') = replicate 4 (ucast c)"
proof -
  have mask: "(0xFF :: u32) = mask 8" by (simp add: mask_eq_exp_minus_1)
  define w where "w = push_bit 24 c' OR push_bit 16 c' OR push_bit 8 c' OR c'"
  have "ucast w = (ucast c :: u8)" "ucast (drop_bit 8 w) = (ucast c :: u8)"
    "ucast (drop_bit 16 w) = (ucast c :: u8)" "ucast (drop_bit 24 w) = (ucast c :: u8)"
    unfolding w_def c'_def mask
    by (rule bit_word_eqI, auto simp: bit_simps simp del: push_bit_and)+
  then show ?thesis by (simp add: w_def [symmetric] bytes_of32_def replicate_4)
qed

text \<open>The aligned, unrolled \<open>memset\<close> writes the low byte of \<open>c\<close> to the \<open>n\<close> bytes at \<open>s\<close>.\<close>

lemma memset_bytes: "memset m s c n = write_bytes m s (replicate (unat n) (ucast c))"
  unfolding memset_def Let_def by (rule memset_top_bytes, rule bytes_of32_splat)

section \<open>memcpy and memmove\<close>

text \<open>\<^verbatim>\<open>rep movsl\<close> with the direction flag clear: each step loads four bytes, then stores them.\<close>

fun rep_movsl :: "mem \<Rightarrow> addr \<Rightarrow> addr \<Rightarrow> nat \<Rightarrow> mem \<times> addr \<times> addr" where
  "rep_movsl m edi esi 0 = (m, edi, esi)"
| "rep_movsl m edi esi (Suc ecx) =
     rep_movsl (write32 m edi (read32 m esi)) (edi + 4) (esi + 4) ecx"

text \<open>\<^verbatim>\<open>rep movsb\<close>; \<open>df\<close> is the direction flag.\<close>

fun rep_movsb :: "bool \<Rightarrow> mem \<Rightarrow> addr \<Rightarrow> addr \<Rightarrow> nat \<Rightarrow> mem" where
  "rep_movsb df m edi esi 0 = m"
| "rep_movsb df m edi esi (Suc ecx) =
     rep_movsb df (m(edi := m esi)) (if df then edi - 1 else edi + 1)
       (if df then esi - 1 else esi + 1) ecx"

fun memcpy_bottom :: "mem \<Rightarrow> addr \<Rightarrow> addr \<Rightarrow> nat \<Rightarrow> mem" where
  "memcpy_bottom m edi esi 0 = m"
| "memcpy_bottom m edi esi (Suc edx) = memcpy_bottom (m(edi := m esi)) (edi + 1) (esi + 1) edx"

definition memcpy_aligned :: "mem \<Rightarrow> addr \<Rightarrow> addr \<Rightarrow> nat \<Rightarrow> mem" where
  "memcpy_aligned m edi esi ecx =
     (let edx = ecx mod 4;
          (m', edi', esi') = rep_movsl m edi esi (ecx div 4)
      in memcpy_bottom m' edi' esi' edx)"

fun memcpy_top :: "mem \<Rightarrow> addr \<Rightarrow> addr \<Rightarrow> nat \<Rightarrow> mem" where
  "memcpy_top m edi esi 0 = m"
| "memcpy_top m edi esi (Suc ecx) =
     (if edi AND 3 = 0 then memcpy_aligned m edi esi (Suc ecx)
      else memcpy_top (m(edi := m esi)) (edi + 1) (esi + 1) ecx)"

definition memcpy :: "mem \<Rightarrow> addr \<Rightarrow> addr \<Rightarrow> u32 \<Rightarrow> mem" where
  "memcpy m dest src n = memcpy_top m dest src (unat n)"

text \<open>
  \<open>memmove\<close> returns the memory and the direction flag it leaves behind: the assembly sets the
  flag with \<^verbatim>\<open>std\<close> for a backward copy and never clears it again.
\<close>

definition memmove :: "mem \<Rightarrow> addr \<Rightarrow> addr \<Rightarrow> u32 \<Rightarrow> mem \<times> bool" where
  "memmove m dest src n =
     (if dest \<le> src then (rep_movsb False m dest src (unat n), False)
      else (rep_movsb True m (dest + n - 1) (src + n - 1) (unat n), True))"

text \<open>The byte-wise references: copying upwards from the first byte, downwards from the last.\<close>

fun copy_up :: "mem \<Rightarrow> addr \<Rightarrow> addr \<Rightarrow> nat \<Rightarrow> mem" where
  "copy_up m d s 0 = m"
| "copy_up m d s (Suc n) = copy_up (m(d := m s)) (d + 1) (s + 1) n"

fun copy_down :: "mem \<Rightarrow> addr \<Rightarrow> addr \<Rightarrow> nat \<Rightarrow> mem" where
  "copy_down m d s 0 = m"
| "copy_down m d s (Suc n) = copy_down (m(d + of_nat n := m (s + of_nat n))) d s n"

lemma copy_up_add: "copy_up m d s (k + n) = copy_up (copy_up m d s k) (d + of_nat k) (s + of_nat k) n"
  by (induction k arbitrary: m d s) (simp_all add: algebra_simps)

lemma memcpy_bottom_up: "memcpy_bottom m d s n = copy_up m d s n"
  by (induction n arbitrary: m d s) simp_all

lemma rep_movsb_up: "rep_movsb False m d s n = copy_up m d s n"
  by (induction n arbitrary: m d s) simp_all

lemma rep_movsb_down: "rep_movsb True m (d + of_nat n - 1) (s + of_nat n - 1) n = copy_down m d s n"
proof (induction n arbitrary: m)
  case (Suc n)
  have eq: "d + of_nat (Suc n) - 1 = d + of_nat n" "s + of_nat (Suc n) - 1 = s + of_nat n"
    by simp_all
  show ?case
    unfolding eq rep_movsb.simps copy_down.simps if_True by (rule Suc.IH)
qed simp

lemma copy_up_step:
  assumes "d = s \<or> n < unat (d - s)" "n < 4294967296"
  shows "bytes (m(d := x)) (s + 1) n = bytes m (s + 1) n"
proof (rule bytes_cong)
  fix i assume "i < n"
  have "s + 1 + of_nat i \<noteq> d"
  proof
    assume eq: "s + 1 + of_nat i = d"
    then have "d - s = of_nat (Suc i)" by auto
    then have "unat (d - s) = Suc i" using \<open>i < n\<close> assms(2) unat_of_nat_u32 [of "Suc i"] by simp
    with assms(1) \<open>i < n\<close> show False by auto
  qed
  then show "(m(d := x)) (s + 1 + of_nat i) = m (s + 1 + of_nat i)" by simp
qed

text \<open>An upward copy is right unless the destination starts inside the source.\<close>

lemma copy_up_bytes:
  "n \<le> 4294967296 \<Longrightarrow> d = s \<or> n \<le> unat (d - s) \<Longrightarrow> copy_up m d s n = write_bytes m d (bytes m s n)"
proof (induction n arbitrary: m d s)
  case (Suc n)
  have "bytes (m(d := m s)) (s + 1) n = bytes m (s + 1) n"
    using Suc.prems by (intro copy_up_step) auto
  moreover have "copy_up (m(d := m s)) (d + 1) (s + 1) n =
      write_bytes (m(d := m s)) (d + 1) (bytes (m(d := m s)) (s + 1) n)"
    using Suc.prems by (intro Suc.IH) auto
  ultimately show ?case by (simp add: bytes_Suc)
qed simp

lemma copy_down_bytes:
  "n \<le> 4294967296 \<Longrightarrow> d = s \<or> n \<le> unat (s - d) \<Longrightarrow> copy_down m d s n = write_bytes m d (bytes m s n)"
proof (induction n arbitrary: m)
  case (Suc n)
  let ?m = "m(d + of_nat n := m (s + of_nat n))"
  have same: "bytes ?m s n = bytes m s n"
  proof (rule bytes_cong)
    fix i assume i: "i < n"
    have "s + of_nat i \<noteq> d + of_nat n"
    proof
      assume eq: "s + of_nat i = d + of_nat n"
      then have "s - d = of_nat n - of_nat i" by (simp add: algebra_simps)
      also have "\<dots> = of_nat (n - i)" using i by (simp add: of_nat_diff)
      finally have "unat (s - d) = n - i" using Suc.prems(1) by simp
      with Suc.prems i show False by (cases "d = s") auto
    qed
    then show "?m (s + of_nat i) = m (s + of_nat i)" by simp
  qed
  have "copy_down ?m d s n = write_bytes ?m d (bytes m s n)"
    using Suc.prems same by (subst Suc.IH) auto
  also have "\<dots> = write_bytes m d (bytes m s (Suc n))"
    using Suc.prems(1)
    by (intro write_bytes_eqI)
      (auto simp: write_bytes_apply inside_def nth_append bytes_Suc_snoc less_Suc_eq)
  finally show ?case by simp
qed simp

text \<open>Four byte steps at once agree with the byte loop unless the destination is 1 to 3 bytes ahead.\<close>

lemma movsl_step:
  assumes "d - s \<notin> {1, 2, 3}"
  shows "write32 m d (read32 m s) = copy_up m d s 4"
proof -
  have ne: "s + 1 \<noteq> d" "s + 2 \<noteq> d" "s + 3 \<noteq> d" "s + 2 \<noteq> d + 1" "s + 3 \<noteq> d + 1" "s + 3 \<noteq> d + 2"
    using assms by (auto simp: algebra_simps)
  show ?thesis
    using ne by (simp add: write32_def bytes_of32_read32 bytes_def eval_nat_numeral add.assoc)
qed

lemma rep_movsl_up:
  "d - s \<notin> {1, 2, 3} \<Longrightarrow>
    rep_movsl m d s k = (copy_up m d s (4 * k), d + of_nat (4 * k), s + of_nat (4 * k))"
proof (induction k arbitrary: m d s)
  case (Suc k)
  have "(d + 4) - (s + 4) \<notin> {1, 2, 3}" using Suc.prems by simp
  note IH = Suc.IH [OF this]
  have "copy_up m d s (4 * Suc k) = copy_up (copy_up m d s 4) (d + 4) (s + 4) (4 * k)"
    using copy_up_add [of m d s 4 "4 * k"] by simp
  then show ?case using movsl_step [OF Suc.prems] by (simp add: IH algebra_simps)
qed simp

lemma memcpy_aligned_up:
  assumes "d - s \<notin> {1, 2, 3}"
  shows "memcpy_aligned m d s n = copy_up m d s n"
proof -
  have "n = 4 * (n div 4) + n mod 4" by simp
  then have "copy_up m d s n =
      copy_up (copy_up m d s (4 * (n div 4))) (d + of_nat (4 * (n div 4))) (s + of_nat (4 * (n div 4))) (n mod 4)"
    by (metis copy_up_add)
  then show ?thesis
    by (simp add: memcpy_aligned_def rep_movsl_up [OF assms] memcpy_bottom_up)
qed

lemma memcpy_top_up: "d - s \<notin> {1, 2, 3} \<Longrightarrow> memcpy_top m d s n = copy_up m d s n"
proof (induction n arbitrary: m d s)
  case (Suc n)
  have "(d + 1) - (s + 1) \<notin> {1, 2, 3}" using Suc.prems by simp
  with Suc show ?case by (simp add: memcpy_aligned_up del: fun_upd_apply)
qed simp

lemma apart_copy_up: "apart d n s n \<Longrightarrow> d = s \<or> n \<le> unat (d - s)"
  by (auto simp: apart_def)

text \<open>
  The destination may even be one to three bytes ahead when the copy is that short: no dword
  step happens then.  So for regions that share no byte the assembly is the plain copy.
\<close>

lemma memcpy_top_short: "n \<le> 3 \<Longrightarrow> memcpy_top m d s n = copy_up m d s n"
proof (induction n arbitrary: m d s)
  case (Suc n)
  then show ?case by (simp add: memcpy_aligned_def memcpy_bottom_up del: fun_upd_apply)
qed simp

lemma memcpy_up:
  assumes "d - s \<notin> {1, 2, 3} \<or> unat n \<le> 3"
  shows "memcpy m d s n = copy_up m d s (unat n)"
  using assms memcpy_top_up memcpy_top_short by (auto simp: memcpy_def)

lemma memcpy_bytes:
  assumes "apart d (unat n) s (unat n)"
  shows "memcpy m d s n = write_bytes m d (bytes m s (unat n))"
proof -
  have "d - s \<notin> {1, 2, 3} \<or> unat n \<le> 3" using assms by (auto simp: apart_def)
  then have "memcpy m d s n = copy_up m d s (unat n)" by (rule memcpy_up)
  also have "\<dots> = write_bytes m d (bytes m s (unat n))"
    using unat_u32_less [of n] apart_copy_up [OF assms] by (intro copy_up_bytes) auto
  finally show ?thesis .
qed

lemma memmove_bytes:
  assumes "unat s + unat n \<le> 4294967296" "unat d + unat n \<le> 4294967296"
  shows "fst (memmove m d s n) = write_bytes m d (bytes m s (unat n))"
proof (cases "d \<le> s")
  case True
  have "d = s \<or> unat n \<le> unat (d - s)"
    using True assms(1) unat_sub_if' [of d s] by (auto simp: word_le_nat_alt word_unat_eq_iff)
  then show ?thesis
    using True unat_u32_less [of n] by (simp add: memmove_def rep_movsb_up copy_up_bytes)
next
  case False
  then have "unat n \<le> unat (s - d)"
    using assms(2) unat_sub_if' [of s d] by (auto simp: word_le_nat_alt)
  then show ?thesis
    using False unat_u32_less [of n] rep_movsb_down [of m d "unat n" s]
    by (simp add: memmove_def copy_down_bytes)
qed

section \<open>Properties\<close>

text \<open>\<open>memset\<close>, with its alignment loops and its dword stores, is the byte-wise fill: for every
  buffer, every \<open>c\<close> and every length the low byte of \<open>c\<close> is stored to \<open>n\<close> consecutive addresses and
  nothing else changes.\<close>

theorem memset_fills: "memset m s c n = write_bytes m s (replicate (unat n) (ucast c))"
  by (rule memset_bytes)

text \<open>C39: \<open>memcpy\<close> between regions that share no byte copies the \<open>n\<close> source bytes to the destination
  and changes nothing else.\<close>

theorem memcpy_copies:
  assumes "apart dest (unat n) src (unat n)"
  shows "memcpy m dest src n = write_bytes m dest (bytes m src (unat n))"
  using assms by (rule memcpy_bytes)

lemma memcpy_copies_witness:
  "memcpy (\<lambda>a. ucast a) 0x1003 0x2000 9 =
     write_bytes (\<lambda>a. ucast a) 0x1003 (bytes (\<lambda>a. ucast a) 0x2000 9)"
  using memcpy_copies [of "0x1003" 9 "0x2000" "\<lambda>a. ucast a"] by (simp add: apart_def)

text \<open>\<open>memmove\<close> is right for overlapping regions too: whenever neither region wraps around the
  address space, the bytes the source held before the call are what the destination holds after it.\<close>

theorem memmove_copies:
  assumes "unat src + unat n \<le> 4294967296" "unat dest + unat n \<le> 4294967296"
  shows "fst (memmove m dest src n) = write_bytes m dest (bytes m src (unat n))"
  using assms by (rule memmove_bytes)

lemma memmove_copies_witness:
  "fst (memmove (\<lambda>a. ucast a) 0x1002 0x1000 4) 0x1003 = 1"
  using memmove_copies [of "0x1000" 4 "0x1002" "\<lambda>a. ucast a"]
  by (simp add: write_bytes_apply inside_def bytes_def upt_rec)

end
