(* ===== verification/CString.thy ===== *)
theory CString imports CMem begin

text \<open>
  The string routines of \<^verbatim>\<open>src/src/lib.c\<close>: \<open>strlen\<close>, \<open>strncmp\<close>, \<open>strcpy\<close> and
  \<open>strncpy\<close>.  \<open>strlen\<close> and \<open>strcpy\<close> run until they meet a NUL, so they are partial
  functions; \<open>cstring\<close> and \<open>field_string\<close> are the abstractions the lemmas use: the
  NUL-terminated string at an address, and the string held by a fixed-width field.
\<close>

section \<open>strlen\<close>

partial_function (option) strlen_loop :: "mem \<Rightarrow> addr \<Rightarrow> u32 \<Rightarrow> u32 option" where
  "strlen_loop m s len = (if m (s + len) \<noteq> 0 then strlen_loop m s (len + 1) else Some len)"

definition strlen :: "mem \<Rightarrow> addr \<Rightarrow> u32 option" where
  "strlen m s = strlen_loop m s 0"

text \<open>\<open>cstring m s str\<close>: at \<open>s\<close> there is the NUL-terminated string \<open>str\<close>.\<close>

definition cstring :: "mem \<Rightarrow> addr \<Rightarrow> u8 list \<Rightarrow> bool" where
  "cstring m s str \<longleftrightarrow> bytes m s (length str) = str \<and> 0 \<notin> set str \<and> m (s + of_nat (length str)) = 0"

lemma cstring_nth: "cstring m s str \<Longrightarrow> i < length str \<Longrightarrow> m (s + of_nat i) = str ! i"
  by (metis cstring_def nth_bytes)

lemma cstring_nz: "cstring m s str \<Longrightarrow> i < length str \<Longrightarrow> m (s + of_nat i) \<noteq> 0"
  by (metis cstring_def nth_bytes nth_mem)

lemma cstring_write:
  assumes "0 \<notin> set str" "length str < 4294967296"
  shows "cstring (write_bytes m a (str @ [0])) a str"
proof -
  let ?m = "write_bytes m a (str @ [0])"
  have "?m (a + of_nat i) = (str @ [0]) ! i" if "i \<le> length str" for i
    using that assms(2) by (intro write_bytes_nth) auto
  then have "bytes ?m a (length str) = str" "?m (a + of_nat (length str)) = 0"
    by (auto intro!: bytes_eqI simp: nth_append)
  then show ?thesis using assms(1) by (simp add: cstring_def)
qed

lemma strlen_loop_steps:
  "(\<And>i. i < k \<Longrightarrow> m (s + (len + of_nat i)) \<noteq> 0) \<Longrightarrow> m (s + (len + of_nat k)) = 0 \<Longrightarrow>
    strlen_loop m s len = Some (len + of_nat k)"
proof (induction k arbitrary: len)
  case 0
  then show ?case by (simp add: strlen_loop.simps)
next
  case (Suc k)
  have "m (s + len) \<noteq> 0" using Suc.prems(1) [of 0] by simp
  moreover have "strlen_loop m s (len + 1) = Some (len + 1 + of_nat k)"
  proof (rule Suc.IH)
    show "m (s + (len + 1 + of_nat i)) \<noteq> 0" if "i < k" for i
      using Suc.prems(1) [of "Suc i"] that by (simp add: algebra_simps)
    show "m (s + (len + 1 + of_nat k)) = 0" using Suc.prems(2) by (simp add: algebra_simps)
  qed
  ultimately show ?case by (subst strlen_loop.simps) (simp add: algebra_simps)
qed

lemma strlen_loop_result: "strlen_loop m s len = Some r \<Longrightarrow> m (s + r) = 0"
  by (rule strlen_loop.raw_induct [where P = "\<lambda>m s len r. m (s + r) = 0"]) (auto split: if_splits)

lemma strlen_cstring: "cstring m s str \<Longrightarrow> strlen m s = Some (of_nat (length str))"
  using strlen_loop_steps [of "length str" m s 0] by (simp add: strlen_def cstring_def cstring_nz)

lemma cstring_exists:
  assumes "m x = 0"
  shows "\<exists>str. cstring m s str \<and> length str < 4294967296"
proof -
  define k where "k = (LEAST i. m (s + of_nat i) = 0)"
  have x: "m (s + of_nat (unat (x - s))) = 0" using assms by simp
  then have k0: "m (s + of_nat k) = 0" unfolding k_def by (rule LeastI)
  have kle: "k \<le> unat (x - s)" unfolding k_def using x by (rule Least_le)
  have "m (s + of_nat i) \<noteq> 0" if "i < k" for i
    using that not_less_Least unfolding k_def by blast
  then have "cstring m s (bytes m s k)" using k0 by (auto simp: cstring_def in_set_conv_nth)
  moreover have "k < 4294967296" using kle unat_u32_less [of "x - s"] by linarith
  ultimately show ?thesis by (metis length_bytes)
qed

lemma strlen_Some_iff:
  "strlen m s = Some n \<longleftrightarrow> cstring m s (bytes m s (unat n))"
proof
  assume r: "strlen m s = Some n"
  then have "m (s + n) = 0" unfolding strlen_def by (rule strlen_loop_result)
  then obtain str where str: "cstring m s str" "length str < 4294967296"
    using cstring_exists by blast
  then have "n = of_nat (length str)" using r strlen_cstring by fastforce
  then have "unat n = length str" using str(2) by simp
  then show "cstring m s (bytes m s (unat n))" using str(1) by (simp add: cstring_def)
next
  assume "cstring m s (bytes m s (unat n))"
  from strlen_cstring [OF this] show "strlen m s = Some n" by simp
qed

lemma strlen_None_iff: "strlen m s = None \<longleftrightarrow> (\<forall>x. m x \<noteq> 0)"
proof
  assume "strlen m s = None"
  then show "\<forall>x. m x \<noteq> 0" by (metis cstring_exists strlen_cstring option.distinct(1))
next
  assume nz: "\<forall>x. m x \<noteq> 0"
  show "strlen m s = None"
  proof (rule ccontr)
    assume "strlen m s \<noteq> None"
    then obtain n where "strlen_loop m s 0 = Some n" by (auto simp: strlen_def)
    then show False using strlen_loop_result nz by blast
  qed
qed

section \<open>strncmp, strcpy, strncpy\<close>

text \<open>\<open>int8_t\<close> is a signed \<open>char\<close>: the difference of the first unequal pair is signed.\<close>

function strncmp_loop :: "mem \<Rightarrow> addr \<Rightarrow> addr \<Rightarrow> nat \<Rightarrow> nat \<Rightarrow> int" where
  "strncmp_loop m s1 s2 n i =
     (if i < n then
        (if m (s1 + of_nat i) \<noteq> m (s2 + of_nat i) \<or> m (s1 + of_nat i) = 0
         then sint (m (s1 + of_nat i)) - sint (m (s2 + of_nat i))
         else strncmp_loop m s1 s2 n (Suc i))
      else 0)"
  by pat_completeness auto
termination by (relation "measure (\<lambda>(m, s1, s2, n, i). n - i)") auto

declare strncmp_loop.simps [simp del]

definition strncmp :: "mem \<Rightarrow> addr \<Rightarrow> addr \<Rightarrow> u32 \<Rightarrow> int" where
  "strncmp m s1 s2 n = strncmp_loop m s1 s2 (unat n) 0"

text \<open>The string in an \<open>n\<close>-byte field: up to the first NUL, or all \<open>n\<close> bytes.\<close>

definition field_string :: "mem \<Rightarrow> addr \<Rightarrow> nat \<Rightarrow> u8 list" where
  "field_string m s n = takeWhile (\<lambda>c. c \<noteq> 0) (bytes m s n)"

lemma field_string_Suc:
  "field_string m s (Suc n) = (if m s = 0 then [] else m s # field_string m (s + 1) n)"
  by (simp add: field_string_def bytes_Suc)

lemma strncmp_loop_zero:
  "strncmp_loop m a b n i = 0 \<longleftrightarrow>
    field_string m (a + of_nat i) (n - i) = field_string m (b + of_nat i) (n - i)"
proof (induction "n - i" arbitrary: i)
  case 0
  then show ?case by (simp add: strncmp_loop.simps field_string_def)
next
  case (Suc k)
  then have i: "i < n" and k: "k = n - Suc i" and d: "n - i = Suc (n - Suc i)" by auto
  have eq: "sint (m (a + of_nat i)) - sint (m (b + of_nat i)) = 0 \<longleftrightarrow>
      m (a + of_nat i) = m (b + of_nat i)"
    by (simp flip: word_eq_iff_signed)
  show ?case
    using Suc.hyps(1) [OF k] i eq unfolding d
    by (subst strncmp_loop.simps) (auto simp: field_string_Suc algebra_simps)
qed

text \<open>Two strings compare equal on \<open>n\<close> bytes iff the fields hold the same string.\<close>

lemma strncmp_zero_iff: "strncmp m a b n = 0 \<longleftrightarrow> field_string m a (unat n) = field_string m b (unat n)"
  using strncmp_loop_zero [of m a b "unat n" 0] by (simp add: strncmp_def)

lemma strncmp_loop_end: "n \<le> i \<Longrightarrow> strncmp_loop m a b n i = 0"
  by (subst strncmp_loop.simps) simp

lemma strncmp_loop_step:
  "i < n \<Longrightarrow> strncmp_loop m a b n i =
    (if m (a + of_nat i) \<noteq> m (b + of_nat i) \<or> m (a + of_nat i) = 0
     then sint (m (a + of_nat i)) - sint (m (b + of_nat i))
     else strncmp_loop m a b n (Suc i))"
  by (subst strncmp_loop.simps) (rule if_P)

lemma strncmp_loop_swap: "strncmp_loop m b a n i = - strncmp_loop m a b n i"
proof (induction "n - i" arbitrary: i)
  case 0
  then have "n \<le> i" by simp
  then show ?case using strncmp_loop_end by (metis neg_equal_0_iff_equal)
next
  case (Suc k)
  then have i: "i < n" and "k = n - Suc i" by simp_all
  from Suc.hyps(1) [OF this(2)]
  have IH: "strncmp_loop m b a n (Suc i) = - strncmp_loop m a b n (Suc i)" .
  show ?case
  proof (cases "m (a + of_nat i) = m (b + of_nat i)")
    case True
    show ?thesis unfolding strncmp_loop_step [OF i] True using IH by presburger
  next
    case False
    then show ?thesis unfolding strncmp_loop_step [OF i] by presburger
  qed
qed

lemma strncmp_swap: "strncmp m b a n = - strncmp m a b n"
  unfolding strncmp_def by (rule strncmp_loop_swap)

partial_function (option) strcpy_loop :: "mem \<Rightarrow> addr \<Rightarrow> addr \<Rightarrow> u32 \<Rightarrow> mem option" where
  "strcpy_loop m dest src i =
     (if m (src + i) \<noteq> 0 then strcpy_loop (m(dest + i := m (src + i))) dest src (i + 1)
      else Some (m(dest + i := 0)))"

definition strcpy :: "mem \<Rightarrow> addr \<Rightarrow> addr \<Rightarrow> mem option" where
  "strcpy m dest src = strcpy_loop m dest src 0"

lemma strcpy_loop_cstring:
  "cstring m (src + i) str \<Longrightarrow> apart (dest + i) (Suc (length str)) (src + i) (Suc (length str)) \<Longrightarrow>
    length str < 4294967295 \<Longrightarrow>
    strcpy_loop m dest src i = Some (write_bytes m (dest + i) (str @ [0]))"
proof (induction str arbitrary: m i)
  case Nil
  then show ?case by (subst strcpy_loop.simps) (simp add: cstring_def)
next
  case (Cons c str)
  let ?m = "m(dest + i := c)"
  have c: "m (src + i) = c" "c \<noteq> 0"
    using Cons.prems(1) by (auto simp: cstring_def bytes_Suc)
  have same: "?m (src + i + of_nat k) = m (src + i + of_nat k)" if "k < Suc (Suc (length str))" for k
  proof -
    have "inside (src + i) (Suc (Suc (length str))) (src + i + of_nat k)"
      using that Cons.prems(3) by (intro inside_offset) auto
    then have "\<not> inside (dest + i) (Suc (Suc (length str))) (src + i + of_nat k)"
      using apart_not_inside [OF apart_sym [OF Cons.prems(2)]] by simp
    then show ?thesis by (auto simp: inside_def)
  qed
  have str: "cstring ?m (src + (i + 1)) str"
  proof -
    have "bytes ?m (src + (i + 1)) (length str) = bytes m (src + (i + 1)) (length str)"
    proof (rule bytes_cong)
      fix k assume "k < length str"
      then show "?m (src + (i + 1) + of_nat k) = m (src + (i + 1) + of_nat k)"
        using same [of "Suc k"] by (simp add: algebra_simps del: fun_upd_apply)
    qed
    moreover have "?m (src + (i + 1) + of_nat (length str)) = 0"
      using same [of "Suc (length str)"] Cons.prems(1)
      by (simp add: cstring_def algebra_simps del: fun_upd_apply)
    ultimately show ?thesis
      using Cons.prems(1) by (simp add: cstring_def bytes_Suc algebra_simps del: fun_upd_apply)
  qed
  have "apart (dest + i + of_nat 1) (Suc (length str)) (src + i + of_nat 1) (Suc (length str))"
    using Cons.prems(2,3) by (intro apart_sub [of _ "Suc (Suc (length str))"] apart_sub_right [of _ _ _ "Suc (Suc (length str))"]) auto
  then have "apart (dest + (i + 1)) (Suc (length str)) (src + (i + 1)) (Suc (length str))"
    by (simp add: algebra_simps)
  then have "strcpy_loop ?m dest src (i + 1) = Some (write_bytes ?m (dest + (i + 1)) (str @ [0]))"
    using str Cons.prems(3) by (intro Cons.IH) (auto simp del: fun_upd_apply)
  then show ?case
    using c by (subst strcpy_loop.simps) (simp add: algebra_simps)
qed

lemma strcpy_cstring:
  "cstring m src str \<Longrightarrow> apart dest (Suc (length str)) src (Suc (length str)) \<Longrightarrow>
    length str < 4294967295 \<Longrightarrow> strcpy m dest src = Some (write_bytes m dest (str @ [0]))"
  using strcpy_loop_cstring [of m src 0 str dest] by (simp add: strcpy_def)

function strncpy_fill :: "mem \<Rightarrow> addr \<Rightarrow> nat \<Rightarrow> nat \<Rightarrow> mem" where
  "strncpy_fill m dest n i =
     (if i < n then strncpy_fill (m(dest + of_nat i := 0)) dest n (Suc i) else m)"
  by pat_completeness auto
termination by (relation "measure (\<lambda>(m, dest, n, i). n - i)") auto

function strncpy_loop :: "mem \<Rightarrow> addr \<Rightarrow> addr \<Rightarrow> nat \<Rightarrow> nat \<Rightarrow> mem" where
  "strncpy_loop m dest src n i =
     (if m (src + of_nat i) \<noteq> 0 \<and> i < n
      then strncpy_loop (m(dest + of_nat i := m (src + of_nat i))) dest src n (Suc i)
      else strncpy_fill m dest n i)"
  by pat_completeness auto
termination by (relation "measure (\<lambda>(m, dest, src, n, i). n - i)") auto

declare strncpy_fill.simps [simp del] strncpy_loop.simps [simp del]

definition strncpy :: "mem \<Rightarrow> addr \<Rightarrow> addr \<Rightarrow> u32 \<Rightarrow> mem" where
  "strncpy m dest src n = strncpy_loop m dest src (unat n) 0"

lemma strncpy_fill_bytes:
  "strncpy_fill m dest n i = write_bytes m (dest + of_nat i) (replicate (n - i) 0)"
proof (induction "n - i" arbitrary: m i)
  case 0
  then show ?case by (subst strncpy_fill.simps) simp
next
  case (Suc k)
  then have "k = n - Suc i" and d: "n - i = Suc (n - Suc i)" and i: "i < n" by auto
  note IH = Suc.hyps(1) [OF this(1)]
  show ?case
    unfolding d using i by (subst strncpy_fill.simps) (simp add: IH algebra_simps)
qed

lemma strncpy_loop_bytes:
  assumes "apart dest n src n" "n < 4294967296"
  shows "i \<le> n \<Longrightarrow> bytes m (src + of_nat i) (n - i) = cs \<Longrightarrow>
    strncpy_loop m dest src n i =
      write_bytes m (dest + of_nat i)
        (takeWhile (\<lambda>c. c \<noteq> 0) cs @ replicate (n - i - length (takeWhile (\<lambda>c. c \<noteq> 0) cs)) 0)"
proof (induction "n - i" arbitrary: m i cs)
  case 0
  then show ?case by (subst strncpy_loop.simps) (auto simp: strncpy_fill_bytes)
next
  case (Suc k)
  then have k: "k = n - Suc i" and d: "n - i = Suc (n - Suc i)" and i: "i < n" by auto
  let ?x = "m (src + of_nat i)"
  let ?m = "m(dest + of_nat i := ?x)"
  let ?rest = "bytes m (src + of_nat (Suc i)) (n - Suc i)"
  have cs: "cs = ?x # ?rest"
    using Suc.prems(2) unfolding d by (simp add: bytes_Suc algebra_simps)
  have same: "bytes ?m (src + of_nat (Suc i)) (n - Suc i) = ?rest"
  proof (rule bytes_cong)
    fix j assume j: "j < n - Suc i"
    have "inside src n (src + of_nat (Suc i + j))"
      using j assms(2) by (intro inside_offset) auto
    moreover have "inside dest n (dest + of_nat i)" using i assms(2) by (intro inside_offset) auto
    ultimately have "dest + of_nat i \<noteq> src + of_nat (Suc i + j)"
      using apart_not_inside [OF assms(1)] by metis
    then show "?m (src + of_nat (Suc i) + of_nat j) = m (src + of_nat (Suc i) + of_nat j)"
      by (auto simp: algebra_simps)
  qed
  have len: "n - Suc i - length (takeWhile (\<lambda>c. c \<noteq> 0) ?rest) =
      n - i - Suc (length (takeWhile (\<lambda>c. c \<noteq> 0) ?rest))" using d by simp
  show ?case
  proof (cases "?x = 0")
    case True
    then show ?thesis using i cs by (subst strncpy_loop.simps) (simp add: strncpy_fill_bytes)
  next
    case False
    have "strncpy_loop ?m dest src n (Suc i) = write_bytes ?m (dest + of_nat (Suc i))
        (takeWhile (\<lambda>c. c \<noteq> 0) ?rest @ replicate (n - Suc i - length (takeWhile (\<lambda>c. c \<noteq> 0) ?rest)) 0)"
      using i same by (intro Suc.hyps(1) [OF k]) auto
    then show ?thesis
      using False i cs len
      by (subst strncpy_loop.simps) (simp add: algebra_simps del: fun_upd_apply)
  qed
qed

lemma strncpy_bytes:
  assumes "apart dest (unat n) src (unat n)"
  shows "strncpy m dest src n =
    write_bytes m dest (field_string m src (unat n) @
      replicate (unat n - length (field_string m src (unat n))) 0)"
  using strncpy_loop_bytes [OF assms unat_u32_less, of 0 m] by (simp add: strncpy_def field_string_def)

section \<open>Properties\<close>

text \<open>C40: \<open>strlen\<close> returns \<open>n\<close> exactly when a string of \<open>n\<close> non-NUL bytes and a NUL lie at \<open>s\<close>, and it
  fails to return exactly when memory holds no NUL at all.\<close>

theorem strlen_exact:
  "(strlen m s = Some n \<longleftrightarrow> cstring m s (bytes m s (unat n))) \<and>
   (strlen m s = None \<longleftrightarrow> (\<forall>x. m x \<noteq> 0))"
  using strlen_Some_iff strlen_None_iff by blast

text \<open>\<open>strncmp\<close> is a comparison of the strings in two \<open>n\<close>-byte fields: its result is 0 exactly when
  they are equal, and exchanging the arguments negates it.\<close>

theorem strncmp_compares:
  "(strncmp m a b n = 0 \<longleftrightarrow> field_string m a (unat n) = field_string m b (unat n)) \<and>
   strncmp m b a n = - strncmp m a b n"
  using strncmp_zero_iff strncmp_swap by blast

end
