(* ===== verification/FileSys.thy ===== *)
theory FileSys imports Process CString CMem begin

text \<open>
  The read-only file system of \<^verbatim>\<open>src/src/file_sys.c\<close>.  The image lies in memory as the boot
  loader left it and every field is read from its bytes: the counts at the start of the boot
  block, directory entry \<open>i\<close> at offset \<open>64 + 64 * i\<close>, inode \<open>k\<close> in block \<open>1 + k\<close>, the data blocks
  behind the inodes.  The abstract view is \<open>file_bytes\<close>: the contents of an inode as a list of
  bytes, which \<open>read_data\<close> cuts pieces from.
\<close>

section \<open>Layout of the image\<close>

record fsys = proc +
  g_boot_block :: addr
  g_inodes :: addr
  g_data_blocks :: addr

record dir_entry =
  name :: "u8 list"
  file_type :: u32
  inode_num :: u32
  reserved :: "u8 list"

definition num_dir_entries :: "mem \<Rightarrow> addr \<Rightarrow> u32" where
  "num_dir_entries m bb = read32 m bb"

definition num_inodes :: "mem \<Rightarrow> addr \<Rightarrow> u32" where
  "num_inodes m bb = read32 m (bb + 4)"

definition num_data_blocks :: "mem \<Rightarrow> addr \<Rightarrow> u32" where
  "num_data_blocks m bb = read32 m (bb + 8)"

definition dentry_addr :: "addr \<Rightarrow> u32 \<Rightarrow> addr" where
  "dentry_addr bb i = bb + 64 + 64 * i"

definition inode_addr :: "addr \<Rightarrow> u32 \<Rightarrow> addr" where
  "inode_addr ino k = ino + 4096 * k"

definition inode_size :: "mem \<Rightarrow> addr \<Rightarrow> u32 \<Rightarrow> u32" where
  "inode_size m ino k = read32 m (inode_addr ino k)"

definition inode_block :: "mem \<Rightarrow> addr \<Rightarrow> u32 \<Rightarrow> u32 \<Rightarrow> u32" where
  "inode_block m ino k j = read32 m (inode_addr ino k + 4 + 4 * j)"

section \<open>The code\<close>

definition fileSystem_init :: "addr \<Rightarrow> 'a fsys_scheme \<Rightarrow> 'a fsys_scheme" where
  "fileSystem_init fs_start st =
     (let st = st\<lparr>g_boot_block := fs_start\<rparr>;
          st = st\<lparr>g_inodes := fs_start + 4096\<rparr>
      in st\<lparr>g_data_blocks := fs_start + (1 + num_inodes (vmem st) (g_boot_block st)) * 4096\<rparr>)"

definition read_dentry_by_index :: "mem \<Rightarrow> addr \<Rightarrow> u32 \<Rightarrow> dir_entry option" where
  "read_dentry_by_index m bb index =
     (if num_dir_entries m bb \<le> index then None
      else Some \<lparr>name = bytes m (dentry_addr bb index) 32,
                 file_type = read32 m (dentry_addr bb index + 32),
                 inode_num = read32 m (dentry_addr bb index + 36),
                 reserved = bytes m (dentry_addr bb index + 40) 24\<rparr>)"

text \<open>
  The loop over the entries.  The result is the index and the entry copied out, or None; the
  output structure is not written when no entry matches.
\<close>

function dentry_loop :: "mem \<Rightarrow> addr \<Rightarrow> addr \<Rightarrow> u32 \<Rightarrow> (u32 \<times> dir_entry) option" where
  "dentry_loop m bb fname i =
     (if i < num_dir_entries m bb then
        (if strncmp m fname (dentry_addr bb i) 32 = 0
         then map_option (\<lambda>d. (i, d)) (read_dentry_by_index m bb i)
         else dentry_loop m bb fname (i + 1))
      else None)"
  by pat_completeness auto
termination
proof (relation "measure (\<lambda>(m, bb, fname, i). unat (num_dir_entries m bb) - unat i)")
  fix m :: mem and bb fname i
  assume "i < num_dir_entries m bb"
  then have lt: "unat i < unat (num_dir_entries m bb)" by (simp add: word_less_nat_alt)
  then have "unat (i + 1) = unat i + 1"
    using unat_u32_less [of "num_dir_entries m bb"] by (simp add: unat_word_ariths)
  then show "((m, bb, fname, i + 1), (m, bb, fname, i))
      \<in> measure (\<lambda>(m, bb, fname, i). unat (num_dir_entries m bb) - unat i)"
    using lt by simp
qed simp

declare dentry_loop.simps [simp del]

definition read_dentry_by_name :: "mem \<Rightarrow> addr \<Rightarrow> addr \<Rightarrow> (u32 \<times> dir_entry) option res" where
  "read_dentry_by_name m bb fname =
     (if fname = 0 then Inr None
      else andthen (of_loop (strlen m fname)) (\<lambda>n.
        if n < 1 \<or> 32 < n then Inr None else Inr (dentry_loop m bb fname 0)))"

text \<open>
  The copy loop of \<open>read_data\<close>: \<open>i\<close> counts file positions, \<open>bytes_read\<close> the bytes already copied.
  Each byte goes through \<open>memcpy\<close> with length 1.  The block table is indexed without a bound.
\<close>

function read_data_loop ::
  "addr \<times> addr \<times> addr \<Rightarrow> u32 \<Rightarrow> addr \<Rightarrow> u32 \<Rightarrow> u32 \<Rightarrow> u32 \<Rightarrow> mem \<Rightarrow> mem \<times> u32" where
  "read_data_loop fs k buf fin i bytes_read m =
     (case fs of (bb, ino, db) \<Rightarrow>
       if i < fin then
         (let block_index = i div 4096;
              offset_from_block = i mod 4096
          in if num_data_blocks m bb \<le> inode_block m ino k block_index then (m, bytes_read)
             else read_data_loop fs k buf fin (i + 1) (bytes_read + 1)
               (memcpy m (buf + bytes_read)
                 (db + 4096 * inode_block m ino k block_index + offset_from_block) 1))
       else (m, bytes_read))"
  by pat_completeness auto
termination
proof (relation "measure (\<lambda>(fs, k, buf, fin, i, bytes_read, m). unat fin - unat i)", goal_cases)
  case (2 fs k buf fin i bytes_read m bb y ino db block_index offset_from_block)
  then have lt: "unat i < unat fin" by (simp add: word_less_nat_alt)
  then have "unat (i + 1) = unat i + 1"
    using unat_u32_less [of fin] by (simp add: unat_word_ariths)
  then show ?case using lt by simp
qed simp

declare read_data_loop.simps [simp del]

definition fs_ptrs :: "'a fsys_scheme \<Rightarrow> addr \<times> addr \<times> addr" where
  "fs_ptrs st = (g_boot_block st, g_inodes st, g_data_blocks st)"

text \<open>\<open>read_data\<close> on memory, and the value it returns as a C \<open>int\<close>.\<close>

definition read_data ::
  "addr \<times> addr \<times> addr \<Rightarrow> u32 \<Rightarrow> u32 \<Rightarrow> addr \<Rightarrow> u32 \<Rightarrow> mem \<Rightarrow> mem \<times> int" where
  "read_data fs k offset buf len m =
     (case fs of (bb, ino, db) \<Rightarrow>
       if num_inodes m bb \<le> k then (m, - 1)
       else
         (let len = (if inode_size m ino k - offset < len then inode_size m ino k - offset else len);
              (m', bytes_read) = read_data_loop fs k buf (offset + len) offset 0 m
          in (m', sint bytes_read)))"

section \<open>Well-formed images and file contents\<close>

definition fs_length :: "mem \<Rightarrow> addr \<Rightarrow> nat" where
  "fs_length m bb = 4096 * (1 + unat (num_inodes m bb) + unat (num_data_blocks m bb))"

definition fs_ok :: "mem \<Rightarrow> addr \<times> addr \<times> addr \<Rightarrow> bool" where
  "fs_ok m fs = (case fs of (bb, ino, db) \<Rightarrow>
     ino = bb + 4096 \<and> db = bb + (1 + num_inodes m bb) * 4096 \<and>
     fs_length m bb \<le> 4294967296 \<and> num_dir_entries m bb \<le> 63)"

text \<open>An inode whose size fits its block table and whose blocks are data blocks of the image.\<close>

definition inode_ok :: "mem \<Rightarrow> addr \<times> addr \<times> addr \<Rightarrow> u32 \<Rightarrow> bool" where
  "inode_ok m fs k = (case fs of (bb, ino, db) \<Rightarrow>
     k < num_inodes m bb \<and> unat (inode_size m ino k) \<le> 1023 * 4096 \<and>
     list_all (\<lambda>j. inode_block m ino k (of_nat j) < num_data_blocks m bb)
       [0..<(unat (inode_size m ino k) + 4095) div 4096])"

definition file_byte_addr :: "mem \<Rightarrow> addr \<times> addr \<times> addr \<Rightarrow> u32 \<Rightarrow> nat \<Rightarrow> addr" where
  "file_byte_addr m fs k p = (case fs of (bb, ino, db) \<Rightarrow>
     db + 4096 * inode_block m ino k (of_nat (p div 4096)) + of_nat (p mod 4096))"

definition file_size :: "mem \<Rightarrow> addr \<times> addr \<times> addr \<Rightarrow> u32 \<Rightarrow> nat" where
  "file_size m fs k = (case fs of (bb, ino, db) \<Rightarrow> unat (inode_size m ino k))"

definition file_bytes :: "mem \<Rightarrow> addr \<times> addr \<times> addr \<Rightarrow> u32 \<Rightarrow> u8 list" where
  "file_bytes m fs k = map (\<lambda>p. m (file_byte_addr m fs k p)) [0..<file_size m fs k]"

definition same_image :: "addr \<Rightarrow> nat \<Rightarrow> mem \<Rightarrow> mem \<Rightarrow> bool" where
  "same_image bb n m m' \<longleftrightarrow> bytes m' bb n = bytes m bb n"

lemma length_file_bytes [simp]: "length (file_bytes m fs k) = file_size m fs k"
  by (simp add: file_bytes_def)

lemma same_image_nth: "same_image bb n m m' \<Longrightarrow> p < n \<Longrightarrow> m' (bb + of_nat p) = m (bb + of_nat p)"
  by (metis same_image_def nth_bytes)

lemma same_image_read32:
  assumes "same_image bb n m m'" "p + 4 \<le> n" "a = bb + of_nat p"
  shows "read32 m' a = read32 m a"
proof (rule read32_cong, rule bytes_cong)
  fix i :: nat assume "i < 4"
  then show "m' (a + of_nat i) = m (a + of_nat i)"
    using same_image_nth [OF assms(1), of "p + i"] assms(2,3) by (simp add: algebra_simps)
qed

lemma write_same_image:
  "apart a (length bs) bb n \<Longrightarrow> length bs \<le> 4294967296 \<Longrightarrow> n \<le> 4294967296 \<Longrightarrow>
    same_image bb n m (write_bytes m a bs)"
  unfolding same_image_def by (rule bytes_write_apart)

lemma fs_length_ge: "4096 \<le> fs_length m bb"
  by (simp add: fs_length_def)

lemma same_image_counts:
  assumes "same_image bb (fs_length m bb) m m'"
  shows "num_dir_entries m' bb = num_dir_entries m bb" "num_inodes m' bb = num_inodes m bb"
    "num_data_blocks m' bb = num_data_blocks m bb"
proof -
  note s = same_image_read32 [OF assms]
  have "4096 \<le> fs_length m bb" by (rule fs_length_ge)
  then show "num_dir_entries m' bb = num_dir_entries m bb" "num_inodes m' bb = num_inodes m bb"
    "num_data_blocks m' bb = num_data_blocks m bb"
    using s [of 0 bb] s [of 4 "bb + 4"] s [of 8 "bb + 8"]
    by (simp_all add: num_dir_entries_def num_inodes_def num_data_blocks_def)
qed

text \<open>Offsets into the image of an inode's word and of a data byte.\<close>

lemma inode_word_offset:
  assumes "fs_ok m (bb, ino, db)" "k < num_inodes m bb" "w + 4 \<le> 4096"
  obtains p where "p + 4 \<le> fs_length m bb" "inode_addr ino k + of_nat w = bb + of_nat p"
proof (rule that)
  have "unat k < unat (num_inodes m bb)" using assms(2) by (simp add: word_less_nat_alt)
  then show "4096 + 4096 * unat k + w + 4 \<le> fs_length m bb"
    using assms(3) by (simp add: fs_length_def)
  show "inode_addr ino k + of_nat w = bb + of_nat (4096 + 4096 * unat k + w)"
    using assms(1) by (simp add: inode_addr_def fs_ok_def)
qed

lemma data_byte_offset:
  assumes "fs_ok m (bb, ino, db)" "b < num_data_blocks m bb" "d < 4096"
  obtains p where "p < fs_length m bb" "db + 4096 * b + of_nat d = bb + of_nat p"
proof (rule that)
  have "unat b < unat (num_data_blocks m bb)" using assms(2) by (simp add: word_less_nat_alt)
  then show "4096 * (1 + unat (num_inodes m bb)) + 4096 * unat b + d < fs_length m bb"
    using assms(3) by (simp add: fs_length_def)
  show "db + 4096 * b + of_nat d =
      bb + of_nat (4096 * (1 + unat (num_inodes m bb)) + 4096 * unat b + d)"
    using assms(1) by (simp add: fs_ok_def algebra_simps)
qed

lemma inode_ok_block:
  assumes "inode_ok m (bb, ino, db) k" "p < file_size m (bb, ino, db) k"
  shows "inode_block m ino k (of_nat (p div 4096)) < num_data_blocks m bb" "p div 4096 < 1023"
proof -
  let ?s = "unat (inode_size m ino k)"
  have p: "p < ?s" using assms(2) by (simp add: file_size_def)
  then have "p div 4096 < (?s + 4095) div 4096" by linarith
  then have "p div 4096 \<in> set [0..<(?s + 4095) div 4096]" by simp
  then show "inode_block m ino k (of_nat (p div 4096)) < num_data_blocks m bb"
    using assms(1) unfolding inode_ok_def list_all_iff by simp
  have "?s \<le> 1023 * 4096" using assms(1) by (simp add: inode_ok_def)
  then show "p div 4096 < 1023" using p by linarith
qed

lemma same_image_inode:
  assumes "fs_ok m (bb, ino, db)" "same_image bb (fs_length m bb) m m'" "k < num_inodes m bb"
  shows "inode_size m' ino k = inode_size m ino k"
    and "j < 1023 \<Longrightarrow> inode_block m' ino k (of_nat j) = inode_block m ino k (of_nat j)"
proof -
  note rd = same_image_read32 [OF assms(2)]
  obtain p where "p + 4 \<le> fs_length m bb" "inode_addr ino k + of_nat 0 = bb + of_nat p"
    using inode_word_offset [OF assms(1,3), of 0] by auto
  then show "inode_size m' ino k = inode_size m ino k"
    using rd [of p "inode_addr ino k"] by (simp add: inode_size_def)
  assume "j < 1023"
  then obtain q where "q + 4 \<le> fs_length m bb" "inode_addr ino k + of_nat (4 + 4 * j) = bb + of_nat q"
    using inode_word_offset [OF assms(1,3), of "4 + 4 * j"] by auto
  then show "inode_block m' ino k (of_nat j) = inode_block m ino k (of_nat j)"
    using rd [of q "inode_addr ino k + 4 + 4 * of_nat j"] by (simp add: inode_block_def algebra_simps)
qed

text \<open>A memory with the same image has the same well-formed files.\<close>

lemma same_image_file:
  assumes "fs_ok m fs" "same_image (fst fs) (fs_length m (fst fs)) m m'" "inode_ok m fs k"
  shows "fs_length m' (fst fs) = fs_length m (fst fs)" "fs_ok m' fs" "inode_ok m' fs k"
    "file_size m' fs k = file_size m fs k" "file_bytes m' fs k = file_bytes m fs k"
proof -
  obtain bb ino db where fs: "fs = (bb, ino, db)" by (cases fs)
  have s: "same_image bb (fs_length m bb) m m'" using assms(2) fs by simp
  note ok = assms(1) [unfolded fs] and iok = assms(3) [unfolded fs]
  have k: "k < num_inodes m bb" using iok by (simp add: inode_ok_def)
  note c = same_image_counts [OF s]
  note sz = same_image_inode(1) [OF ok s k] and blk = same_image_inode(2) [OF ok s k]
  show "fs_length m' (fst fs) = fs_length m (fst fs)" using c by (simp add: fs fs_length_def)
  then show "fs_ok m' fs" using ok c by (simp add: fs fs_ok_def)
  show fsz: "file_size m' fs k = file_size m fs k" using sz by (simp add: fs file_size_def)
  have "(unat (inode_size m ino k) + 4095) div 4096 \<le> 1023"
  proof -
    have "unat (inode_size m ino k) \<le> 1023 * 4096" using iok by (simp add: inode_ok_def)
    then show ?thesis by linarith
  qed
  then have "list_all (\<lambda>j. inode_block m' ino k (of_nat j) < num_data_blocks m bb)
      [0..<(unat (inode_size m ino k) + 4095) div 4096]"
    using iok blk by (simp add: inode_ok_def list_all_iff)
  then show "inode_ok m' fs k" using iok c sz by (simp add: fs inode_ok_def)
  have "m' (file_byte_addr m' fs k p) = m (file_byte_addr m fs k p)" if "p < file_size m fs k" for p
  proof -
    note b = inode_ok_block [OF iok that [unfolded fs]]
    obtain q where q: "q < fs_length m bb"
        "db + 4096 * inode_block m ino k (of_nat (p div 4096)) + of_nat (p mod 4096) = bb + of_nat q"
      using data_byte_offset [OF ok b(1), of "p mod 4096"] by auto
    have "file_byte_addr m' fs k p = file_byte_addr m fs k p"
      using blk [OF b(2)] by (simp add: fs file_byte_addr_def)
    then show ?thesis
      using same_image_nth [OF s q(1)] q(2) by (simp add: fs file_byte_addr_def)
  qed
  then show "file_bytes m' fs k = file_bytes m fs k" by (simp add: file_bytes_def fsz)
qed

section \<open>Reading files\<close>

lemma memcpy_byte: "memcpy m d s 1 = m(d := m s)"
  by (subst memcpy_up) simp_all

lemma of_nat_div_u32:
  assumes "i < 4294967296"
  shows "(of_nat i :: u32) div 4096 = of_nat (i div 4096)" "(of_nat i :: u32) mod 4096 = of_nat (i mod 4096)"
proof -
  have "i div 4096 \<le> i" "i mod 4096 \<le> i" by (rule div_le_dividend, rule mod_less_eq_dividend)
  then have "i div 4096 < 4294967296" "i mod 4096 < 4294967296" using assms by linarith+
  then show "(of_nat i :: u32) div 4096 = of_nat (i div 4096)" "(of_nat i :: u32) mod 4096 = of_nat (i mod 4096)"
    using assms by (simp_all add: word_unat_eq_iff unat_div unat_mod)
qed

lemma file_size_less: "inode_ok m fs k \<Longrightarrow> file_size m fs k \<le> 1023 * 4096"
  by (auto simp: inode_ok_def file_size_def split: prod.splits)

lemma fs_ok_length: "fs_ok m fs \<Longrightarrow> fs_length m (fst fs) \<le> 4294967296"
  by (auto simp: fs_ok_def)

lemma read_data_step:
  assumes "inode_ok m fs k" "i < file_size m fs k" "i < j" "j \<le> file_size m fs k"
  shows "read_data_loop fs k buf (of_nat j) (of_nat i) n m =
    read_data_loop fs k buf (of_nat j) (of_nat (Suc i)) (n + 1) (m(buf + n := file_bytes m fs k ! i))"
proof -
  obtain bb ino db where fs: "fs = (bb, ino, db)" by (cases fs)
  have lim: "file_size m fs k \<le> 1023 * 4096" using assms(1) by (rule file_size_less)
  then have i: "i < 4294967296" and j: "j < 4294967296" using assms by linarith+
  have less: "of_nat i < (of_nat j :: u32)" using i j assms(3) by (simp add: word_less_nat_alt)
  note b = inode_ok_block [OF assms(1,2) [unfolded fs]]
  have "\<not> num_data_blocks m bb \<le> inode_block m ino k (of_nat (i div 4096))" using b by simp
  moreover have "m (db + 4096 * inode_block m ino k (of_nat (i div 4096)) + of_nat (i mod 4096)) =
      file_bytes m fs k ! i"
    using assms(2) by (simp add: file_bytes_def fs file_byte_addr_def)
  ultimately show ?thesis
    using less i by (subst read_data_loop.simps)
      (simp add: fs of_nat_div_u32 memcpy_byte Let_def add.commute del: fun_upd_apply)
qed

lemma read_data_loop_bytes:
  "fs_ok m fs \<Longrightarrow> inode_ok m fs k \<Longrightarrow> i + r \<le> file_size m fs k \<Longrightarrow>
    apart (buf + of_nat b) r (fst fs) (fs_length m (fst fs)) \<Longrightarrow>
    read_data_loop fs k buf (of_nat (i + r)) (of_nat i) (of_nat b) m =
      (write_bytes m (buf + of_nat b) (take r (drop i (file_bytes m fs k))), of_nat (b + r))"
proof (induction r arbitrary: m i b)
  case 0
  then show ?case by (subst read_data_loop.simps) (simp split: prod.split)
next
  case (Suc r)
  let ?x = "file_bytes m fs k ! i"
  define m1 where "m1 = m(buf + of_nat b := ?x)"
  have i: "i < file_size m fs k" using Suc.prems(3) by simp
  have lim: "file_size m fs k \<le> 1023 * 4096" using Suc.prems(2) by (rule file_size_less)
  have r: "Suc r \<le> 4294967296" using Suc.prems(3) lim by linarith
  have a1: "apart (buf + of_nat b + of_nat 0) 1 (fst fs) (fs_length m (fst fs))"
    by (rule apart_sub [OF Suc.prems(4) _ r]) simp
  have ar: "apart (buf + of_nat b + of_nat 1) r (fst fs) (fs_length m (fst fs))"
    by (rule apart_sub [OF Suc.prems(4) _ r]) simp
  have "same_image (fst fs) (fs_length m (fst fs)) m (write_bytes m (buf + of_nat b) [?x])"
    using a1 fs_ok_length [OF Suc.prems(1)] by (intro write_same_image) simp_all
  then have s: "same_image (fst fs) (fs_length m (fst fs)) m m1" by (simp add: m1_def)
  note same = same_image_file [OF Suc.prems(1) s Suc.prems(2)]
  have "read_data_loop fs k buf (of_nat (i + Suc r)) (of_nat i) (of_nat b) m =
      read_data_loop fs k buf (of_nat (Suc i + r)) (of_nat (Suc i)) (of_nat (Suc b)) m1"
    using read_data_step [OF Suc.prems(2) i _ Suc.prems(3), of buf "of_nat b"]
    unfolding m1_def by (simp add: add.commute)
  also have "\<dots> = (write_bytes m1 (buf + of_nat (Suc b)) (take r (drop (Suc i) (file_bytes m fs k))),
      of_nat (Suc b + r))"
    using same Suc.prems ar by (subst Suc.IH) (simp_all add: add.commute add.left_commute)
  also have "write_bytes m1 (buf + of_nat (Suc b)) (take r (drop (Suc i) (file_bytes m fs k))) =
      write_bytes m (buf + of_nat b) (?x # take r (drop (Suc i) (file_bytes m fs k)))"
    by (simp add: m1_def add.commute add.left_commute)
  also have "?x # take r (drop (Suc i) (file_bytes m fs k)) = take (Suc r) (drop i (file_bytes m fs k))"
    using i by (simp flip: Cons_nth_drop_Suc)
  finally show ?case by simp
qed

text \<open>
  \<open>read_data\<close> from an offset inside the file: it stores the piece of the contents that the offset and
  the length select, cut at the end of the file, and returns how many bytes that is.
\<close>

lemma read_data_bytes:
  assumes "fs_ok m fs" "inode_ok m fs k" "unat offset \<le> file_size m fs k"
    and "n = min (unat len) (file_size m fs k - unat offset)"
    and "apart buf n (fst fs) (fs_length m (fst fs))"
  shows "read_data fs k offset buf len m =
    (write_bytes m buf (take n (drop (unat offset) (file_bytes m fs k))), int n)"
proof -
  obtain bb ino db where fs: "fs = (bb, ino, db)" by (cases fs)
  let ?size = "inode_size m ino k"
  have size: "unat ?size = file_size m fs k" by (simp add: fs file_size_def)
  have lim: "file_size m fs k \<le> 1023 * 4096" using assms(2) by (rule file_size_less)
  have le: "offset \<le> ?size" using assms(3) size by (simp add: word_le_nat_alt)
  then have diff: "unat (?size - offset) = file_size m fs k - unat offset"
    using size by (simp add: unat_sub)
  define l where "l = (if ?size - offset < len then ?size - offset else len)"
  have l: "unat l = n" using diff assms(4) by (auto simp: l_def word_less_nat_alt)
  then have l': "l = of_nat n" by (metis of_nat_unat ucast_id)
  have k: "\<not> num_inodes m bb \<le> k" using assms(2) by (auto simp: fs inode_ok_def)
  have "read_data_loop fs k buf (of_nat (unat offset + n)) (of_nat (unat offset)) (of_nat 0) m =
      (write_bytes m (buf + of_nat 0) (take n (drop (unat offset) (file_bytes m fs k))), of_nat (0 + n))"
    using assms by (intro read_data_loop_bytes) auto
  then have loop: "read_data_loop fs k buf (offset + l) offset 0 m =
      (write_bytes m buf (take n (drop (unat offset) (file_bytes m fs k))), of_nat n)"
    by (simp add: l')
  have "n \<le> 1023 * 4096" using lim assms(4) by linarith
  then have "sint (of_nat n :: u32) = int n"
    by (simp add: signed_of_nat signed_take_bit_int_eq_self)
  then show ?thesis
    using k loop unfolding read_data_def fs prod.case l_def [symmetric] by simp
qed

lemma read_data_bad_inode:
  "num_inodes m bb \<le> k \<Longrightarrow> read_data (bb, ino, db) k offset buf len m = (m, - 1)"
  by (simp add: read_data_def)

section \<open>Looking up a name\<close>

definition dentry_at :: "mem \<Rightarrow> addr \<Rightarrow> nat \<Rightarrow> dir_entry" where
  "dentry_at m bb i = \<lparr>name = bytes m (dentry_addr bb (of_nat i)) 32,
     file_type = read32 m (dentry_addr bb (of_nat i) + 32),
     inode_num = read32 m (dentry_addr bb (of_nat i) + 36),
     reserved = bytes m (dentry_addr bb (of_nat i) + 40) 24\<rparr>"

definition dir_names :: "mem \<Rightarrow> addr \<Rightarrow> u8 list list" where
  "dir_names m bb =
     map (\<lambda>i. field_string m (dentry_addr bb (of_nat i)) 32) [0..<unat (num_dir_entries m bb)]"

lemma read_dentry_by_index_at:
  "i < unat (num_dir_entries m bb) \<Longrightarrow> read_dentry_by_index m bb (of_nat i) = Some (dentry_at m bb i)"
  using unat_u32_less [of "num_dir_entries m bb"]
  by (simp add: read_dentry_by_index_def dentry_at_def word_le_nat_alt)

lemma dentry_loop_find:
  "i \<le> unat (num_dir_entries m bb) \<Longrightarrow>
    dentry_loop m bb fname (of_nat i) =
      map_option (\<lambda>j. (of_nat j, dentry_at m bb j))
        (find (\<lambda>j. field_string m (dentry_addr bb (of_nat j)) 32 = field_string m fname 32)
          [i..<unat (num_dir_entries m bb)])"
proof (induction "unat (num_dir_entries m bb) - i" arbitrary: i)
  case 0
  then show ?case
    using unat_u32_less [of "num_dir_entries m bb"]
    by (subst dentry_loop.simps) (simp add: word_less_nat_alt)
next
  case (Suc k)
  then have i: "i < unat (num_dir_entries m bb)" by simp
  then have less: "of_nat i < num_dir_entries m bb"
    using unat_u32_less [of "num_dir_entries m bb"] by (simp add: word_less_nat_alt)
  have nxt: "of_nat i + 1 = (of_nat (Suc i) :: u32)" by simp
  have IH: "dentry_loop m bb fname (of_nat (Suc i)) =
      map_option (\<lambda>j. (of_nat j, dentry_at m bb j))
        (find (\<lambda>j. field_string m (dentry_addr bb (of_nat j)) 32 = field_string m fname 32)
          [Suc i..<unat (num_dir_entries m bb)])"
    using Suc i by (intro Suc.hyps(1)) auto
  show ?case
    using i less by (subst dentry_loop.simps)
      (auto simp: nxt IH read_dentry_by_index_at upt_conv_Cons strncmp_zero_iff simp del: of_nat_Suc)
qed

lemma field_string_cstring:
  assumes "cstring m s str" "length str \<le> n"
  shows "field_string m s n = str"
proof -
  have b: "bytes m s (length str) = str" and z: "m (s + of_nat (length str)) = 0"
    and nz: "0 \<notin> set str"
    using assms(1) by (auto simp: cstring_def)
  have "bytes m s n = str @ bytes m (s + of_nat (length str)) (n - length str)"
    using bytes_add [of m s "length str" "n - length str"] assms(2) b by simp
  then show ?thesis
    using nz z by (cases "n - length str") (auto simp: field_string_def takeWhile_append bytes_Suc)
qed

text \<open>A lookup by a name of 1 to 32 characters finds the first entry of that name, or nothing.\<close>

lemma read_dentry_by_name_find:
  assumes "cstring m fname str" "str \<noteq> []" "length str \<le> 32" "fname \<noteq> 0"
  shows "read_dentry_by_name m bb fname =
    Inr (map_option (\<lambda>i. (of_nat i, dentry_at m bb i))
      (find (\<lambda>i. dir_names m bb ! i = str) [0..<length (dir_names m bb)]))"
proof -
  have len: "strlen m fname = Some (of_nat (length str))" using assms(1) by (rule strlen_cstring)
  have bounds: "\<not> (of_nat (length str) :: u32) < 1" "\<not> 32 < (of_nat (length str) :: u32)"
    using assms(2,3) by (simp_all add: word_less_nat_alt)
  have "find (\<lambda>i. dir_names m bb ! i = str) [0..<length (dir_names m bb)] =
      find (\<lambda>i. field_string m (dentry_addr bb (of_nat i)) 32 = str) [0..<unat (num_dir_entries m bb)]"
    by (auto simp: dir_names_def intro!: find_cong)
  then show ?thesis
    using dentry_loop_find [of 0 m bb fname] bounds assms(4) field_string_cstring [OF assms(1,3)]
    by (simp add: read_dentry_by_name_def len)
qed

section \<open>An example image\<close>

text \<open>An image with two directory entries, two inodes and two data blocks; file \<open>foo\<close> holds \<open>hello\<close>.\<close>

definition example_image :: mem where
  "example_image a =
     (if a = 0x400000 \<or> a = 0x400004 \<or> a = 0x400008 then 2
      else if a = 0x400040 then 46 else if a = 0x400060 then 1
      else if a = 0x400080 then 102 else if a = 0x400081 \<or> a = 0x400082 then 111
      else if a = 0x4000A0 then 2 else if a = 0x4000A4 then 1
      else if a = 0x402000 then 5 else if a = 0x402004 then 1
      else if a = 0x404000 then 104 else if a = 0x404001 then 101
      else if a = 0x404002 \<or> a = 0x404003 then 108 else if a = 0x404004 then 111
      else if a = 0x500000 then 102 else if a = 0x500001 \<or> a = 0x500002 then 111
      else 0)"

definition example_fs :: "addr \<times> addr \<times> addr" where
  "example_fs = (0x400000, 0x401000, 0x403000)"

lemma example_counts:
  "num_inodes example_image 0x400000 = 2" "num_data_blocks example_image 0x400000 = 2"
  "num_dir_entries example_image 0x400000 = 2" "inode_size example_image 0x401000 1 = 5"
  "inode_block example_image 0x401000 1 0 = 1"
  by (simp_all add: num_inodes_def num_data_blocks_def num_dir_entries_def inode_size_def
      inode_block_def inode_addr_def read32_def example_image_def)

lemma example_ok:
  "fs_ok example_image example_fs" "inode_ok example_image example_fs 1"
  "fs_length example_image 0x400000 = 20480"
  by (simp_all add: fs_ok_def inode_ok_def example_counts example_fs_def fs_length_def)

lemma example_file:
  "file_bytes example_image example_fs 1 = [104, 101, 108, 108, 111]" "file_size example_image example_fs 1 = 5"
  by (simp_all add: file_bytes_def file_size_def file_byte_addr_def example_counts example_fs_def upt_rec
      example_image_def)

lemma example_fst: "fst example_fs = 0x400000"
  by (simp add: example_fs_def)

lemma example_string: "cstring example_image 0x500000 [102, 111, 111]"
  by (simp add: cstring_def bytes_def upt_rec example_image_def)

section \<open>Properties\<close>

text \<open>C28: \<open>read_dentry_by_name\<close> with a name of 1 to 32 characters returns the first directory entry
  whose name field holds exactly that name, with its index and all its fields, and fails when there is
  none; it always returns.\<close>

theorem read_dentry_by_name_correct:
  assumes "cstring m fname str" "str \<noteq> []" "length str \<le> 32" "fname \<noteq> 0"
  shows "case find (\<lambda>i. dir_names m bb ! i = str) [0..<length (dir_names m bb)] of
      None \<Rightarrow> read_dentry_by_name m bb fname = Inr None \<and> str \<notin> set (dir_names m bb)
    | Some i \<Rightarrow> read_dentry_by_name m bb fname = Inr (Some (of_nat i, dentry_at m bb i)) \<and>
        i < length (dir_names m bb) \<and> dir_names m bb ! i = str \<and> str \<notin> set (take i (dir_names m bb))"
proof (cases "find (\<lambda>i. dir_names m bb ! i = str) [0..<length (dir_names m bb)]")
  case None
  then have "\<forall>i < length (dir_names m bb). dir_names m bb ! i \<noteq> str"
    by (auto simp: find_None_iff)
  then show ?thesis
    using read_dentry_by_name_find [OF assms, of bb] None by (auto simp: in_set_conv_nth)
next
  case (Some i)
  then have "i < length (dir_names m bb) \<and> dir_names m bb ! i = str \<and> (\<forall>j < i. dir_names m bb ! j \<noteq> str)"
    by (auto simp: find_Some_iff)
  then show ?thesis
    using read_dentry_by_name_find [OF assms, of bb] Some by (auto simp: in_set_conv_nth)
qed

lemma read_dentry_by_name_correct_witness:
  "read_dentry_by_name example_image 0x400000 0x500000 = Inr (Some (1, dentry_at example_image 0x400000 1))"
proof -
  have n: "dir_names example_image 0x400000 = [[46], [102, 111, 111]]"
    by (simp add: dir_names_def example_counts field_string_def bytes_def upt_rec dentry_addr_def example_image_def)
  show ?thesis
    using read_dentry_by_name_correct [OF example_string, of "0x400000"] by (simp add: n upt_rec)
qed

text \<open>C12: \<open>read_data\<close> on a well-formed file: it stores into the buffer the piece of the file's contents
  that starts at the offset, as long as asked for but cut at the end of the file, across block
  boundaries and whatever blocks the inode names, changes no other byte of memory, and returns the
  length of the piece.  An inode number out of range is refused.\<close>

theorem read_data_correct:
  assumes "fs_ok m fs" "inode_ok m fs k" "unat offset \<le> file_size m fs k"
    and "apart buf (min (unat len) (file_size m fs k - unat offset)) (fst fs) (fs_length m (fst fs))"
    and "num_inodes m (fst fs) \<le> bad"
  shows "read_data fs k offset buf len m =
      (write_bytes m buf (take (unat len) (drop (unat offset) (file_bytes m fs k))),
       int (min (unat len) (file_size m fs k - unat offset))) \<and>
    read_data fs bad offset buf len m = (m, - 1)"
proof -
  have "take (min (unat len) (file_size m fs k - unat offset)) (drop (unat offset) (file_bytes m fs k)) =
      take (unat len) (drop (unat offset) (file_bytes m fs k))"
    by (rule nth_equalityI) auto
  then have "read_data fs k offset buf len m =
      (write_bytes m buf (take (unat len) (drop (unat offset) (file_bytes m fs k))),
       int (min (unat len) (file_size m fs k - unat offset)))"
    using read_data_bytes [OF assms(1-3) refl assms(4)] by simp
  moreover have "read_data fs bad offset buf len m = (m, - 1)"
    using read_data_bad_inode [of m "fst fs" bad] assms(5) by (cases fs) simp
  ultimately show ?thesis by simp
qed

lemma read_data_correct_witness:
  "read_data example_fs 1 2 0x600000 100 example_image =
     (write_bytes example_image 0x600000 [108, 108, 111], 3) \<and>
   read_data example_fs 2 2 0x600000 100 example_image = (example_image, - 1)"
  using read_data_correct [OF example_ok(1,2), of 2 "0x600000" 100 2]
  by (simp add: example_file example_ok example_fst example_counts apart_def)

end
