(* ===== verification/FileDrivers.thy ===== *)
theory FileDrivers imports FileSys begin

text \<open>
  The drivers for directories and regular files of \<^verbatim>\<open>src/src/file_sys.c\<close>: the functions the
  operations tables hold.  Both deliver a sequence piece by piece and start over after the end; the
  interface \<open>sequential_reader\<close> says so and is interpreted for both.
\<close>

section \<open>The directory and file drivers\<close>

definition set_file_position :: "nat \<Rightarrow> u32 \<Rightarrow> 'a proc_scheme \<Rightarrow> 'a proc_scheme" where
  "set_file_position fd pos st =
     update_pcb (current_pcb_addr st)
       (\<lambda>p. p\<lparr>files := (files p)(fd := (files p fd)\<lparr>file_position := pos\<rparr>)\<rparr>) st"

definition file_read :: "nat \<Rightarrow> addr \<Rightarrow> u32 \<Rightarrow> 'a fsys_scheme \<Rightarrow> 'a fsys_scheme \<times> int" where
  "file_read fd buf nbytes st =
     (let inode_ptr = inode (files (current_pcb st) fd);
          file_size = inode_size (vmem st) (g_inodes st) inode_ptr;
          offset = file_position (files (current_pcb st) fd)
      in if file_size \<le> offset then (set_file_position fd 0 st, 0)
         else
           (let (m, transfer_size) = read_data (fs_ptrs st) inode_ptr offset buf nbytes (vmem st);
                st = set_vmem m st
            in if transfer_size = - 1 then (st, - 1)
               else (set_file_position fd (file_position (files (current_pcb st) fd) + of_int transfer_size) st,
                     transfer_size)))"

definition file_write :: "nat \<Rightarrow> addr \<Rightarrow> u32 \<Rightarrow> int" where
  "file_write fd buf nbytes = - 1"

definition file_open :: "addr \<Rightarrow> 'a fsys_scheme \<Rightarrow> int res" where
  "file_open filename st =
     andthen (read_dentry_by_name (vmem st) (g_boot_block st) filename)
       (\<lambda>r. Inr (case r of None \<Rightarrow> - 1 | Some (i, d) \<Rightarrow> if i \<noteq> - 1 then sint i else - 1))"

definition file_close :: "nat \<Rightarrow> int" where
  "file_close fd = 0"

text \<open>A directory entry as the bytes of the C structure.\<close>

definition dir_entry_bytes :: "dir_entry \<Rightarrow> u8 list" where
  "dir_entry_bytes d = name d @ bytes_of32 (file_type d) @ bytes_of32 (inode_num d) @ reserved d"

text \<open>
  The loop of \<open>dir_read\<close>.  It is bounded by \<open>nbytes\<close> and by a NUL, not by the length of the name, so
  it runs on into the rest of the structure and then past it.
\<close>

function dir_read_loop :: "u8 list \<Rightarrow> addr \<Rightarrow> nat \<Rightarrow> nat \<Rightarrow> mem \<Rightarrow> (mem \<times> nat) res" where
  "dir_read_loop ds buf nbytes i m =
     (if i < nbytes then
        (if length ds \<le> i then Inl OutOfBounds
         else if ds ! i = 0 then Inr (m, i)
         else dir_read_loop ds buf nbytes (i + 1) (m(buf + of_nat i := ds ! i)))
      else Inr (m, i))"
  by pat_completeness auto
termination by (relation "measure (\<lambda>(ds, buf, nbytes, i, m). nbytes - i)") auto

declare dir_read_loop.simps [simp del]

definition dir_read :: "nat \<Rightarrow> addr \<Rightarrow> u32 \<Rightarrow> 'a fsys_scheme \<Rightarrow> ('a fsys_scheme \<times> int) res" where
  "dir_read fd buf nbytes st =
     (let start = file_position (files (current_pcb st) fd)
      in if num_dir_entries (vmem st) (g_boot_block st) \<le> start then Inr (set_file_position fd 0 st, 0)
         else
           (let st = set_file_position fd (start + 1) st
            in case read_dentry_by_index (vmem st) (g_boot_block st) start of
                 None \<Rightarrow> Inr (st, - 1)
               | Some dentry \<Rightarrow>
                   andthen (dir_read_loop (dir_entry_bytes dentry) buf (unat nbytes) 0 (vmem st))
                     (\<lambda>(m, i). Inr (set_vmem m st, sint (of_nat i :: u32)))))"

definition dir_write :: "nat \<Rightarrow> addr \<Rightarrow> u32 \<Rightarrow> int" where
  "dir_write fd buf nbytes = - 1"

text \<open>
  \<open>dir_open\<close> lets \<open>read_dentry_by_name\<close> write an entry through a pointer it never set; where the
  entry goes is the argument \<open>dentry\<close>.
\<close>

definition dir_open :: "addr \<Rightarrow> addr \<Rightarrow> 'a fsys_scheme \<Rightarrow> ('a fsys_scheme \<times> int) res" where
  "dir_open dentry filename st =
     andthen (read_dentry_by_name (vmem st) (g_boot_block st) filename)
       (\<lambda>r. Inr (case r of None \<Rightarrow> (st, - 1)
         | Some (i, d) \<Rightarrow>
             (let st = set_vmem (write_bytes (vmem st) dentry (dir_entry_bytes d)) st
              in if i \<noteq> - 1 then (st, 0) else (st, - 1))))"

definition dir_close :: "nat \<Rightarrow> int" where
  "dir_close fd = 0"


section \<open>Reading a sequence piece by piece\<close>

primrec repeat_read :: "('s \<Rightarrow> 's \<times> 'b list) \<Rightarrow> nat \<Rightarrow> 's \<Rightarrow> 's \<times> 'b list" where
  "repeat_read step 0 s = (s, [])"
| "repeat_read step (Suc n) s =
     (let (s1, xs) = step s; (s2, ys) = repeat_read step n s1 in (s2, xs @ ys))"

locale sequential_reader =
  fixes ok :: "'s \<Rightarrow> bool" and contents :: "'s \<Rightarrow> 'b list" and pos :: "'s \<Rightarrow> nat"
    and chunk :: nat and step :: "'s \<Rightarrow> 's \<times> 'b list"
  assumes chunk_pos: "ok s \<Longrightarrow> 0 < chunk"
    and read_inside: "ok s \<Longrightarrow> pos s < length (contents s) \<Longrightarrow> step s = (s', xs) \<Longrightarrow>
      xs = take chunk (drop (pos s) (contents s)) \<and> pos s' = pos s + length xs \<and>
      contents s' = contents s \<and> ok s'"
    and read_at_end: "ok s \<Longrightarrow> length (contents s) \<le> pos s \<Longrightarrow> step s = (s', xs) \<Longrightarrow>
      xs = [] \<and> pos s' = 0 \<and> contents s' = contents s \<and> ok s'"
begin

text \<open>\<open>k\<close> reads that all start inside deliver the next \<open>k\<close> pieces.\<close>

lemma repeat_inside:
  "ok s \<Longrightarrow> repeat_read step k s = (s', xs) \<Longrightarrow>
    k = 0 \<or> pos s + (k - 1) * chunk < length (contents s) \<Longrightarrow> pos s \<le> length (contents s) \<Longrightarrow>
    xs = take (k * chunk) (drop (pos s) (contents s)) \<and>
    pos s' = min (pos s + k * chunk) (length (contents s)) \<and> contents s' = contents s \<and> ok s'"
proof (induction k arbitrary: s s' xs)
  case (Suc k)
  obtain s1 ys where s1: "step s = (s1, ys)" by (cases "step s")
  obtain s2 zs where s2: "repeat_read step k s1 = (s2, zs)" by (cases "repeat_read step k s1")
  have xs: "s' = s2" "xs = ys @ zs" using Suc.prems(2) s1 s2 by auto
  have inside: "pos s + k * chunk < length (contents s)" using Suc.prems(3) by simp
  then have "pos s < length (contents s)" by simp
  note r = read_inside [OF Suc.prems(1) this s1]
  have p: "pos s1 = min (pos s + chunk) (length (contents s))" using r Suc.prems(4) by auto
  have c1: "contents s1 = contents s" and ok1: "ok s1" using r by simp_all
  have le1: "pos s1 \<le> length (contents s1)" using p c1 by simp
  have in1: "k = 0 \<or> pos s1 + (k - 1) * chunk < length (contents s1)"
  proof (cases k)
    case (Suc j)
    have "pos s + chunk + j * chunk < length (contents s)" using inside Suc by (simp add: add.assoc)
    moreover from this have "pos s1 = pos s + chunk" using p by simp
    ultimately show ?thesis using c1 Suc by simp
  qed simp
  have IH: "zs = take (k * chunk) (drop (pos s1) (contents s)) \<and>
      pos s2 = min (pos s1 + k * chunk) (length (contents s)) \<and> contents s2 = contents s \<and> ok s2"
    using Suc.IH [OF ok1 s2 in1 le1] unfolding c1 .
  have "ys @ zs = take (Suc k * chunk) (drop (pos s) (contents s))"
  proof (cases "pos s + chunk \<le> length (contents s)")
    case True
    then have "pos s1 = chunk + pos s" using p by simp
    then show ?thesis using r IH by (simp add: take_add add.commute)
  next
    case False
    then have "k = 0" using inside by (cases k) simp_all
    then show ?thesis using r IH by simp
  qed
  moreover have "pos s2 = min (pos s + Suc k * chunk) (length (contents s))"
  proof -
    have "min (min (pos s + chunk) n + k * chunk) n = min (pos s + chunk + k * chunk) n" for n
      by simp
    then show ?thesis using IH p by (simp add: add.assoc)
  qed
  ultimately show ?case using xs IH by blast
qed simp

text \<open>Reading from the start until the end yields everything; the next read yields nothing and rewinds.\<close>

lemma drain:
  assumes "ok s" "pos s = 0" "repeat_read step ((length (contents s) + chunk - 1) div chunk) s = (s1, xs)"
    and "step s1 = (s2, ys)"
  shows "xs = contents s \<and> pos s1 = length (contents s) \<and> contents s1 = contents s \<and> ys = [] \<and>
    pos s2 = 0 \<and> contents s2 = contents s \<and> ok s2"
proof -
  let ?n = "length (contents s)" and ?k = "(length (contents s) + chunk - 1) div chunk"
  have c: "0 < chunk" using assms(1) by (rule chunk_pos)
  have "?k = 0 \<or> (?k - 1) * chunk < ?n"
  proof (cases "?n = 0")
    case False
    have "(?k - 1) * chunk = ?k * chunk - chunk" by (simp only: diff_mult_distrib mult_1)
    moreover have "?k * chunk \<le> ?n + chunk - 1" by (rule div_times_less_eq_dividend)
    ultimately show ?thesis using False c by linarith
  qed (use c in simp)
  moreover have full: "?n \<le> ?k * chunk"
  proof -
    have "?n + chunk - 1 < chunk * ?k + chunk" using c by (metis dividend_less_times_div mult.commute add.commute)
    then show ?thesis by (simp add: mult.commute)
  qed
  ultimately have r: "xs = contents s \<and> pos s1 = ?n \<and> contents s1 = contents s \<and> ok s1"
    using repeat_inside [OF assms(1,3)] assms(2) by auto
  then show ?thesis using read_at_end [of s1 s2 ys] assms(4) by auto
qed

end

section \<open>\<open>file_read\<close> reads the file\<close>

lemma g_frame [simp]:
  "g_boot_block (update_pcb a f st) = g_boot_block st" "g_inodes (update_pcb a f st) = g_inodes st"
  "g_data_blocks (update_pcb a f st) = g_data_blocks st"
  "g_boot_block (set_vmem m st) = g_boot_block st" "g_inodes (set_vmem m st) = g_inodes st"
  "g_data_blocks (set_vmem m st) = g_data_blocks st"
  "fs_ptrs (update_pcb a f st) = fs_ptrs st" "fs_ptrs (set_vmem m st) = fs_ptrs st"
  by (simp_all add: update_pcb_def set_vmem_def fs_ptrs_def)

lemma set_vmem_pcbs [simp]:
  "pcbs (set_vmem m st) = pcbs st" "current_pcb_addr (set_vmem m st) = current_pcb_addr st"
  "current_pcb (set_vmem m st) = current_pcb st"
  by (simp_all add: set_vmem_def current_pcb_addr_def current_pcb_def)

lemma set_file_position_frame [simp]:
  "vmem (set_file_position fd v st) = vmem st" "fs_ptrs (set_file_position fd v st) = fs_ptrs st"
  "g_boot_block (set_file_position fd v st) = g_boot_block st"
  "g_inodes (set_file_position fd v st) = g_inodes st"
  "g_data_blocks (set_file_position fd v st) = g_data_blocks st"
  by (simp_all add: set_file_position_def)

lemma set_file_position_files [simp]:
  "inode (files (current_pcb (set_file_position fd v st)) k) = inode (files (current_pcb st) k)"
  "file_position (files (current_pcb (set_file_position fd v st)) fd) = v"
  by (simp_all add: set_file_position_def current_pcb_def)

text \<open>An open regular file, and a buffer of \<open>n\<close> bytes that is no part of the file system image.\<close>

definition file_ready :: "nat \<Rightarrow> addr \<Rightarrow> u32 \<Rightarrow> 'a fsys_scheme \<Rightarrow> bool" where
  "file_ready fd buf n st \<longleftrightarrow> fs_ok (vmem st) (fs_ptrs st) \<and>
     inode_ok (vmem st) (fs_ptrs st) (inode (files (current_pcb st) fd)) \<and>
     apart buf (unat n) (g_boot_block st) (fs_length (vmem st) (g_boot_block st)) \<and> 0 < n"

definition open_file_bytes :: "nat \<Rightarrow> 'a fsys_scheme \<Rightarrow> u8 list" where
  "open_file_bytes fd st = file_bytes (vmem st) (fs_ptrs st) (inode (files (current_pcb st) fd))"

definition open_file_position :: "nat \<Rightarrow> 'a proc_scheme \<Rightarrow> nat" where
  "open_file_position fd st = unat (file_position (files (current_pcb st) fd))"

text \<open>One call of \<open>file_read\<close> with the bytes it leaves in the buffer.\<close>

definition file_read_step :: "nat \<Rightarrow> addr \<Rightarrow> u32 \<Rightarrow> 'a fsys_scheme \<Rightarrow> 'a fsys_scheme \<times> u8 list" where
  "file_read_step fd buf n st = (let (st', r) = file_read fd buf n st in (st', bytes (vmem st') buf (nat r)))"

lemma fst_fs_ptrs [simp]: "fst (fs_ptrs st) = g_boot_block st"
  by (simp add: fs_ptrs_def)

lemma length_open_file:
  "length (open_file_bytes fd st) = unat (inode_size (vmem st) (g_inodes st) (inode (files (current_pcb st) fd)))"
  by (simp add: open_file_bytes_def file_size_def fs_ptrs_def)

lemma file_read_at_end:
  "length (open_file_bytes fd st) \<le> open_file_position fd st \<Longrightarrow>
    file_read fd buf n st = (set_file_position fd 0 st, 0)"
  by (simp add: file_read_def length_open_file open_file_position_def word_le_nat_alt)

lemma file_read_inside:
  assumes "file_ready fd buf n st" "open_file_position fd st < length (open_file_bytes fd st)"
  defines "piece \<equiv> take (unat n) (drop (open_file_position fd st) (open_file_bytes fd st))"
  shows "file_read fd buf n st =
    (set_file_position fd (of_nat (open_file_position fd st + length piece))
       (set_vmem (write_bytes (vmem st) buf piece) st), int (length piece))"
proof -
  let ?k = "inode (files (current_pcb st) fd)" and ?off = "file_position (files (current_pcb st) fd)"
  let ?n = "min (unat n) (file_size (vmem st) (fs_ptrs st) ?k - unat ?off)"
  have len: "length piece = ?n"
    by (simp add: piece_def open_file_bytes_def open_file_position_def)
  have take: "take ?n (drop (unat ?off) (file_bytes (vmem st) (fs_ptrs st) ?k)) = piece"
    unfolding piece_def open_file_bytes_def open_file_position_def
    by (rule nth_equalityI) auto
  have "apart buf ?n (fst (fs_ptrs st)) (fs_length (vmem st) (fst (fs_ptrs st)))"
    using assms(1) apart_sub [of buf "unat n" _ _ 0 ?n] unat_u32_less [of n]
    by (simp add: file_ready_def)
  then have rd: "read_data (fs_ptrs st) ?k ?off buf n (vmem st) =
      (write_bytes (vmem st) buf piece, int ?n)"
    using assms(1,2) unfolding take [symmetric]
    by (intro read_data_bytes) (simp_all add: file_ready_def open_file_bytes_def open_file_position_def)
  have "\<not> inode_size (vmem st) (g_inodes st) ?k \<le> ?off"
    using assms(2) by (simp add: length_open_file open_file_position_def word_le_nat_alt)
  then show ?thesis
    unfolding len by (simp add: file_read_def rd open_file_position_def Let_def add.commute)
qed

lemma file_ready_frame:
  assumes "file_ready fd buf n st" "m = write_bytes (vmem st) buf bs" "length bs \<le> unat n"
  shows "file_ready fd buf n (set_file_position fd v (set_vmem m st))"
    "open_file_bytes fd (set_file_position fd v (set_vmem m st)) = open_file_bytes fd st"
proof -
  let ?bb = "g_boot_block st"
  have "apart (buf + of_nat 0) (length bs) ?bb (fs_length (vmem st) ?bb)"
    using assms unat_u32_less [of n] by (intro apart_sub) (auto simp: file_ready_def)
  then have s: "same_image (fst (fs_ptrs st)) (fs_length (vmem st) (fst (fs_ptrs st))) (vmem st) m"
    using assms unat_u32_less [of n] fs_ok_length [of "vmem st" "fs_ptrs st"]
    by (auto simp: file_ready_def intro!: write_same_image)
  note same = same_image_file [OF _ s, of "inode (files (current_pcb st) fd)"]
  show "file_ready fd buf n (set_file_position fd v (set_vmem m st))"
    "open_file_bytes fd (set_file_position fd v (set_vmem m st)) = open_file_bytes fd st"
    using assms(1) same by (simp_all add: file_ready_def open_file_bytes_def)
qed

lemma file_ready_rewind:
  "file_ready fd buf n (set_file_position fd v st) = file_ready fd buf n st"
  "open_file_bytes fd (set_file_position fd v st) = open_file_bytes fd st"
  by (simp_all add: file_ready_def open_file_bytes_def)

lemma position_after [simp]: "open_file_position fd (set_file_position fd v st) = unat v"
  by (simp add: open_file_position_def)

interpretation file_reader: sequential_reader "file_ready fd buf n" "open_file_bytes fd"
  "open_file_position fd" "unat n" "file_read_step fd buf n"
proof unfold_locales
  fix s :: "'a fsys_scheme" and s' xs
  assume ok: "file_ready fd buf n s"
  then show "0 < unat n" by (simp add: file_ready_def word_less_nat_alt)
  have small: "length (open_file_bytes fd s) \<le> 1023 * 4096"
    using ok file_size_less by (simp add: file_ready_def open_file_bytes_def)
  assume step: "file_read_step fd buf n s = (s', xs)"
  {
    assume inside: "open_file_position fd s < length (open_file_bytes fd s)"
    define piece where "piece = take (unat n) (drop (open_file_position fd s) (open_file_bytes fd s))"
    have len: "length piece \<le> unat n" "open_file_position fd s + length piece < 4294967296"
      using small inside by (auto simp: piece_def)
    have xs: "xs = piece" and s': "s' = set_file_position fd (of_nat (open_file_position fd s + length piece))
        (set_vmem (write_bytes (vmem s) buf piece) s)"
      using step file_read_inside [OF ok inside] len
      by (auto simp: file_read_step_def piece_def [symmetric] bytes_write_same simp del: of_nat_add)
    show "xs = take (unat n) (drop (open_file_position fd s) (open_file_bytes fd s)) \<and>
      open_file_position fd s' = open_file_position fd s + length xs \<and>
      open_file_bytes fd s' = open_file_bytes fd s \<and> file_ready fd buf n s'"
      using file_ready_frame [OF ok refl len(1)] len(2) unfolding xs s'
      by (simp add: piece_def [symmetric] del: of_nat_add)
  }
  {
    assume "length (open_file_bytes fd s) \<le> open_file_position fd s"
    then have "xs = []" "s' = set_file_position fd 0 s"
      using step by (auto simp: file_read_step_def file_read_at_end)
    then show "xs = [] \<and> open_file_position fd s' = 0 \<and> open_file_bytes fd s' = open_file_bytes fd s \<and>
      file_ready fd buf n s'"
      using ok by (simp add: file_ready_rewind)
  }
qed

section \<open>\<open>dir_read\<close> lists the directory\<close>

lemma dir_read_loop_bytes:
  "i \<le> n \<Longrightarrow> n \<le> length ds \<or> 0 \<in> set (drop i ds) \<Longrightarrow>
    dir_read_loop ds buf n i m =
      (let w = take (n - i) (takeWhile (\<lambda>c. c \<noteq> 0) (drop i ds))
       in Inr (write_bytes m (buf + of_nat i) w, i + length w))"
proof (induction "n - i" arbitrary: i m)
  case 0
  then show ?case by (subst dir_read_loop.simps) simp
next
  case (Suc k)
  then have k: "k = n - Suc i" and i: "i < n" by auto
  have il: "i < length ds" using Suc.prems(2) i by (cases "i < length ds") auto
  have d: "drop i ds = ds ! i # drop (Suc i) ds" using il by (simp add: Cons_nth_drop_Suc)
  show ?case
  proof (cases "ds ! i = 0")
    case True
    then show ?thesis using i il by (subst dir_read_loop.simps) (simp add: d)
  next
    case False
    have nd: "n - i = Suc (n - Suc i)" using i by simp
    have IH: "dir_read_loop ds buf n (Suc i) m' =
        (let w = take (n - Suc i) (takeWhile (\<lambda>c. c \<noteq> 0) (drop (Suc i) ds))
         in Inr (write_bytes m' (buf + of_nat (Suc i)) w, Suc i + length w))" for m'
      using Suc.hyps(1) [OF k] i Suc.prems(2) False by (simp add: d)
    show ?thesis
      using i il False by (subst dir_read_loop.simps)
        (simp add: IH d nd Let_def algebra_simps del: fun_upd_apply)
  qed
qed

definition dir_ready :: "nat \<Rightarrow> addr \<Rightarrow> u32 \<Rightarrow> 'a fsys_scheme \<Rightarrow> bool" where
  "dir_ready fd buf n st \<longleftrightarrow> fs_ok (vmem st) (fs_ptrs st) \<and>
     apart buf (unat n) (g_boot_block st) (fs_length (vmem st) (g_boot_block st)) \<and> 0 < n \<and> n \<le> 32"

text \<open>The names a caller with an \<open>n\<close>-byte buffer sees.\<close>

definition listing :: "u32 \<Rightarrow> 'a fsys_scheme \<Rightarrow> u8 list list" where
  "listing n st = map (take (unat n)) (dir_names (vmem st) (g_boot_block st))"

definition dir_read_step :: "nat \<Rightarrow> addr \<Rightarrow> u32 \<Rightarrow> 'a fsys_scheme \<Rightarrow> 'a fsys_scheme \<times> u8 list list" where
  "dir_read_step fd buf n st = (case dir_read fd buf n st of
     Inl e \<Rightarrow> (st, [])
   | Inr (st', r) \<Rightarrow>
       (st', if file_position (files (current_pcb st') fd) = 0 then [] else [bytes (vmem st') buf (nat r)]))"

lemma length_listing [simp]: "length (listing n st) = unat (num_dir_entries (vmem st) (g_boot_block st))"
  by (simp add: listing_def dir_names_def)

lemma dir_read_at_end:
  "length (listing n st) \<le> open_file_position fd st \<Longrightarrow>
    dir_read fd buf n st = Inr (set_file_position fd 0 st, 0)"
  by (simp add: dir_read_def open_file_position_def word_le_nat_alt)

lemma take_takeWhile_append:
  "n \<le> length xs \<Longrightarrow> take n (takeWhile P (xs @ ys)) = take n (takeWhile P xs)"
  by (cases "\<forall>x \<in> set xs. P x") (auto simp: takeWhile_append takeWhile_eq_all_conv [THEN iffD2])

lemma dir_read_inside:
  assumes "n \<le> 32" "open_file_position fd st < length (listing n st)"
  defines "piece \<equiv> listing n st ! open_file_position fd st"
  shows "dir_read fd buf n st =
    Inr (set_vmem (write_bytes (vmem st) buf piece)
       (set_file_position fd (of_nat (open_file_position fd st) + 1) st), int (length piece))"
proof -
  let ?p = "open_file_position fd st" and ?m = "vmem st" and ?bb = "g_boot_block st"
  have p: "?p < unat (num_dir_entries ?m ?bb)" using assms(2) by simp
  have pos: "file_position (files (current_pcb st) fd) = of_nat ?p"
    by (simp add: open_file_position_def)
  have n: "unat n \<le> 32" using assms(1) by (simp add: word_le_nat_alt)
  let ?ds = "dir_entry_bytes (dentry_at ?m ?bb ?p)"
  have "take (unat n) (takeWhile (\<lambda>c. c \<noteq> 0) ?ds) =
      take (unat n) (takeWhile (\<lambda>c. c \<noteq> 0) (bytes ?m (dentry_addr ?bb (of_nat ?p)) 32))"
    using n unfolding dir_entry_bytes_def by (simp add: dentry_at_def take_takeWhile_append)
  also have "\<dots> = piece"
    using p by (simp add: piece_def listing_def dir_names_def field_string_def)
  finally have w: "take (unat n) (takeWhile (\<lambda>c. c \<noteq> 0) ?ds) = piece" .
  have "length ?ds = 64" by (simp add: dir_entry_bytes_def dentry_at_def)
  then have loop: "dir_read_loop ?ds buf (unat n) 0 ?m =
      Inr (write_bytes ?m buf piece, length piece)"
    using n by (subst dir_read_loop_bytes) (simp_all add: w)
  have "length piece \<le> 32"
    using n p by (simp add: piece_def listing_def dir_names_def)
  then have "sint (of_nat (length piece) :: u32) = int (length piece)"
    by (simp add: signed_of_nat signed_take_bit_int_eq_self)
  moreover have "\<not> num_dir_entries ?m ?bb \<le> of_nat ?p"
    using p unat_u32_less [of "num_dir_entries ?m ?bb"] by (simp add: word_le_nat_alt)
  ultimately show ?thesis
    using read_dentry_by_index_at [OF p] loop by (simp add: dir_read_def pos)
qed

lemma dir_ready_frame:
  assumes "dir_ready fd buf n st" "m = write_bytes (vmem st) buf bs" "length bs \<le> unat n"
  shows "dir_ready fd buf n (set_vmem m (set_file_position fd v st))"
    "listing n (set_vmem m (set_file_position fd v st)) = listing n st"
proof -
  let ?bb = "g_boot_block st"
  have "apart (buf + of_nat 0) (length bs) ?bb (fs_length (vmem st) ?bb)"
    using assms unat_u32_less [of n] by (intro apart_sub) (auto simp: dir_ready_def)
  then have s: "same_image ?bb (fs_length (vmem st) ?bb) (vmem st) m"
    using assms unat_u32_less [of n] fs_ok_length [of "vmem st" "fs_ptrs st"]
    by (auto simp: dir_ready_def intro!: write_same_image)
  note c = same_image_counts [OF s]
  then have len: "fs_length m ?bb = fs_length (vmem st) ?bb" by (simp add: fs_length_def)
  show "dir_ready fd buf n (set_vmem m (set_file_position fd v st))"
    using assms(1) c len by (simp add: dir_ready_def fs_ok_def fs_ptrs_def)
  have "field_string m (dentry_addr ?bb (of_nat i)) 32 = field_string (vmem st) (dentry_addr ?bb (of_nat i)) 32"
    if "i < unat (num_dir_entries (vmem st) ?bb)" for i
  proof -
    have "unat (num_dir_entries (vmem st) ?bb) \<le> 63"
      using assms(1) by (simp add: dir_ready_def fs_ok_def fs_ptrs_def word_le_nat_alt)
    then have i: "i < 63" using that by simp
    have "bytes m (dentry_addr ?bb (of_nat i)) 32 = bytes (vmem st) (dentry_addr ?bb (of_nat i)) 32"
    proof (rule bytes_cong)
      fix j :: nat assume "j < 32"
      then have "64 + 64 * i + j < fs_length (vmem st) ?bb" using i fs_length_ge [of "vmem st" ?bb] by simp
      from same_image_nth [OF s this]
      show "m (dentry_addr ?bb (of_nat i) + of_nat j) = vmem st (dentry_addr ?bb (of_nat i) + of_nat j)"
        by (simp add: dentry_addr_def algebra_simps)
    qed
    then show ?thesis by (simp add: field_string_def)
  qed
  then show "listing n (set_vmem m (set_file_position fd v st)) = listing n st"
    using c by (simp add: listing_def dir_names_def)
qed

interpretation dir_reader: sequential_reader "dir_ready fd buf n" "listing n"
  "open_file_position fd" 1 "dir_read_step fd buf n"
proof unfold_locales
  fix s :: "'a fsys_scheme" and s' xs
  assume ok: "dir_ready fd buf n s"
  then have n: "n \<le> 32" and num: "unat (num_dir_entries (vmem s) (g_boot_block s)) \<le> 63"
    by (simp_all add: dir_ready_def fs_ok_def fs_ptrs_def word_le_nat_alt)
  show "0 < (1 :: nat)" by simp
  assume step: "dir_read_step fd buf n s = (s', xs)"
  {
    assume inside: "open_file_position fd s < length (listing n s)"
    let ?p = "open_file_position fd s"
    define piece where "piece = listing n s ! ?p"
    have len: "length piece \<le> unat n"
      using inside by (simp add: piece_def listing_def dir_names_def)
    then have len32: "length piece \<le> 4294967296" using unat_u32_less [of n] by simp
    have p: "unat (of_nat ?p + 1 :: u32) = ?p + 1" "(of_nat ?p + 1 :: u32) \<noteq> 0"
    proof -
      show u: "unat (of_nat ?p + 1 :: u32) = ?p + 1"
        using inside num unat_of_nat_u32 [of "?p + 1"] by (simp add: add.commute)
      show "(of_nat ?p + 1 :: u32) \<noteq> 0" using u by (metis add_is_0 one_neq_zero unat_0)
    qed
    have xs: "xs = [piece]" and s': "s' = set_vmem (write_bytes (vmem s) buf piece)
        (set_file_position fd (of_nat ?p + 1) s)"
      using step dir_read_inside [OF n inside, of buf] p(2) len32
      by (simp_all add: dir_read_step_def piece_def [symmetric] bytes_write_same)
    have "take 1 (drop ?p (listing n s)) = [piece]"
      using inside by (simp add: piece_def take_Suc_conv_app_nth [of 0, simplified] hd_drop_conv_nth take_Suc)
    then show "xs = take 1 (drop ?p (listing n s)) \<and>
      open_file_position fd s' = ?p + length xs \<and> listing n s' = listing n s \<and> dir_ready fd buf n s'"
      using dir_ready_frame [OF ok refl len] p(1) unfolding xs s' by (simp add: open_file_position_def)
  }
  {
    assume "length (listing n s) \<le> open_file_position fd s"
    then have "xs = []" "s' = set_file_position fd 0 s"
      using step by (auto simp: dir_read_step_def dir_read_at_end)
    then show "xs = [] \<and> open_file_position fd s' = 0 \<and> listing n s' = listing n s \<and> dir_ready fd buf n s'"
      using ok by (simp add: dir_ready_def listing_def)
  }
qed

section \<open>An example state\<close>

text \<open>Process 1 with the example image, file \<open>foo\<close> open as descriptor 2 and the directory as 3.\<close>

definition example_fd :: "driver \<Rightarrow> u32 \<Rightarrow> file_desc" where
  "example_fd d k = \<lparr>operations_table = \<lparr>read_op = Some d, write_op = Some d, open_op = Some d, close_op = Some d\<rparr>,
     inode = k, file_position = 0, fd_flags = 1\<rparr>"

definition example_pcb :: pcb where
  "example_pcb = \<lparr>process_id = 1, exit_status = 0,
     files = (\<lambda>_. (example_fd Dir 0)\<lparr>fd_flags := 0\<rparr>)(2 := example_fd File 1, 3 := example_fd Dir 0),
     args = (\<lambda>_. 0), pname = [], child_pcb = 0, parent_pcb = 0, pcb_ebp = 0, sched_ebp = 0\<rparr>"

definition example_proc :: proc where
  "example_proc = \<lparr>phys = example_image, out_log = [], int_flag = False, esp = 0x7FFF00, ebp = 0x7FFF20, debug_regs = \<lambda>_. 0,
     master_mask = 0xFF, slave_mask = 0xFF, pdt = \<lambda>_. 0, pt0 = \<lambda>_. 0, pt_vidmap = \<lambda>_. 0,
     at_pdt = 0x410000, at_pt0 = 0x411000, at_pt_vidmap = 0x412000, cr0 = 0, cr3 = 0, cr4 = 0,
     tlb_fresh = True, tss_esp0 = 0, tss_ss0 = 0, pcbs = \<lambda>_. example_pcb, aux_processes = 0,
     base_shell_live_bitmask = 1, base_shell_booted_bitmask = 1, shell_init_boot = 0,
     active_processes = (\<lambda>_. 0), cur_process = 1, cur_terminal = 1\<rparr>"

definition example_state :: fsys where
  "example_state = proc.extend example_proc
     (fsys.fields 0x400000 0x401000 0x403000)"

lemma example_state_simps:
  "vmem example_state = example_image" "fs_ptrs example_state = example_fs"
  "current_pcb example_state = example_pcb" "g_boot_block example_state = 0x400000"
  by (simp_all add: example_state_def example_proc_def fs_ptrs_def example_fs_def current_pcb_def
      proc.defs fsys.defs vmem_def remap_def user_mapped_def)

lemma example_ready:
  "file_ready 2 0x600000 2 example_state" "dir_ready 3 0x600000 4 example_state"
  "open_file_position 2 example_state = 0" "open_file_position 3 example_state = 0"
  "open_file_bytes 2 example_state = [104, 101, 108, 108, 111]"
  by (simp_all add: file_ready_def dir_ready_def open_file_position_def open_file_bytes_def
      example_state_simps example_ok example_file example_pcb_def example_fd_def apart_def)

section \<open>Properties\<close>

text \<open>C16: a program that reads an open regular file in pieces of any size, from position 0 until it has
  what \<open>file_read\<close> will give, gets the whole contents of the file in order; the next \<open>file_read\<close> returns
  0 and rewinds the descriptor, so the file can be read again.\<close>

theorem file_read_drains:
  assumes "file_ready fd buf n st" "open_file_position fd st = 0"
    and "repeat_read (file_read_step fd buf n) ((length (open_file_bytes fd st) + unat n - 1) div unat n) st =
      (st', xs)"
  shows "xs = open_file_bytes fd st \<and> snd (file_read fd buf n st') = 0 \<and>
    open_file_position fd (fst (file_read fd buf n st')) = 0 \<and>
    open_file_bytes fd (fst (file_read fd buf n st')) = open_file_bytes fd st"
proof -
  obtain st2 ys where step: "file_read_step fd buf n st' = (st2, ys)" by (cases "file_read_step fd buf n st'")
  then have st2: "st2 = fst (file_read fd buf n st')"
    by (auto simp: file_read_step_def split: prod.splits)
  note d = file_reader.drain [OF assms step]
  then have "file_read fd buf n st' = (set_file_position fd 0 st', 0)"
    using d by (intro file_read_at_end) simp
  then show ?thesis using d st2 by simp
qed

text \<open>C29: a program that reads an open directory gets the names of its entries one after the other, each
  cut to its buffer of up to 32 bytes, and after the last one a read returns 0 and rewinds.\<close>

theorem dir_read_lists:
  assumes "dir_ready fd buf n st" "open_file_position fd st = 0"
    and "repeat_read (dir_read_step fd buf n) (length (listing n st)) st = (st', xs)"
  shows "xs = map (take (unat n)) (dir_names (vmem st) (g_boot_block st)) \<and>
    (\<exists>st2. dir_read fd buf n st' = Inr (st2, 0) \<and> open_file_position fd st2 = 0)"
proof -
  obtain st2 ys where step: "dir_read_step fd buf n st' = (st2, ys)" by (cases "dir_read_step fd buf n st'")
  have "repeat_read (dir_read_step fd buf n) ((length (listing n st) + 1 - 1) div 1) st = (st', xs)"
    using assms(3) by simp
  note d = dir_reader.drain [OF assms(1,2) this step]
  then have "dir_read fd buf n st' = Inr (set_file_position fd 0 st', 0)"
    by (intro dir_read_at_end) simp
  then show ?thesis using d by (simp add: listing_def)
qed

lemma file_read_drains_witness:
  "snd (repeat_read (file_read_step 2 0x600000 2) 3 example_state) = [104, 101, 108, 108, 111]"
  using file_read_drains [of 2 "0x600000" 2 example_state, OF example_ready(1,3)
      surjective_pairing [of "repeat_read (file_read_step 2 0x600000 2)
        ((length (open_file_bytes 2 example_state) + unat (2 :: u32) - 1) div unat (2 :: u32)) example_state"],
      THEN conjunct1]
  by (simp add: example_ready numeral_3_eq_3)

lemma dir_read_lists_witness:
  "length (snd (repeat_read (dir_read_step 3 0x600000 4) 2 example_state)) = 2"
  using dir_read_lists [of 3 "0x600000" 4 example_state, OF example_ready(2,4)
      surjective_pairing [of "repeat_read (dir_read_step 3 0x600000 4)
        (length (listing 4 example_state)) example_state"], THEN conjunct1]
  by (simp add: example_state_simps example_counts dir_names_def)

end
