(* ===== verification/CConv.thy ===== *)
theory CConv imports CString begin

text \<open>
  The conversions of \<^verbatim>\<open>src/src/lib.c\<close>: in-place string reversal \<open>strrev\<close> and the numeral
  printer \<open>itoa\<close>, with the digit sequences they produce.
\<close>

section \<open>strrev and itoa\<close>

function strrev_loop :: "mem \<Rightarrow> addr \<Rightarrow> int \<Rightarrow> int \<Rightarrow> mem" where
  "strrev_loop m s beg fin =
     (if beg < fin then
        (let tmp = m (s + of_int fin);
             m = m(s + of_int fin := m (s + of_int beg));
             m = m(s + of_int beg := tmp)
         in strrev_loop m s (beg + 1) (fin - 1))
      else m)"
  by pat_completeness auto
termination by (relation "measure (\<lambda>(m, s, beg, fin). nat (fin - beg))") auto

declare strrev_loop.simps [simp del]

definition strrev :: "mem \<Rightarrow> addr \<Rightarrow> mem res" where
  "strrev m s = andthen (of_loop (strlen m s)) (\<lambda>n. Inr (strrev_loop m s 0 (sint (n - 1))))"

text \<open>One exchange of the loop: the outer bytes are swapped, the rest is reversed in between.\<close>

lemma reverse_ends:
  fixes b :: addr and j :: nat
  assumes "Suc (Suc j) \<le> 4294967296"
  defines "e \<equiv> b + of_nat (Suc j)"
  shows "write_bytes (m(e := m b, b := m e)) (b + 1) (rev (bytes m (b + 1) j)) =
    write_bytes m b (rev (bytes m b (Suc (Suc j))))"
    (is "?L = _")
proof -
  have eb: "e \<noteq> b"
  proof
    assume "e = b"
    then have "of_nat (Suc j) = (0 :: u32)" by (simp add: e_def)
    then have "unat (of_nat (Suc j) :: u32) = 0" by simp
    then show False using assms(1) unat_of_nat_u32 [of "Suc j"] by simp
  qed
  have L: "?L x = (if inside (b + 1) j x then rev (bytes m (b + 1) j) ! unat (x - (b + 1))
      else if x = b then m e else if x = e then m b else m x)" for x
    using assms(1) by (simp add: write_bytes_apply)
  show ?thesis
  proof (rule write_bytes_eqI)
    fix i assume "i < length (rev (bytes m b (Suc (Suc j))))"
    then have i: "i < Suc (Suc j)" by simp
    have u: "unat (b + of_nat i - (b + 1)) = i - 1" if "0 < i"
    proof -
      have "b + of_nat i - (b + 1) = of_nat (i - 1)" using that by (simp add: of_nat_diff)
      then show ?thesis using i assms(1) by simp
    qed
    have r: "rev (bytes m b (Suc (Suc j))) ! i = m (b + of_nat (Suc j - i))"
      using i by (simp add: rev_nth)
    consider "i = 0" | "i = Suc j" | "0 < i" "i \<le> j" using i by linarith
    then show "?L (b + of_nat i) = rev (bytes m b (Suc (Suc j))) ! i"
    proof cases
      case 1
      have "\<not> inside (b + 1) j b" using assms(1) by (simp add: inside_def)
      then show ?thesis unfolding r L using 1 by (simp add: e_def)
    next
      case 2
      have "\<not> inside (b + 1) j (b + of_nat i)" using 2 u by (simp add: inside_def)
      then show ?thesis unfolding r L using 2 eb by (simp add: e_def)
    next
      case 3
      have "inside (b + 1) j (b + of_nat i)" using 3 u by (simp add: inside_def)
      moreover have "rev (bytes m (b + 1) j) ! (i - 1) = m (b + 1 + of_nat (j - i))"
        using 3 by (simp add: rev_nth)
      moreover have "b + 1 + of_nat (j - i) = b + of_nat (Suc j - i)"
        using 3 by (simp add: Suc_diff_le)
      ultimately show ?thesis unfolding r L using 3(1) u by simp
    qed
  next
    fix x assume "\<not> inside b (length (rev (bytes m b (Suc (Suc j))))) x"
    then have out: "\<not> inside b (Suc (Suc j)) x" by simp
    have off: "x \<noteq> b + of_nat p" if "p < Suc (Suc j)" for p
      using inside_offset [OF that assms(1), of b] out by auto
    have "\<not> inside (b + 1) j x"
    proof
      assume "inside (b + 1) j x"
      then obtain p where "p < j" "x = b + 1 + of_nat p" by (rule inside_obtain)
      then show False using off [of "Suc p"] by (simp add: algebra_simps)
    qed
    moreover have "x \<noteq> b" "x \<noteq> e" using off [of 0] off [of "Suc j"] by (simp_all add: e_def)
    ultimately show "?L x = m x" unfolding L by simp
  qed (use assms(1) in simp)
qed

lemma strrev_loop_bytes:
  "b + k \<le> 4294967296 \<Longrightarrow>
    strrev_loop m s (int b) (int b + int k - 1) =
      write_bytes m (s + of_nat b) (rev (bytes m (s + of_nat b) k))"
proof (induction k arbitrary: m b rule: less_induct)
  case (less k)
  consider "k = 0" | "k = 1" | j where "k = Suc (Suc j)"
    by (metis One_nat_def not0_implies_Suc)
  then show ?case
  proof cases
    case 3
    let ?b = "s + of_nat b"
    let ?e = "?b + of_nat (Suc j)"
    let ?m = "m(?e := m ?b, ?b := m ?e)"
    have adr: "s + of_int (int b) = ?b" "s + of_int (int b + int k - 1) = ?e"
      using 3 by (simp_all add: algebra_simps)
    have "strrev_loop m s (int b) (int b + int k - 1) =
        strrev_loop ?m s (int b + 1) (int b + int k - 1 - 1)"
      using 3 unfolding strrev_loop.simps [of m s "int b"] Let_def adr by simp
    also have "\<dots> = strrev_loop ?m s (int (Suc b)) (int (Suc b) + int j - 1)"
      using 3 by (simp add: algebra_simps)
    also have "\<dots> = write_bytes ?m (s + of_nat (Suc b)) (rev (bytes ?m (s + of_nat (Suc b)) j))"
      using less.prems 3 by (intro less.IH) auto
    also have "s + of_nat (Suc b) = ?b + 1" by simp
    also have "bytes ?m (?b + 1) j = bytes m (?b + 1) j"
    proof (rule bytes_cong)
      fix i assume i: "i < j"
      have "Suc i < 4294967296" "Suc j < 4294967296" using i less.prems 3 by simp_all
      then have "of_nat (Suc i) \<noteq> (of_nat 0 :: u32)" "of_nat (Suc i) \<noteq> (of_nat (Suc j) :: u32)"
        using i by (subst of_nat_eq_u32; simp)+
      then have "?b + 1 + of_nat i \<noteq> ?b" "?b + 1 + of_nat i \<noteq> ?e"
        by (auto simp: add.assoc)
      then show "?m (?b + 1 + of_nat i) = m (?b + 1 + of_nat i)" by simp
    qed
    also have "write_bytes ?m (?b + 1) (rev (bytes m (?b + 1) j)) = write_bytes m ?b (rev (bytes m ?b k))"
      using less.prems unfolding 3 by (intro reverse_ends) simp
    finally show ?thesis .
  qed (simp_all add: strrev_loop.simps bytes_def)
qed

text \<open>\<open>strrev\<close> reverses a string in place and touches nothing else.\<close>

lemma strrev_cstring:
  assumes "cstring m s str" "length str \<le> 2147483648"
  shows "strrev m s = Inr (write_bytes m s (rev str))"
proof -
  have len: "strlen m s = Some (of_nat (length str))" using assms(1) by (rule strlen_cstring)
  have bs: "bytes m s (length str) = str" using assms(1) by (simp add: cstring_def)
  have last: "sint (of_nat (length str) - 1 :: u32) = int (length str) - 1"
  proof (cases "length str")
    case (Suc k)
    have "of_nat (length str) - 1 = (of_nat k :: u32)" using Suc by simp
    moreover have "sint (of_nat k :: u32) = signed_take_bit 31 (int k)"
      by (simp add: signed_of_nat)
    moreover have "signed_take_bit 31 (int k) = int k"
      using assms(2) Suc by (intro signed_take_bit_int_eq_self) auto
    ultimately show ?thesis using Suc by simp
  qed simp
  show ?thesis
    using strrev_loop_bytes [of 0 "length str" m s] assms(2) bs
    by (simp add: strrev_def len last)
qed

text \<open>
  \<open>itoa\<close>.  The table \<^verbatim>\<open>lookup\<close> holds the characters of \<open>0\<close> to \<open>9\<close> and \<open>A\<close> to \<open>Z\<close> and the NUL of the literal.
  The loop meets a divide error for radix 0, reads past the table for a digit above 36, and for radix 1
  never ends, because the quotient by 1 never gets smaller.
\<close>

definition itoa_lookup :: "u8 list" where
  "itoa_lookup = map of_nat ([48..<58] @ [65..<91]) @ [0]"

function itoa_loop :: "mem \<Rightarrow> addr \<Rightarrow> nat \<Rightarrow> nat \<Rightarrow> (mem \<times> addr) res" where
  "itoa_loop m newbuf newval radix =
     (if newval > 0 then
        (if radix = 0 then Inl DivideError
         else if length itoa_lookup \<le> newval mod radix then Inl OutOfBounds
         else if radix = 1 then Inl Diverges
         else itoa_loop (m(newbuf := itoa_lookup ! (newval mod radix))) (newbuf + 1)
                (newval div radix) radix)
      else Inr (m, newbuf))"
  by pat_completeness auto
termination by (relation "measure (\<lambda>(m, newbuf, newval, radix). newval)") auto

declare itoa_loop.simps [simp del]

definition itoa :: "mem \<Rightarrow> u32 \<Rightarrow> addr \<Rightarrow> u32 \<Rightarrow> mem res" where
  "itoa m val buf radix =
     (if val = 0 then Inr (m(buf := 48, buf + 1 := 0))
      else andthen (itoa_loop m buf (unat val) (unat radix))
        (\<lambda>(m', newbuf). strrev (m'(newbuf := 0)) buf))"

text \<open>The digits of a number, lowest place first, and their value.\<close>

fun digits_lsb :: "nat \<Rightarrow> nat \<Rightarrow> nat list" where
  "digits_lsb r v = (if v = 0 \<or> r \<le> 1 then [] else v mod r # digits_lsb r (v div r))"

declare digits_lsb.simps [simp del]

definition numeral_digits :: "nat \<Rightarrow> nat \<Rightarrow> nat list" where
  "numeral_digits r v = (if v = 0 then [0] else rev (digits_lsb r v))"

definition numeral_value :: "nat \<Rightarrow> nat list \<Rightarrow> nat" where
  "numeral_value r ds = foldl (\<lambda>v d. v * r + d) 0 ds"

lemma digits_lsb_value: "2 \<le> r \<Longrightarrow> foldr (\<lambda>d v. v * r + d) (digits_lsb r v) 0 = v"
proof (induction r v rule: digits_lsb.induct)
  case (1 r v)
  then show ?case by (subst digits_lsb.simps) auto
qed

lemma numeral_value_digits: "2 \<le> r \<Longrightarrow> numeral_value r (numeral_digits r v) = v"
  using digits_lsb_value [of r v]
  by (auto simp: numeral_value_def numeral_digits_def foldl_conv_foldr)

lemma digits_lsb_less: "d \<in> set (digits_lsb r v) \<Longrightarrow> d < r"
proof (induction r v rule: digits_lsb.induct)
  case (1 r v)
  then show ?case by (subst (asm) (2) digits_lsb.simps) (auto split: if_splits)
qed

lemma numeral_digits_less: "d \<in> set (numeral_digits r v) \<Longrightarrow> 2 \<le> r \<Longrightarrow> d < r"
  using digits_lsb_less by (fastforce simp: numeral_digits_def split: if_splits)

lemma digits_lsb_length: "v < 2 ^ k \<Longrightarrow> length (digits_lsb r v) \<le> k"
proof (induction k arbitrary: v)
  case 0
  then show ?case by (simp add: digits_lsb.simps)
next
  case (Suc k)
  show ?case
  proof (cases "v = 0 \<or> r \<le> 1")
    case False
    then have "v div r \<le> v div 2" by (intro div_le_mono2) auto
    with Suc.prems have "v div r < 2 ^ k" by simp
    with False Suc.IH show ?thesis by (subst digits_lsb.simps) simp
  qed (auto simp: digits_lsb.simps)
qed

lemma itoa_lookup_nz: "d < 36 \<Longrightarrow> itoa_lookup ! d \<noteq> 0"
proof -
  have "\<forall>d < 36. itoa_lookup ! d \<noteq> 0" by code_simp
  then show "d < 36 \<Longrightarrow> itoa_lookup ! d \<noteq> 0" by blast
qed

lemma itoa_loop_bytes:
  "2 \<le> r \<Longrightarrow> r \<le> 36 \<Longrightarrow>
    itoa_loop m a v r =
      Inr (write_bytes m a (map ((!) itoa_lookup) (digits_lsb r v)), a + of_nat (length (digits_lsb r v)))"
proof (induction v arbitrary: m a rule: less_induct)
  case (less v)
  show ?case
  proof (cases "v = 0")
    case False
    have "v mod r < 36" using less.prems by (meson less_le_trans mod_less_divisor zero_less_numeral)
    moreover have "length itoa_lookup = 37" by code_simp
    ultimately have step: "itoa_loop m a v r =
        itoa_loop (m(a := itoa_lookup ! (v mod r))) (a + 1) (v div r) r"
      using less.prems False by (subst itoa_loop.simps) auto
    have "digits_lsb r v = v mod r # digits_lsb r (v div r)"
      using False less.prems by (subst digits_lsb.simps) simp
    then show ?thesis
      using False less.prems less.IH [of "v div r"]
      unfolding step by (simp add: algebra_simps del: fun_upd_apply)
  qed (simp add: itoa_loop.simps digits_lsb.simps)
qed

text \<open>For every radix of the table \<open>itoa\<close> leaves the numeral, most significant digit first, and a NUL.\<close>

lemma itoa_bytes:
  assumes "2 \<le> unat radix" "unat radix \<le> 36"
  shows "itoa m val buf radix =
    Inr (write_bytes m buf (map ((!) itoa_lookup) (numeral_digits (unat radix) (unat val)) @ [0]))"
proof (cases "val = 0")
  case True
  have "itoa_lookup ! 0 = 48" by code_simp
  then show ?thesis using True by (simp add: itoa_def numeral_digits_def)
next
  case False
  define ds where "ds = map ((!) itoa_lookup) (digits_lsb (unat radix) (unat val))"
  define m1 where "m1 = (write_bytes m buf ds)(buf + of_nat (length ds) := 0)"
  have m1: "m1 = write_bytes m buf (ds @ [0])"
    by (simp add: m1_def write_bytes_append)
  have len: "length ds \<le> 32"
    using digits_lsb_length [of "unat val" 32 "unat radix"] unat_u32_less [of val] by (simp add: ds_def)
  have nz: "0 \<notin> set ds"
  proof
    assume "0 \<in> set ds"
    then obtain d where "d \<in> set (digits_lsb (unat radix) (unat val))" "itoa_lookup ! d = 0"
      unfolding ds_def by (metis (no_types) ex_map_conv list.set_map imageE)
    then show False
      using itoa_lookup_nz [of d] digits_lsb_less [of d "unat radix" "unat val"] assms(2) by simp
  qed
  have "cstring m1 buf ds"
    unfolding m1 using len nz by (intro cstring_write) auto
  then have "strrev m1 buf = Inr (write_bytes m1 buf (rev ds))"
    using len by (intro strrev_cstring) auto
  also have "write_bytes m1 buf (rev ds) = write_bytes m buf (rev ds @ [0])"
    using len unfolding m1 by (intro write_bytes_overwrite) auto
  also have "rev ds = map ((!) itoa_lookup) (numeral_digits (unat radix) (unat val))"
    using False by (simp add: ds_def numeral_digits_def rev_map unat_eq_0)
  finally have "strrev m1 buf =
    Inr (write_bytes m buf (map ((!) itoa_lookup) (numeral_digits (unat radix) (unat val)) @ [0]))" .
  moreover have "itoa m val buf radix = strrev m1 buf"
    unfolding itoa_def itoa_loop_bytes [OF assms] using False by (simp add: m1_def ds_def)
  ultimately show ?thesis by simp
qed

section \<open>Properties\<close>

text \<open>C38: for every value and every radix from 2 to 36 \<open>itoa\<close> returns, and leaves a NUL-terminated
  string of the digits' characters whose digits, read most significant first, have the value that was
  printed.  For radix 1 and a value that is not 0 it never returns, and for radix 0 it divides by 0.\<close>

theorem itoa_prints:
  assumes "2 \<le> unat radix" "unat radix \<le> 36"
  shows "(\<exists>m' ds. itoa m val buf radix = Inr m' \<and> cstring m' buf (map ((!) itoa_lookup) ds) \<and>
      ds \<noteq> [] \<and> (\<forall>d \<in> set ds. d < unat radix) \<and> numeral_value (unat radix) ds = unat val) \<and>
    (val \<noteq> 0 \<longrightarrow> itoa m val buf 1 = Inl Diverges \<and> itoa m val buf 0 = Inl DivideError)"
proof
  let ?ds = "numeral_digits (unat radix) (unat val)"
  let ?m = "write_bytes m buf (map ((!) itoa_lookup) ?ds @ [0])"
  have less: "d < unat radix" if "d \<in> set ?ds" for d
    using numeral_digits_less [OF that] assms(1) by simp
  have "length ?ds \<le> 32"
    using digits_lsb_length [of "unat val" 32 "unat radix"] unat_u32_less [of val]
    by (auto simp: numeral_digits_def)
  moreover have "0 \<notin> set (map ((!) itoa_lookup) ?ds)"
  proof
    assume "0 \<in> set (map ((!) itoa_lookup) ?ds)"
    then obtain d where "d \<in> set ?ds" "itoa_lookup ! d = 0" by auto
    then show False using less itoa_lookup_nz [of d] assms(2) by fastforce
  qed
  ultimately have "cstring ?m buf (map ((!) itoa_lookup) ?ds)" by (intro cstring_write) auto
  moreover have "?ds \<noteq> []"
    using assms(1) by (auto simp: numeral_digits_def unat_eq_0 digits_lsb.simps)
  ultimately show "\<exists>m' ds. itoa m val buf radix = Inr m' \<and> cstring m' buf (map ((!) itoa_lookup) ds) \<and>
      ds \<noteq> [] \<and> (\<forall>d \<in> set ds. d < unat radix) \<and> numeral_value (unat radix) ds = unat val"
    using itoa_bytes [OF assms] less numeral_value_digits [OF assms(1)] by blast
next
  have "unat val \<noteq> 0" if "val \<noteq> 0" using that by (simp add: unat_eq_0)
  moreover have "length itoa_lookup = 37" by code_simp
  ultimately show "val \<noteq> 0 \<longrightarrow> itoa m val buf 1 = Inl Diverges \<and> itoa m val buf 0 = Inl DivideError"
    by (auto simp: itoa_def itoa_loop.simps [of _ _ "unat val"])
qed

lemma itoa_prints_witness:
  "\<exists>m' ds. itoa (\<lambda>_. 1) 0xDEADBEEF 0x1000 16 = Inr m' \<and> cstring m' 0x1000 (map ((!) itoa_lookup) ds) \<and>
    ds \<noteq> [] \<and> (\<forall>d \<in> set ds. d < 16) \<and> numeral_value 16 ds = 0xDEADBEEF"
  using itoa_prints [of 16 "\<lambda>_. 1" "0xDEADBEEF" "0x1000"] by simp

end
