(* ===== verification/Screen.thy ===== *)
theory Screen imports FileDrivers CConv "HOL-Library.Signed_Division" begin

text \<open>
  The console of \<^verbatim>\<open>src/src/lib.c\<close>: the text screen at 0xB8000 and the hidden pages of the two
  other terminals behind it, the three software cursors, and the output routines down to \<open>printf\<close>.
  A cell of the screen is two bytes, character and attribute.
\<close>

record console = fsys +
  screen_x :: "int \<Rightarrow> int"
  screen_y :: "int \<Rightarrow> int"

section \<open>The hardware cursor\<close>

definition update_cursor :: "int \<Rightarrow> int \<Rightarrow> 'a machine_scheme \<Rightarrow> 'a machine_scheme" where
  "update_cursor x y st =
     (let pos = (of_int (y * 80 + x) :: u16);
          st = outb 0x0F 0x3D4 st;
          st = outb (ucast (ucast (pos AND 0xFF) :: u8)) 0x3D5 st;
          st = outb 0x0E 0x3D4 st
      in outb (ucast (ucast (drop_bit 8 pos AND 0xFF) :: u8)) 0x3D5 st)"

text \<open>\<open>enable_cursor\<close>; \<open>r1\<close> and \<open>r2\<close> are the bytes the two \<^verbatim>\<open>inb\<close> read.\<close>

definition enable_cursor :: "u8 \<Rightarrow> u8 \<Rightarrow> 'a machine_scheme \<Rightarrow> 'a machine_scheme" where
  "enable_cursor r1 r2 st =
     (let st = outb 0x0A 0x3D4 st;
          st = outb (((ucast r1 :: u32) AND 0xC0) OR 14) 0x3D5 st;
          st = outb 0x0B 0x3D4 st
      in outb (((ucast r2 :: u32) AND 0xE0) OR 15) 0x3D5 st)"

section \<open>Characters\<close>

text \<open>The two nested loops that move the rows up, and the loop that blanks the last one.\<close>

definition scroll_cell :: "addr \<Rightarrow> nat \<Rightarrow> nat \<Rightarrow> mem \<Rightarrow> mem" where
  "scroll_cell base row col m =
     (let src = base + of_nat ((80 * row + col) * 2);
          dst = base + of_nat ((80 * (row - 1) + col) * 2);
          m = m(dst := m src)
      in m(dst + 1 := m (src + 1)))"

definition scroll_rows :: "addr \<Rightarrow> mem \<Rightarrow> mem" where
  "scroll_rows base m = fold (\<lambda>row m. fold (\<lambda>col m. scroll_cell base row col m) [0..<80] m) [1..<25] m"

definition clear_cell :: "addr \<Rightarrow> nat \<Rightarrow> mem \<Rightarrow> mem" where
  "clear_cell base i m = m(base + of_nat (i * 2) := 32, base + of_nat (i * 2) + 1 := 7)"

definition clear_last_line :: "addr \<Rightarrow> mem \<Rightarrow> mem" where
  "clear_last_line base m = fold (\<lambda>col m. clear_cell base (80 * 24 + col) m) [0..<80] m"

text \<open>
  The body that \<open>putc\<close> has twice: on the displayed screen, where the hardware cursor follows, and
  on the hidden page of another terminal.
\<close>

definition put_on :: "addr \<Rightarrow> int \<Rightarrow> bool \<Rightarrow> u8 \<Rightarrow> 'a console_scheme \<Rightarrow> 'a console_scheme" where
  "put_on base cursor_idx shown c st =
     (if c = 10 \<or> c = 13 then
        (let st = st\<lparr>screen_y := (screen_y st)(cursor_idx := screen_y st cursor_idx + 1)\<rparr>;
             st = st\<lparr>screen_x := (screen_x st)(cursor_idx := 0)\<rparr>;
             st = (if shown then update_cursor (screen_x st cursor_idx) (screen_y st cursor_idx) st else st)
         in if 25 \<le> screen_y st cursor_idx
            then (set_vmem (clear_last_line base (scroll_rows base (vmem st))) st)
                   \<lparr>screen_y := (screen_y st)(cursor_idx := 24)\<rparr>
            else st)
      else
        (let cell = base + of_int ((80 * screen_y st cursor_idx + screen_x st cursor_idx) * 2);
             st = set_vmem ((vmem st)(cell := c, cell + 1 := 7)) st;
             st = st\<lparr>screen_x := (screen_x st)(cursor_idx := screen_x st cursor_idx + 1)\<rparr>;
             st = st\<lparr>screen_x := (screen_x st)(cursor_idx := screen_x st cursor_idx smod 80)\<rparr>;
             st = st\<lparr>screen_y := (screen_y st)(cursor_idx :=
                    screen_y st cursor_idx + screen_x st cursor_idx sdiv 80)\<rparr>
         in if shown then update_cursor (screen_x st cursor_idx) (screen_y st cursor_idx) st else st))"

text \<open>The terminal the running process belongs to: the number of its base shell.\<close>

definition cur_process_local :: "'a proc_scheme \<Rightarrow> int res" where
  "cur_process_local st =
     (if base_shell_booted_bitmask st = 0 then Inr 1
      else andthen (of_loop (get_base_process_pcb (pcbs st) (current_pcb_addr st)))
        (\<lambda>a. Inr (process_id (pcbs st a))))"

definition putc :: "u8 \<Rightarrow> int \<Rightarrow> 'a console_scheme \<Rightarrow> 'a console_scheme res" where
  "putc c keyboard_print st =
     andthen (cur_process_local st) (\<lambda>p. Inr
       (if cur_terminal st = p \<or> keyboard_print \<noteq> 0
        then put_on 0xB8000 (cur_terminal st - 1) True c st
        else put_on (0xB8000 + 4096 * of_int p) (p - 1) False c st))"

definition putc_keyboard :: "u8 \<Rightarrow> 'a console_scheme \<Rightarrow> 'a console_scheme res" where
  "putc_keyboard c st = putc c 1 st"

primrec putc_all :: "u8 list \<Rightarrow> int \<Rightarrow> 'a console_scheme \<Rightarrow> 'a console_scheme res" where
  "putc_all [] k st = Inr st"
| "putc_all (c # cs) k st = andthen (putc c k st) (putc_all cs k)"

definition clear :: "'a console_scheme \<Rightarrow> 'a console_scheme res" where
  "clear st =
     (let st = set_vmem (fold (\<lambda>i m. clear_cell 0xB8000 i m) [0..<25 * 80] (vmem st)) st;
          cursor_idx = cur_terminal st - 1;
          st = st\<lparr>screen_y := (screen_y st)(cursor_idx := 0)\<rparr>;
          st = st\<lparr>screen_x := (screen_x st)(cursor_idx := 0)\<rparr>;
          st = update_cursor (screen_y st cursor_idx) (screen_x st cursor_idx) st
      in if process_id (current_pcb st) = 1 \<or> process_id (current_pcb st) = 2 \<or> process_id (current_pcb st) = 3
         then putc_all [51, 57, 49, 79, 83, 62, 32] 1 st
         else Inr st)"

text \<open>\<open>test_interrupts\<close> increments the character of every cell.\<close>

definition test_interrupts :: "'a vmm_scheme \<Rightarrow> 'a vmm_scheme" where
  "test_interrupts st =
     set_vmem (fold (\<lambda>i m. m(0xB8000 + of_nat (i * 2) := m (0xB8000 + of_nat (i * 2)) + 1)) [0..<25 * 80]
       (vmem st)) st"

section \<open>Strings and formats\<close>

definition run_loop :: "'a res option \<Rightarrow> 'a res" where
  "run_loop r = (case r of None \<Rightarrow> Inl Diverges | Some x \<Rightarrow> x)"

partial_function (option) puts_loop ::
  "addr \<Rightarrow> u32 \<Rightarrow> 'a console_scheme \<Rightarrow> ('a console_scheme \<times> u32) res option" where
  "puts_loop s index st =
     (if vmem st (s + index) \<noteq> 0
      then (case putc (vmem st (s + index)) 0 st of
              Inl e \<Rightarrow> Some (Inl e)
            | Inr st' \<Rightarrow> puts_loop s (index + 1) st')
      else Some (Inr (st, index)))"

definition puts :: "addr \<Rightarrow> 'a console_scheme \<Rightarrow> ('a console_scheme \<times> u32) res" where
  "puts s st = run_loop (puts_loop s 0 st)"

text \<open>\<open>itoa\<close> on the memory of a state.\<close>

definition itoa_st :: "u32 \<Rightarrow> addr \<Rightarrow> u32 \<Rightarrow> 'a vmm_scheme \<Rightarrow> 'a vmm_scheme res" where
  "itoa_st val buf radix st = andthen (itoa (vmem st) val buf radix) (\<lambda>m. Inr (set_vmem m st))"

text \<open>
  The conversions of \<open>printf\<close>.  The arguments behind the format are a list of words; taking one that
  was not passed is out of bounds.  \<open>conv_buf\<close> is the address of the local buffer.
\<close>

definition printf_hex :: "bool \<Rightarrow> addr \<Rightarrow> u32 \<Rightarrow> 'a console_scheme \<Rightarrow> 'a console_scheme res" where
  "printf_hex alternate conv_buf v st =
     (if \<not> alternate then
        andthen (itoa_st v conv_buf 16 st) (\<lambda>st. andthen (puts conv_buf st) (\<lambda>(st, n). Inr st))
      else
        andthen (itoa_st v (conv_buf + 8) 16 st) (\<lambda>st.
        andthen (of_loop (strlen (vmem st) (conv_buf + 8))) (\<lambda>starting_index.
          (let st = set_vmem (fold (\<lambda>i m. m(conv_buf + of_nat i := 48)) [unat starting_index..<8] (vmem st)) st
           in andthen (puts (conv_buf + starting_index) st) (\<lambda>(st, n). Inr st)))))"

definition printf_dec :: "addr \<Rightarrow> u32 \<Rightarrow> 'a console_scheme \<Rightarrow> 'a console_scheme res" where
  "printf_dec conv_buf v st =
     andthen (if v <s 0
              then itoa_st (- v) (conv_buf + 1) 10 (set_vmem ((vmem st)(conv_buf := 45)) st)
              else itoa_st v conv_buf 10 st)
       (\<lambda>st. andthen (puts conv_buf st) (\<lambda>(st, n). Inr st))"

definition next_arg :: "u32 list \<Rightarrow> u32 res" where
  "next_arg vs = (case vs of [] \<Rightarrow> Inl OutOfBounds | v # _ \<Rightarrow> Inr v)"

definition printf_conv ::
  "addr \<Rightarrow> u8 \<Rightarrow> bool \<Rightarrow> u32 list \<Rightarrow> 'a console_scheme \<Rightarrow> ('a console_scheme \<times> u32 list) res" where
  "printf_conv conv_buf c alternate vs st =
     (if c = 37 then andthen (putc 37 0 st) (\<lambda>st. Inr (st, vs))
      else if c = 120 then
        andthen (next_arg vs) (\<lambda>v. andthen (printf_hex alternate conv_buf v st) (\<lambda>st. Inr (st, tl vs)))
      else if c = 117 then
        andthen (next_arg vs) (\<lambda>v. andthen (itoa_st v conv_buf 10 st) (\<lambda>st.
          andthen (puts conv_buf st) (\<lambda>(st, n). Inr (st, tl vs))))
      else if c = 100 then
        andthen (next_arg vs) (\<lambda>v. andthen (printf_dec conv_buf v st) (\<lambda>st. Inr (st, tl vs)))
      else if c = 99 then
        andthen (next_arg vs) (\<lambda>v. andthen (putc (ucast v) 0 st) (\<lambda>st. Inr (st, tl vs)))
      else if c = 115 then
        andthen (next_arg vs) (\<lambda>v. andthen (puts v st) (\<lambda>(st, n). Inr (st, tl vs)))
      else Inr (st, vs))"

text \<open>The jump back to \<open>format_char_switch\<close> for every \<open>#\<close>.\<close>

partial_function (option) format_char_switch :: "mem \<Rightarrow> addr \<Rightarrow> bool \<Rightarrow> (addr \<times> bool) option" where
  "format_char_switch m buf alternate =
     (if m buf = 35 then format_char_switch m (buf + 1) True else Some (buf, alternate))"

partial_function (option) printf_loop ::
  "addr \<Rightarrow> addr \<Rightarrow> u32 list \<Rightarrow> 'a console_scheme \<Rightarrow> ('a console_scheme \<times> addr) res option" where
  "printf_loop conv_buf buf vs st =
     (if vmem st buf = 0 then Some (Inr (st, buf))
      else if vmem st buf = 37 then
        (case format_char_switch (vmem st) (buf + 1) False of
           None \<Rightarrow> None
         | Some ba \<Rightarrow>
             (case printf_conv conv_buf (vmem st (fst ba)) (snd ba) vs st of
                Inl e \<Rightarrow> Some (Inl e)
              | Inr sv \<Rightarrow> printf_loop conv_buf (fst ba + 1) (snd sv) (fst sv)))
      else
        (case putc (vmem st buf) 0 st of
           Inl e \<Rightarrow> Some (Inl e)
         | Inr st' \<Rightarrow> printf_loop conv_buf (buf + 1) vs st'))"

definition printf ::
  "addr \<Rightarrow> addr \<Rightarrow> u32 list \<Rightarrow> 'a console_scheme \<Rightarrow> ('a console_scheme \<times> u32) res" where
  "printf conv_buf format vs st =
     andthen (run_loop (printf_loop conv_buf format vs st)) (\<lambda>(st, buf). Inr (st, buf - format))"

section \<open>Scrolling\<close>

definition copy_cell :: "addr \<Rightarrow> nat \<Rightarrow> mem \<Rightarrow> mem" where
  "copy_cell base k m =
     (let m = m(base + of_nat (2 * (k - 80)) := m (base + of_nat (2 * k)))
      in m(base + of_nat (2 * (k - 80)) + 1 := m (base + of_nat (2 * k) + 1)))"

lemma scroll_cell_copy: "1 \<le> row \<Longrightarrow> scroll_cell base row col = copy_cell base (80 * row + col)"
proof -
  assume "1 \<le> row"
  then have "80 * (row - 1) + col = 80 * row + col - 80" by (simp add: diff_mult_distrib2)
  then have "(80 * (row - 1) + col) * 2 = 2 * (80 * row + col - 80)" by (simp only: mult.commute)
  moreover have "(80 * row + col) * 2 = 2 * (80 * row + col)" by (rule mult.commute)
  ultimately show ?thesis unfolding scroll_cell_def copy_cell_def Let_def by (simp only:)
qed

lemma fold_rows:
  "fold (\<lambda>row m. fold (\<lambda>col m. scroll_cell base row col m) [0..<80] m) [1..<Suc n] m =
    fold (copy_cell base) [80..<80 * Suc n] m"
proof (induction n)
  case (Suc n)
  have "[80..<80 * Suc (Suc n)] = [80..<80 * Suc n] @ map (\<lambda>col. 80 * Suc n + col) [0..<80]"
    by (simp add: upt_add_eq_append [of 80 "80 * Suc n" 80, simplified] map_add_upt add.commute)
  moreover have "fold (\<lambda>col m. scroll_cell base (Suc n) col m) [0..<80] m' =
      fold (copy_cell base) (map (\<lambda>col. 80 * Suc n + col) [0..<80]) m'" for m'
    by (simp add: fold_map scroll_cell_copy comp_def)
  ultimately show ?case using Suc by simp
qed simp

lemma copy_cells:
  assumes "n \<le> 1920"
  shows "fold (copy_cell base) [80..<80 + n] m = write_bytes m base (bytes m (base + 160) (2 * n))"
  using assms
proof (induction n)
  case (Suc n)
  let ?m = "write_bytes m base (bytes m (base + 160) (2 * n))"
  have src: "?m (base + of_nat (160 + 2 * n + j)) = m (base + 160 + of_nat (2 * n + j))" if "j < 2" for j
  proof -
    have "\<not> inside base (2 * n) (base + of_nat (160 + 2 * n + j))"
      using that Suc.prems unfolding inside_def add_diff_cancel_left' by (subst unat_of_nat_u32) auto
    then show ?thesis using Suc.prems by (simp add: write_bytes_apply algebra_simps)
  qed
  have ne: "base + of_nat (160 + 2 * n + 1) \<noteq> base + of_nat (2 * n)"
  proof -
    have "of_nat (160 + 2 * n + 1) \<noteq> (of_nat (2 * n) :: u32)"
      using Suc.prems by (subst of_nat_eq_u32) auto
    then show ?thesis by simp
  qed
  have step: "copy_cell base (80 + n) ?m =
      ?m(base + of_nat (2 * n) := m (base + 160 + of_nat (2 * n)),
         base + of_nat (2 * n) + 1 := m (base + 160 + of_nat (2 * n + 1)))"
    using src [of 0] src [of 1] ne by (simp add: copy_cell_def algebra_simps)
  have "bytes m (base + 160) (2 * Suc n) =
      bytes m (base + 160) (2 * n) @ [m (base + 160 + of_nat (2 * n)), m (base + 160 + of_nat (2 * n + 1))]"
    using bytes_add [of m "base + 160" "2 * n" 2] by (simp add: bytes_def eval_nat_numeral algebra_simps)
  then have "write_bytes m base (bytes m (base + 160) (2 * Suc n)) = copy_cell base (80 + n) ?m"
    unfolding step by (simp add: write_bytes_append)
  moreover have "[80..<80 + Suc n] = [80..<80 + n] @ [80 + n]"
    using upt_Suc_append [of 80 "80 + n"] by (simp only: add_Suc_right le_add1)
  ultimately show ?case using Suc by (simp only: fold_append fold.simps comp_apply id_apply Suc_leD)
qed simp

lemma clear_cells:
  "fold (\<lambda>i m. clear_cell base (k + i) m) [0..<n] m =
    write_bytes m (base + of_nat (2 * k)) (concat (replicate n [32, 7]))"
proof (induction n)
  case (Suc n)
  have len: "length (concat (replicate n [32, 7 :: u8])) = 2 * n" by (induction n) auto
  have rep: "concat (replicate (Suc n) [32, 7 :: u8]) = concat (replicate n [32, 7]) @ [32, 7]"
    by (simp flip: replicate_append_same)
  have "clear_cell base (k + n) m' = write_bytes m' (base + of_nat (2 * k) + of_nat (2 * n)) [32, 7]" for m'
    by (simp add: clear_cell_def algebra_simps)
  then show ?case using Suc unfolding rep write_bytes_append len by simp
qed simp

text \<open>Scrolling the page at \<open>base\<close>: the lower 24 rows move up one row and a blank row follows.\<close>

definition scrolled :: "addr \<Rightarrow> mem \<Rightarrow> mem" where
  "scrolled base m = write_bytes m base (bytes m (base + 160) 3840 @ concat (replicate 80 [32, 7]))"

lemma scroll_page: "clear_last_line base (scroll_rows base m) = scrolled base m"
proof -
  have "80 * Suc 24 = 80 + (1920 :: nat)" "Suc 24 = (25 :: nat)" by simp_all
  then have "scroll_rows base m = fold (copy_cell base) [80..<80 + 1920] m"
    using fold_rows [of base 24 m] unfolding scroll_rows_def by (simp only:)
  then have rows: "scroll_rows base m = write_bytes m base (bytes m (base + 160) (2 * 1920))"
    using copy_cells [of 1920 base m] by (simp only: order.refl simp_thms)
  have "80 * 24 = (1920 :: nat)" "2 * 1920 = (3840 :: nat)" by simp_all
  then show ?thesis
    using clear_cells [of base 1920 80 "scroll_rows base m"]
    unfolding scrolled_def write_bytes_append clear_last_line_def rows length_bytes by (simp only:)
qed

lemma clear_page:
  "fold (\<lambda>i m. clear_cell base i m) [0..<25 * 80] m = write_bytes m base (concat (replicate 2000 [32, 7]))"
proof -
  have "25 * 80 = (2000 :: nat)" "base + of_nat (2 * 0) = base" by simp_all
  then show ?thesis
    using clear_cells [of base 0 2000 m] by (simp only: add_0)
qed

section \<open>What the output routines leave alone\<close>

lemma outb_frames [simp]:
  "vmem (outb d p s1) = vmem s1" "tlb_fresh (outb d p s1) = tlb_fresh s1" "pdt (outb d p s1) = pdt s1"
  "pt_vidmap (outb d p s1) = pt_vidmap s1" "tss_esp0 (outb d p s1) = tss_esp0 s1"
  "current_pcb_addr (outb d p s1) = current_pcb_addr s1"
  "pcbs (outb d p s2) = pcbs s2" "base_shell_booted_bitmask (outb d p s2) = base_shell_booted_bitmask s2"
  "base_shell_live_bitmask (outb d p s2) = base_shell_live_bitmask s2"
  "cur_terminal (outb d p s2) = cur_terminal s2" "cur_process (outb d p s2) = cur_process s2"
  "shell_init_boot (outb d p s2) = shell_init_boot s2" "active_processes (outb d p s2) = active_processes s2"
  "aux_processes (outb d p s2) = aux_processes s2" "current_pcb (outb d p s2) = current_pcb s2"
  "fs_ptrs (outb d p s3) = fs_ptrs s3" "g_boot_block (outb d p s3) = g_boot_block s3"
  "g_inodes (outb d p s3) = g_inodes s3"
  "screen_x (outb d p s4) = screen_x s4" "screen_y (outb d p s4) = screen_y s4"
  "console.more (outb d p s4) = console.more s4"
  by (simp_all add: outb_def vmem_def remap_def user_mapped_def fun_eq_iff current_pcb_addr_def
      current_pcb_def fs_ptrs_def)

lemma screen_update_frames [simp]:
  "vmem (st\<lparr>screen_x := f\<rparr>) = vmem st" "vmem (st\<lparr>screen_y := f\<rparr>) = vmem st"
  "current_pcb_addr (st\<lparr>screen_x := f\<rparr>) = current_pcb_addr st"
  "current_pcb_addr (st\<lparr>screen_y := f\<rparr>) = current_pcb_addr st"
  "fs_ptrs (st\<lparr>screen_x := f\<rparr>) = fs_ptrs st" "fs_ptrs (st\<lparr>screen_y := f\<rparr>) = fs_ptrs st"
  by (simp_all add: vmem_def remap_def user_mapped_def fun_eq_iff current_pcb_addr_def fs_ptrs_def)

lemma set_vmem_screen [simp]:
  "screen_x (set_vmem m st) = screen_x st" "screen_y (set_vmem m st) = screen_y st"
  "console.more (set_vmem m st) = console.more st"
  by (simp_all add: set_vmem_def)

lemma set_vmem_proc [simp]:
  "base_shell_booted_bitmask (set_vmem m st) = base_shell_booted_bitmask st"
  "base_shell_live_bitmask (set_vmem m st) = base_shell_live_bitmask st"
  "cur_terminal (set_vmem m st) = cur_terminal st" "cur_process (set_vmem m st) = cur_process st"
  "shell_init_boot (set_vmem m st) = shell_init_boot st"
  "active_processes (set_vmem m st) = active_processes st" "aux_processes (set_vmem m st) = aux_processes st"
  by (simp_all add: set_vmem_def)

text \<open>\<open>same_kernel s t\<close>: the two states agree on everything but memory, port output and cursors.\<close>

definition same_kernel :: "'a console_scheme \<Rightarrow> 'a console_scheme \<Rightarrow> bool" where
  "same_kernel s t \<longleftrightarrow>
     t = s\<lparr>phys := phys t, out_log := out_log t, screen_x := screen_x t, screen_y := screen_y t\<rparr>"

lemma same_kernel_refl [simp]: "same_kernel s s"
  by (simp add: same_kernel_def)

lemma same_kernel_trans: "same_kernel s t \<Longrightarrow> same_kernel t u \<Longrightarrow> same_kernel s u"
proof -
  assume st: "same_kernel s t" and tu: "same_kernel t u"
  have "u = t\<lparr>phys := phys u, out_log := out_log u, screen_x := screen_x u, screen_y := screen_y u\<rparr>"
    using tu by (simp only: same_kernel_def)
  also have "\<dots> = s\<lparr>phys := phys u, out_log := out_log u, screen_x := screen_x u, screen_y := screen_y u\<rparr>"
    by (subst st [unfolded same_kernel_def]) simp
  finally show ?thesis by (simp only: same_kernel_def)
qed

lemma same_kernel_eqs:
  assumes "same_kernel s t"
  shows "pcbs t = pcbs s" "current_pcb_addr t = current_pcb_addr s" "cur_terminal t = cur_terminal s"
    "base_shell_booted_bitmask t = base_shell_booted_bitmask s" "fs_ptrs t = fs_ptrs s"
    "current_pcb t = current_pcb s" "console.more t = console.more s" "int_flag t = int_flag s"
    "cur_process t = cur_process s" "esp t = esp s" "pdt t = pdt s"
    "active_processes t = active_processes s" "aux_processes t = aux_processes s"
    "base_shell_live_bitmask t = base_shell_live_bitmask s" "shell_init_boot t = shell_init_boot s"
    "g_boot_block t = g_boot_block s" "tss_esp0 t = tss_esp0 s" "tlb_fresh t = tlb_fresh s"
  unfolding current_pcb_addr_def current_pcb_def fs_ptrs_def
  by (subst assms [unfolded same_kernel_def], simp)+

text \<open>The page of memory an output goes to, its terminal, and cursors on the screen.\<close>

definition on_screen :: "int \<Rightarrow> 'a console_scheme \<Rightarrow> bool" where
  "on_screen i st \<longleftrightarrow> 0 \<le> screen_x st i \<and> screen_x st i < 80 \<and> 0 \<le> screen_y st i \<and> screen_y st i < 25"

definition page_base :: "bool \<Rightarrow> int \<Rightarrow> addr" where
  "page_base shown p = (if shown then 0xB8000 else 0xB8000 + 4096 * of_int p)"

lemma smod_80: "0 \<le> (x :: int) \<Longrightarrow> x < 80 \<Longrightarrow> (x + 1) smod 80 = (if x = 79 then 0 else x + 1)"
  by (auto simp: signed_modulo_int_def)

lemma sdiv_80: "0 \<le> x \<Longrightarrow> x < 80 \<Longrightarrow> x sdiv (80 :: int) = 0"
  by (simp add: signed_divide_int_def)

lemma same_kernel_steps:
  assumes "same_kernel s t"
  shows "same_kernel s (outb d p t)" "same_kernel s (set_vmem m t)"
    "same_kernel s (t\<lparr>screen_x := f\<rparr>)" "same_kernel s (t\<lparr>screen_y := f\<rparr>)"
  by (rule same_kernel_trans [OF assms], simp add: same_kernel_def outb_def set_vmem_def)+

lemma update_cursor_same_kernel: "same_kernel s t \<Longrightarrow> same_kernel s (update_cursor x y t)"
  unfolding update_cursor_def Let_def by (intro same_kernel_steps)

lemma same_kernel_if: "same_kernel s t \<Longrightarrow> same_kernel s u \<Longrightarrow> same_kernel s (if b then t else u)"
  by simp

lemma put_on_same_kernel: "same_kernel st (put_on base i shown c st)"
  unfolding put_on_def Let_def
  by (intro same_kernel_if same_kernel_steps update_cursor_same_kernel same_kernel_refl)

text \<open>
  What one character does to a cursor on the screen: a line feed goes to the next row, or scrolls;
  any other character is stored with the attribute 7 and the column advances, wrapping to the start
  of the same row.
\<close>

lemma put_on_newline:
  assumes "c = 10 \<or> c = 13" "on_screen i st"
  shows "vmem (put_on base i shown c st) = (if screen_y st i = 24 then scrolled base (vmem st) else vmem st)"
    "screen_x (put_on base i shown c st) = (screen_x st)(i := 0)"
    "screen_y (put_on base i shown c st) = (screen_y st)(i := min 24 (screen_y st i + 1))"
  using assms
  by (auto simp: put_on_def Let_def update_cursor_def scroll_page on_screen_def)

lemma put_on_char:
  fixes base :: addr
  assumes "c \<noteq> 10" "c \<noteq> 13" "on_screen i st"
  defines "cell \<equiv> base + of_int ((80 * screen_y st i + screen_x st i) * 2)"
  shows "vmem (put_on base i shown c st) = (vmem st)(cell := c, cell + 1 := 7)"
    "screen_x (put_on base i shown c st) =
       (screen_x st)(i := if screen_x st i = 79 then 0 else screen_x st i + 1)"
    "screen_y (put_on base i shown c st) = screen_y st"
  using assms
  by (auto simp: put_on_def Let_def update_cursor_def on_screen_def smod_80 sdiv_80)

lemma put_on_screen: "on_screen i st \<Longrightarrow> on_screen j st \<Longrightarrow> on_screen j (put_on base i shown c st)"
  by (cases "c = 10 \<or> c = 13") (auto simp: on_screen_def put_on_newline put_on_char)

section \<open>Output stays on its page\<close>

definition consoles_ok :: "'a console_scheme \<Rightarrow> bool" where
  "consoles_ok st \<longleftrightarrow> 1 \<le> cur_terminal st \<and> cur_terminal st \<le> 3 \<and>
     on_screen 0 st \<and> on_screen 1 st \<and> on_screen 2 st"

lemma consoles_ok_screen: "consoles_ok st \<Longrightarrow> 1 \<le> t \<Longrightarrow> t \<le> 3 \<Longrightarrow> on_screen (t - 1) st"
proof -
  assume ok: "consoles_ok st" and "1 \<le> t" "t \<le> 3"
  then have "t - 1 = 0 \<or> t - 1 = 1 \<or> t - 1 = 2" by linarith
  then show ?thesis using ok by (auto simp: consoles_ok_def)
qed

lemma consoles_ok_put_on: "consoles_ok st \<Longrightarrow> on_screen i st \<Longrightarrow> consoles_ok (put_on base i shown c st)"
  using put_on_screen [of i st] same_kernel_eqs(3) [OF put_on_same_kernel [of st base i shown c]]
  by (simp add: consoles_ok_def)

text \<open>The bytes one character changes are two of the 4000 of its page.\<close>

lemma cell_inside:
  assumes "0 \<le> x" "x < (80 :: int)" "0 \<le> y" "y < (25 :: int)"
  shows "inside base 4000 (base + of_int ((80 * y + x) * 2))"
    "inside base 4000 (base + of_int ((80 * y + x) * 2) + 1)"
proof -
  define k where "k = nat ((80 * y + x) * 2)"
  have "80 * y + x < 2000" "0 \<le> 80 * y + x" using assms by auto
  then have "(80 * y + x) * 2 < 3999" "0 \<le> (80 * y + x) * 2" by auto
  then have k: "Suc k < 4000" "(of_int ((80 * y + x) * 2) :: addr) = of_nat k"
    by (simp_all add: k_def)
  then show "inside base 4000 (base + of_int ((80 * y + x) * 2))"
    using inside_offset [of k 4000 base] by simp
  have suc: "base + of_int ((80 * y + x) * 2) + 1 = base + of_nat (Suc k)" unfolding k(2) by simp
  show "inside base 4000 (base + of_int ((80 * y + x) * 2) + 1)"
    unfolding suc using k(1) by (intro inside_offset) simp_all
qed

lemma length_blank_row: "length (concat (replicate 80 [32, 7 :: u8])) = 160"
  by (simp add: length_concat sum_list_replicate)

lemma put_on_outside:
  assumes "on_screen i st" "\<not> inside base 4000 a"
  shows "vmem (put_on base i shown c st) a = vmem st a"
proof (cases "c = 10 \<or> c = 13")
  case True
  have "scrolled base (vmem st) a = vmem st a"
    unfolding scrolled_def using assms(2)
    by (intro write_bytes_outside) (simp_all only: length_append length_bytes length_blank_row, simp_all)
  then show ?thesis using True assms(1) by (simp add: put_on_newline)
next
  case False
  then show ?thesis
    using assms cell_inside [of "screen_x st i" "screen_y st i" base]
    by (auto simp: put_on_char on_screen_def)
qed

definition output_page :: "int \<Rightarrow> 'a console_scheme \<Rightarrow> int \<Rightarrow> addr" where
  "output_page k st p = page_base (cur_terminal st = p \<or> k \<noteq> 0) p"

lemma putc_step:
  assumes "consoles_ok st" "cur_process_local st = Inr p" "1 \<le> p" "p \<le> 3"
  shows "\<exists>st'. putc c k st = Inr st' \<and> consoles_ok st' \<and> same_kernel st st' \<and>
    (\<forall>a. \<not> inside (output_page k st p) 4000 a \<longrightarrow> vmem st' a = vmem st a)"
proof -
  let ?sh = "cur_terminal st = p \<or> k \<noteq> 0"
  define i where "i = (if ?sh then cur_terminal st - 1 else p - 1)"
  have i: "on_screen i st"
    using consoles_ok_screen [OF assms(1)] assms by (auto simp: i_def consoles_ok_def)
  have "putc c k st = Inr (put_on (output_page k st p) i ?sh c st)"
    by (simp add: putc_def assms(2) i_def output_page_def page_base_def)
  then show ?thesis
    using consoles_ok_put_on [OF assms(1) i] put_on_same_kernel put_on_outside [OF i] by blast
qed

lemma cur_process_local_same: "same_kernel s t \<Longrightarrow> cur_process_local t = cur_process_local s"
  by (simp add: cur_process_local_def same_kernel_eqs)

lemma output_page_same: "same_kernel s t \<Longrightarrow> output_page k t p = output_page k s p"
  by (simp add: output_page_def same_kernel_eqs)

lemma putc_all_confined:
  assumes "consoles_ok st" "cur_process_local st = Inr p" "1 \<le> p" "p \<le> 3"
  shows "\<exists>st'. putc_all cs k st = Inr st' \<and> consoles_ok st' \<and> same_kernel st st' \<and>
    (\<forall>a. \<not> inside (output_page k st p) 4000 a \<longrightarrow> vmem st' a = vmem st a)"
  using assms
proof (induction cs arbitrary: st)
  case (Cons c cs)
  obtain s1 where s1: "putc c k st = Inr s1" "consoles_ok s1" "same_kernel st s1"
      "\<And>a. \<not> inside (output_page k st p) 4000 a \<Longrightarrow> vmem s1 a = vmem st a"
    using putc_step [OF Cons.prems, of c k] by blast
  obtain s2 where "putc_all cs k s1 = Inr s2" "consoles_ok s2" "same_kernel s1 s2"
      "\<forall>a. \<not> inside (output_page k s1 p) 4000 a \<longrightarrow> vmem s2 a = vmem s1 a"
    using Cons.IH [OF s1(2)] Cons.prems cur_process_local_same [OF s1(3)] by auto
  then show ?case
    using s1 same_kernel_trans output_page_same [OF s1(3)] by auto
qed auto

end
