(* ===== verification/Terminal.thy ===== *)
theory Terminal imports Screen begin

text \<open>
  The terminal driver of \<^verbatim>\<open>src/src/keyboard.c\<close>: the keyboard's state, its initialisation and the
  functions the operations tables hold for standard input and output.  The three line buffers are
  one array in memory, so element \<open>i\<close> of line \<open>t\<close> is byte \<open>127 * t + i\<close>, also when \<open>i\<close> is past the
  end of the line; byte 381 is what follows the array.
\<close>

record kbd = console +
  keyboard_buffer :: "int \<Rightarrow> u8"
  keyboard_index :: "int \<Rightarrow> int"
  shift_flag :: int
  caps_lock_flag :: int
  ctrl_flag :: int
  enter_flag :: "int \<Rightarrow> int"
  newline_flag :: int
  alt_flag :: int

definition kb_at :: "int \<Rightarrow> int \<Rightarrow> int" where
  "kb_at t i = 127 * t + i"

definition keyboard_init :: "'a kbd_scheme \<Rightarrow> 'a kbd_scheme" where
  "keyboard_init st =
     (let st = enable_irq 1 st;
          st = st\<lparr>keyboard_index := (keyboard_index st)(0 := 0, 1 := 0, 2 := 0)\<rparr>;
          st = st\<lparr>cur_terminal := 1\<rparr>
      in st\<lparr>shift_flag := 0, caps_lock_flag := 0, ctrl_flag := 0,
            enter_flag := (enter_flag st)(0 := 0, 1 := 0, 2 := 0), newline_flag := 0, alt_flag := 0\<rparr>)"

section \<open>Reading a line\<close>

text \<open>The copy loop of \<open>terminal_read\<close>: the memory and the number of bytes copied, the NUL included.\<close>

function terminal_copy :: "(int \<Rightarrow> u8) \<Rightarrow> int \<Rightarrow> addr \<Rightarrow> int \<Rightarrow> int \<Rightarrow> mem \<Rightarrow> mem \<times> int" where
  "terminal_copy kb t output nb output_index m =
     (if output_index < nb then
        (let m = m(output + of_int output_index := kb (kb_at t output_index))
         in if kb (kb_at t output_index) = 0 then (m, output_index + 1)
            else terminal_copy kb t output nb (output_index + 1) m)
      else (m, output_index))"
  by pat_completeness auto
termination by (relation "measure (\<lambda>(kb, t, output, nb, i, m). nat (nb - i))") auto

declare terminal_copy.simps [simp del]

text \<open>
  \<open>wait\<close> is what the interrupts do to the state while the loop \<open>while(!enter_flag[...])\<close> spins: the
  state in which the loop is left, or None when it never is.
\<close>

definition terminal_read ::
  "('a kbd_scheme \<Rightarrow> 'a kbd_scheme option) \<Rightarrow> addr \<Rightarrow> int \<Rightarrow> 'a kbd_scheme \<Rightarrow> ('a kbd_scheme \<times> int) res" where
  "terminal_read wait buffer nb st =
     (if nb = 0 then Inr (st, 0)
      else
        (case wait (st\<lparr>enter_flag := (enter_flag st)(cur_process st - 1 := 0)\<rparr>) of
           None \<Rightarrow> Inl Diverges
         | Some st \<Rightarrow>
             if enter_flag st (cur_process st - 1) = 0 then Inl Diverges
             else
               (let t = cur_terminal st - 1;
                    (m, output_index) = terminal_copy (keyboard_buffer st) t buffer nb 0 (vmem st);
                    st = set_vmem m st
                in if keyboard_buffer st (kb_at t 127) = 10
                   then Inr (st\<lparr>keyboard_buffer := (keyboard_buffer st)(kb_at t 127 := 0)\<rparr>, output_index + 1 - 1)
                   else Inr (st, output_index - 1))))"

section \<open>Writing\<close>

function terminal_write_loop :: "addr \<Rightarrow> int \<Rightarrow> int \<Rightarrow> 'a console_scheme \<Rightarrow> ('a console_scheme \<times> int) res" where
  "terminal_write_loop input nb i st =
     (if i < nb then
        andthen (putc (if vmem st (input + of_int i) = 9 then 32 else vmem st (input + of_int i)) 0 st)
          (terminal_write_loop input nb (i + 1))
      else Inr (st, i))"
  by pat_completeness auto
termination by (relation "measure (\<lambda>(input, nb, i, st). nat (nb - i))") auto

declare terminal_write_loop.simps [simp del]

definition terminal_write :: "addr \<Rightarrow> int \<Rightarrow> 'a console_scheme \<Rightarrow> ('a console_scheme \<times> int) res" where
  "terminal_write buffer nb st =
     (let st = cli st in
      if buffer = 0 \<or> nb = 0 then Inr (st, - 1)
      else andthen (terminal_write_loop buffer nb 0 st)
        (\<lambda>(st, bytes_written). Inr (sti st, bytes_written)))"

definition terminal_open :: "addr \<Rightarrow> int" where
  "terminal_open filename = 0"

definition terminal_close :: "nat \<Rightarrow> int" where
  "terminal_close fd = 0"

section \<open>What is read and written\<close>

lemma terminal_copy_line:
  "0 \<le> i \<Longrightarrow> i \<le> nb \<Longrightarrow> (\<forall>j < length str. kb (kb_at t (i + int j)) = str ! j \<and> str ! j \<noteq> 0) \<Longrightarrow>
    kb (kb_at t (i + int (length str))) = 0 \<Longrightarrow>
    terminal_copy kb t output nb i m =
      (write_bytes m (output + of_int i) (take (nat (nb - i)) (str @ [0])),
       min nb (i + int (length str) + 1))"
proof (induction str arbitrary: i m)
  case Nil
  show ?case
  proof (cases "i < nb")
    case True
    then have "nat (nb - i) = Suc (nat (nb - i - 1))" by simp
    then show ?thesis using True Nil by (subst terminal_copy.simps) simp
  next
    case False
    then show ?thesis using Nil by (subst terminal_copy.simps) simp
  qed
next
  case (Cons c str)
  have c: "kb (kb_at t i) = c" "c \<noteq> 0" using Cons.prems(3) by force+
  have rest: "\<forall>j < length str. kb (kb_at t (i + 1 + int j)) = str ! j \<and> str ! j \<noteq> 0"
  proof (intro allI impI)
    fix j assume "j < length str"
    then show "kb (kb_at t (i + 1 + int j)) = str ! j \<and> str ! j \<noteq> 0"
      using Cons.prems(3) [rule_format, of "Suc j"] by (simp add: algebra_simps)
  qed
  show ?case
  proof (cases "i < nb")
    case True
    then have n: "nat (nb - i) = Suc (nat (nb - (i + 1)))" by simp
    have "terminal_copy kb t output nb (i + 1) (m(output + of_int i := c)) =
        (write_bytes (m(output + of_int i := c)) (output + of_int (i + 1)) (take (nat (nb - (i + 1))) (str @ [0])),
         min nb (i + 1 + int (length str) + 1))"
      using True Cons.prems(1,4) rest by (intro Cons.IH) (simp_all add: algebra_simps)
    then show ?thesis
      using True c unfolding n by (subst terminal_copy.simps) (simp add: algebra_simps)
  next
    case False
    then show ?thesis using Cons.prems by (subst terminal_copy.simps) simp
  qed
qed

definition expand_tabs :: "u8 list \<Rightarrow> u8 list" where
  "expand_tabs cs = map (\<lambda>c. if c = 9 then 32 else c) cs"

lemma terminal_write_loop_bytes:
  assumes "consoles_ok st" "cur_process_local st = Inr p" "1 \<le> p" "p \<le> 3"
    and "i + k = n" "apart (output_page 0 st p) 4000 (input + of_nat i) k" "n < 4294967296"
  shows "terminal_write_loop input (int n) (int i) st =
    andthen (putc_all (expand_tabs (bytes (vmem st) (input + of_nat i) k)) 0 st) (\<lambda>st'. Inr (st', int n))"
  using assms
proof (induction k arbitrary: st i)
  case 0
  then show ?case by (subst terminal_write_loop.simps) (simp add: expand_tabs_def)
next
  case (Suc k)
  let ?c = "vmem st (input + of_nat i)"
  let ?c' = "if ?c = 9 then 32 else ?c"
  obtain s1 where s1: "putc ?c' 0 st = Inr s1" "consoles_ok s1" "same_kernel st s1"
      "\<And>a. \<not> inside (output_page 0 st p) 4000 a \<Longrightarrow> vmem s1 a = vmem st a"
    using putc_step [OF Suc.prems(1-4), of ?c' 0] by blast
  have same: "bytes (vmem s1) (input + of_nat (Suc i)) k = bytes (vmem st) (input + of_nat (Suc i)) k"
  proof (rule bytes_cong)
    fix j assume "j < k"
    then have "inside (input + of_nat i) (Suc k) (input + of_nat i + of_nat (Suc j))"
      using Suc.prems(5,7) by (intro inside_offset) auto
    then have "\<not> inside (output_page 0 st p) 4000 (input + of_nat i + of_nat (Suc j))"
      using apart_not_inside [OF apart_sym [OF Suc.prems(6)]] by blast
    then show "vmem s1 (input + of_nat (Suc i) + of_nat j) = vmem st (input + of_nat (Suc i) + of_nat j)"
      using s1(4) by (simp add: algebra_simps)
  qed
  have "apart (output_page 0 s1 p) 4000 (input + of_nat i + of_nat 1) k"
    unfolding output_page_same [OF s1(3)]
    using Suc.prems(5,7) by (intro apart_sub_right [OF Suc.prems(6)]) auto
  then have "terminal_write_loop input (int n) (int (Suc i)) s1 =
      andthen (putc_all (expand_tabs (bytes (vmem s1) (input + of_nat (Suc i)) k)) 0 s1)
        (\<lambda>st'. Inr (st', int n))"
    using s1(2) Suc.prems cur_process_local_same [OF s1(3)]
    by (intro Suc.IH) (auto simp: algebra_simps)
  then have rest: "terminal_write_loop input (int n) (int (Suc i)) s1 =
      andthen (putc_all (expand_tabs (bytes (vmem st) (input + of_nat (Suc i)) k)) 0 s1)
        (\<lambda>st'. Inr (st', int n))"
    unfolding same .
  have "int i < int n" "int i + 1 = int (Suc i)" using Suc.prems(5) by simp_all
  then have "terminal_write_loop input (int n) (int i) st =
      andthen (putc ?c' 0 st) (terminal_write_loop input (int n) (int (Suc i)))"
    by (subst terminal_write_loop.simps) (simp only: if_True of_int_of_nat_eq)
  also have "\<dots> = terminal_write_loop input (int n) (int (Suc i)) s1" unfolding s1(1) by simp
  finally have step: "terminal_write_loop input (int n) (int i) st = terminal_write_loop input (int n) (int (Suc i)) s1" .
  have "expand_tabs (bytes (vmem st) (input + of_nat i) (Suc k)) =
      ?c' # expand_tabs (bytes (vmem st) (input + of_nat (Suc i)) k)"
    by (simp add: expand_tabs_def bytes_Suc algebra_simps)
  then show ?case unfolding step rest by (simp only: putc_all.simps s1(1) andthen_Inr)
qed

end
