(* ===== verification/RTC.thy ===== *)
theory RTC imports Terminal begin

text \<open>
  The real-time clock of \<^verbatim>\<open>src/src/RTC.c\<close>: one virtual clock per terminal.  Every interrupt counts
  for the terminal whose process is running; a reader of that terminal is released when the count is
  a multiple of a quotient computed from its frequency.  Bytes read from the clock's registers are
  arguments.
\<close>

record kernel = kbd +
  rtc_flag :: "int \<Rightarrow> int"
  rtc_counter :: "int \<Rightarrow> u32"
  rtc_freq :: "int \<Rightarrow> u32"
  lit_shell :: addr
  lit_max_processes :: addr

definition RTC_init :: "u8 \<Rightarrow> 'a pic_scheme \<Rightarrow> 'a pic_scheme" where
  "RTC_init prev st =
     (let st = cli st;
          st = outb 0x8B 0x70 st;
          st = outb 0x8B 0x70 st;
          st = outb (scast prev OR 0x40) 0x71 st;
          st = enable_irq 8 st
      in sti st)"

text \<open>The number of booted terminals, the first one always counted.\<close>

definition processes_active :: "u8 \<Rightarrow> u32" where
  "processes_active booted =
     fold (\<lambda>i n. if drop_bit i booted AND 1 \<noteq> 0 then n + 1 else n) [1..<3] 1"

definition RTC_handler :: "'a kernel_scheme \<Rightarrow> 'a kernel_scheme res" where
  "RTC_handler st =
     (let curProcess = get_current_process st;
          rate = rtc_freq st curProcess * processes_active (base_shell_booted_bitmask st)
      in if rate = 0 then Inl DivideError
         else if 1024 div rate = 0 then Inl DivideError
         else
           (let st = (if rtc_counter st curProcess mod (1024 div rate) = 0
                      then st\<lparr>rtc_flag := (rtc_flag st)(curProcess := 0)\<rparr> else st);
                st = st\<lparr>rtc_counter := (rtc_counter st)(curProcess := rtc_counter st curProcess + 1)\<rparr>;
                st = outb 0x0C 0x70 st
            in Inr (send_eoi 8 st)))"

definition rtc_open :: "u8 \<Rightarrow> 'a kernel_scheme \<Rightarrow> 'a kernel_scheme \<times> int" where
  "rtc_open prev st =
     (let st = cli st;
          curProcess = get_current_process st;
          st = st\<lparr>rtc_flag := (rtc_flag st)(curProcess := 0)\<rparr>;
          st = outb 0x8A 0x70 st;
          st = outb 0x8A 0x70 st;
          st = outb ((scast prev AND 0xF0) OR 6) 0x71 st
      in (sti st, 1))"

definition rtc_close :: "nat \<Rightarrow> int" where
  "rtc_close fd = 0"

text \<open>The loop that turns a frequency into a rate, with C's unsigned comparison.\<close>

function rtc_rate :: "nat \<Rightarrow> u32 \<Rightarrow> int \<Rightarrow> int" where
  "rtc_rate val frequency rate =
     (if unat frequency < val then rtc_rate (val div 2) frequency (rate + 1) else rate)"
  by pat_completeness auto
termination by (relation "measure (\<lambda>(val, frequency, rate). val)") auto

declare rtc_rate.simps [simp del]

definition rtc_write :: "addr \<Rightarrow> 'a kernel_scheme \<Rightarrow> 'a kernel_scheme \<times> int" where
  "rtc_write buf st =
     (let st = cli st;
          frequency = read32 (vmem st) buf
      in if \<not> (0 < frequency \<and> frequency AND (frequency - 1) = 0) then (st, - 1)
         else
           (let curProcess = get_current_process st;
                rate = rtc_rate 32768 frequency 1
            in if rate < 3 \<or> 15 < rate then (st, - 1)
               else (sti (st\<lparr>rtc_freq := (rtc_freq st)(curProcess := frequency)\<rparr>), 0)))"

text \<open>
  \<open>wait\<close> is what the interrupts do while \<open>rtc_read\<close> spins on its flag, None when it spins for ever.
\<close>

definition rtc_read ::
  "('a kernel_scheme \<Rightarrow> 'a kernel_scheme option) \<Rightarrow> 'a kernel_scheme \<Rightarrow> ('a kernel_scheme \<times> int) res" where
  "rtc_read wait st =
     (let curProcess = get_current_process st;
          st = st\<lparr>rtc_flag := (rtc_flag st)(curProcess := 1)\<rparr>
      in case wait st of
           None \<Rightarrow> Inl Diverges
         | Some st \<Rightarrow>
             if rtc_flag st curProcess = 1 then Inl Diverges
             else Inr (st\<lparr>rtc_flag := (rtc_flag st)(curProcess := 1)\<rparr>, 0))"

section \<open>Rates\<close>

lemma rtc_rate_power:
  "j \<le> k \<Longrightarrow> unat freq = 2 ^ j \<Longrightarrow> rtc_rate (2 ^ k) freq r = r + int (k - j)"
proof (induction "k - j" arbitrary: k r)
  case 0
  then show ?case by (subst rtc_rate.simps) simp
next
  case (Suc n)
  then obtain k' where k: "k = Suc k'" "j \<le> k'" by (cases k) auto
  have "(2 :: nat) ^ j \<le> 2 ^ k'" "0 < (2 :: nat) ^ k'" using k(2) by (simp_all add: power_increasing)
  then have "(2 :: nat) ^ j < 2 * 2 ^ k'" by linarith
  then have "rtc_rate (2 ^ k) freq r = rtc_rate (2 ^ k') freq (r + 1)"
    using k Suc.prems(2) by (subst rtc_rate.simps) simp
  then show ?case using Suc.hyps(1) [of k' "r + 1"] Suc.hyps(2) Suc.prems k by simp
qed

lemma rtc_rate_large: "v \<le> unat freq \<Longrightarrow> rtc_rate v freq r = r"
  by (subst rtc_rate.simps) simp

text \<open>The test \<open>frequency & (frequency - 1)\<close> recognises the powers of two.\<close>

lemma bit_top:
  fixes w :: u32
  assumes "2 ^ n \<le> unat w" "unat w < 2 ^ Suc n"
  shows "bit w n"
proof -
  have "unat w div 2 ^ n = 1" using assms by (simp add: div_nat_eqI)
  then have "bit (unat w) n" by (simp add: bit_iff_odd)
  then show ?thesis by (simp add: bit_unsigned_iff)
qed

lemma power_of_two_test:
  "0 < (x :: u32) \<and> x AND (x - 1) = 0 \<longleftrightarrow> (\<exists>j < 32. unat x = 2 ^ j)"
proof
  assume x: "0 < x \<and> x AND (x - 1) = 0"
  then have "0 < unat x" by (simp add: word_less_nat_alt)
  then obtain n where n: "2 ^ n \<le> unat x" "unat x < 2 ^ Suc n"
    using ex_power_ivl1 [of 2 "unat x"] by auto
  have "unat x = 2 ^ n"
  proof (rule ccontr)
    assume "unat x \<noteq> 2 ^ n"
    then have "2 ^ n \<le> unat (x - 1)" "unat (x - 1) < 2 ^ Suc n"
      using n x by (auto simp: unat_minus_one)
    then have "bit (x AND (x - 1)) n" using bit_top n by (simp add: bit_and_iff)
    then show False using x by simp
  qed
  moreover have "(2 :: nat) ^ n < 2 ^ 32" using n(1) unat_u32_less [of x] by simp
  then have "n < 32" by (rule power_less_imp_less_exp [rotated]) simp
  ultimately show "\<exists>j < 32. unat x = 2 ^ j" by blast
next
  assume "\<exists>j < 32. unat x = 2 ^ j"
  then obtain j where j: "j < 32" "unat x = 2 ^ j" by blast
  have "x = of_nat (unat x)" by simp
  then have x: "x = 2 ^ j" unfolding j(2) by simp
  have "x - 1 = mask j" by (simp add: x mask_eq_exp_minus_1)
  then have "x AND (x - 1) = 0" unfolding x by (intro bit_word_eqI) (auto simp: bit_simps)
  then show "0 < x \<and> x AND (x - 1) = 0" using j by (simp add: word_less_nat_alt)
qed

text \<open>The frequencies \<open>rtc_write\<close> accepts.\<close>

definition rtc_accepts :: "u32 \<Rightarrow> bool" where
  "rtc_accepts freq \<longleftrightarrow> freq \<in> {2, 4, 8, 16, 32, 64, 128, 256, 512, 1024, 2048, 4096, 8192}"

lemma rtc_rate_accepts:
  assumes "unat freq = 2 ^ j" "j < 32"
  shows "3 \<le> rtc_rate 32768 freq 1 \<and> rtc_rate 32768 freq 1 \<le> 15 \<longleftrightarrow> 1 \<le> j \<and> j \<le> 13"
proof (cases "j \<le> 15")
  case True
  then show ?thesis using rtc_rate_power [of j 15 freq 1] assms(1) by auto
next
  case False
  then have "(2 :: nat) ^ 15 \<le> 2 ^ j" by (intro power_increasing) auto
  then show ?thesis using rtc_rate_large [of 32768 freq 1] assms(1) False by simp
qed

lemma rtc_accepts_power: "rtc_accepts freq \<longleftrightarrow> (\<exists>j. 1 \<le> j \<and> j \<le> 13 \<and> unat freq = 2 ^ j)"
proof -
  have "1 \<le> j \<and> j \<le> 13 \<longleftrightarrow> j \<in> {1, 2, 3, 4, 5, 6, 7, 8, 9, 10, 11, 12, 13}" for j :: nat
    by (simp, arith)
  then have "(\<exists>j. 1 \<le> j \<and> j \<le> 13 \<and> unat freq = 2 ^ j) \<longleftrightarrow>
      (\<exists>j \<in> {1, 2, 3, 4, 5, 6, 7, 8, 9, 10, 11, 12, 13}. unat freq = 2 ^ j)"
    by blast
  also have "\<dots> \<longleftrightarrow> rtc_accepts freq"
    by (simp add: rtc_accepts_def word_unat_eq_iff)
  finally show ?thesis ..
qed

section \<open>The interrupt releases readers\<close>

lemma flag_frames [simp]:
  "vmem (cli s1) = vmem s1" "vmem (sti s1) = vmem s1"
  "current_pcb_addr (cli s1) = current_pcb_addr s1" "current_pcb_addr (sti s1) = current_pcb_addr s1"
  "cur_process (cli s2) = cur_process s2" "cur_process (sti s2) = cur_process s2"
  "pcbs (cli s2) = pcbs s2" "pcbs (sti s2) = pcbs s2" "cur_terminal (cli s2) = cur_terminal s2"
  "base_shell_booted_bitmask (cli s2) = base_shell_booted_bitmask s2"
  "current_pcb (cli s2) = current_pcb s2" "get_current_process (cli s2) = get_current_process s2"
  "rtc_freq (cli s3) = rtc_freq s3" "rtc_flag (cli s3) = rtc_flag s3"
  by (simp_all add: cli_def sti_def vmem_def remap_def user_mapped_def fun_eq_iff current_pcb_addr_def
      current_pcb_def get_current_process_def)

text \<open>The rate of the running terminal: how many interrupts there are per release.\<close>

definition rtc_period :: "'a kernel_scheme \<Rightarrow> u32" where
  "rtc_period st = 1024 div (rtc_freq st (get_current_process st) *
     processes_active (base_shell_booted_bitmask st))"

definition rtc_rate_ok :: "'a kernel_scheme \<Rightarrow> bool" where
  "rtc_rate_ok st \<longleftrightarrow> rtc_freq st (get_current_process st) *
     processes_active (base_shell_booted_bitmask st) \<noteq> 0 \<and> rtc_period st \<noteq> 0"

lemma rtc_tick:
  assumes "rtc_rate_ok st"
  defines "p \<equiv> get_current_process st"
  obtains st' where "RTC_handler st = Inr st'"
    "rtc_flag st' = (if rtc_counter st p mod rtc_period st = 0 then (rtc_flag st)(p := 0) else rtc_flag st)"
    "rtc_counter st' = (rtc_counter st)(p := rtc_counter st p + 1)"
    "get_current_process st' = p" "rtc_period st' = rtc_period st" "rtc_rate_ok st'"
proof -
  define s1 where "s1 = (if rtc_counter st p mod rtc_period st = 0
      then st\<lparr>rtc_flag := (rtc_flag st)(p := 0)\<rparr> else st)"
  define st' where "st' = send_eoi 8 (outb 0x0C 0x70
      (s1\<lparr>rtc_counter := (rtc_counter s1)(p := rtc_counter s1 p + 1)\<rparr>))"
  have "RTC_handler st = Inr st'"
    using assms(1) by (simp add: RTC_handler_def rtc_rate_ok_def rtc_period_def st'_def s1_def p_def Let_def)
  moreover have "rtc_flag st' = rtc_flag s1" "rtc_freq st' = rtc_freq st" "cur_process st' = cur_process st"
      "base_shell_booted_bitmask st' = base_shell_booted_bitmask st"
      "rtc_counter st' = (rtc_counter st)(p := rtc_counter st p + 1)"
    by (simp_all add: st'_def s1_def send_eoi_def outb_def)
  ultimately show ?thesis
    using that [of st'] assms(1)
    by (simp add: s1_def p_def get_current_process_def rtc_period_def rtc_rate_ok_def)
qed

primrec rtc_ticks :: "nat \<Rightarrow> 'a kernel_scheme \<Rightarrow> 'a kernel_scheme res" where
  "rtc_ticks 0 st = Inr st"
| "rtc_ticks (Suc n) st = andthen (RTC_handler st) (rtc_ticks n)"

lemma flag_cases:
  "(if b then 0 else (if a then f(p := 0) else f) p) = (if a \<or> b then 0 else f (p :: int) :: int)"
  by simp

lemma rtc_ticks_flag:
  "rtc_rate_ok st \<Longrightarrow> p = get_current_process st \<Longrightarrow>
    \<exists>st'. rtc_ticks n st = Inr st' \<and>
      rtc_flag st' p = (if \<exists>i < n. (rtc_counter st p + of_nat i) mod rtc_period st = 0 then 0 else rtc_flag st p)"
proof (induction n arbitrary: st)
  case (Suc n)
  obtain s1 where s1: "RTC_handler st = Inr s1"
    "rtc_flag s1 = (if rtc_counter st p mod rtc_period st = 0 then (rtc_flag st)(p := 0) else rtc_flag st)"
    "rtc_counter s1 = (rtc_counter st)(p := rtc_counter st p + 1)"
    "get_current_process s1 = p" "rtc_period s1 = rtc_period st" "rtc_rate_ok s1"
    using rtc_tick [OF Suc.prems(1)] Suc.prems(2) by metis
  obtain s2 where s2: "rtc_ticks n s1 = Inr s2"
    "rtc_flag s2 p = (if \<exists>i < n. (rtc_counter s1 p + of_nat i) mod rtc_period s1 = 0 then 0 else rtc_flag s1 p)"
    using Suc.IH [OF s1(6) s1(4) [symmetric]] by auto
  have "(\<exists>i < Suc n. (rtc_counter st p + of_nat i) mod rtc_period st = 0) \<longleftrightarrow>
      rtc_counter st p mod rtc_period st = 0 \<or> (\<exists>i < n. (rtc_counter st p + 1 + of_nat i) mod rtc_period st = 0)"
    unfolding Ex_less_Suc2 by (simp add: algebra_simps)
  then have "rtc_flag s2 p =
      (if \<exists>i < Suc n. (rtc_counter st p + of_nat i) mod rtc_period st = 0 then 0 else rtc_flag st p)"
    unfolding s2(2) s1(2,3,5) fun_upd_same by (simp only: flag_cases)
  then show ?case using s1(1) s2(1) by simp
qed simp

text \<open>Among as many consecutive counts as the period is long one is a multiple of it, also across the
  wrap-around of the counter.\<close>

lemma multiple_in_window:
  assumes "(d :: u32) \<noteq> 0"
  shows "\<exists>i < unat d. (c + of_nat i) mod d = 0"
proof -
  have d: "0 < unat d" using assms by (simp add: unat_gt_0)
  show ?thesis
  proof (cases "unat c + unat d \<le> 4294967296")
    case True
    define i where "i = (unat d - unat c mod unat d) mod unat d"
    have i: "i < unat d" using d by (simp add: i_def)
    have "unat c mod unat d < unat d" using d by simp
    then have "unat c + (unat d - unat c mod unat d) = unat d * (unat c div unat d) + unat d"
      using mult_div_mod_eq [of "unat d" "unat c"] by linarith
    then have "(unat c + (unat d - unat c mod unat d)) mod unat d = 0" by simp
    then have z: "(unat c + i) mod unat d = 0" unfolding i_def by (simp only: mod_add_right_eq)
    have u: "unat (c + of_nat i) = unat c + i"
      using True i unat_u32_less [of d] by (simp add: unat_word_ariths)
    have "unat ((c + of_nat i) mod d) = 0" unfolding unat_mod u by (rule z)
    then have "(c + of_nat i) mod d = 0" unfolding unat_eq_0 .
    then show ?thesis by (intro exI [of _ i] conjI i)
  next
    case False
    define i where "i = 4294967296 - unat c"
    have i: "i < unat d" using False unat_u32_less [of c] unfolding i_def by linarith
    have "c + of_nat i = 0"
    proof -
      have "c + of_nat i = of_nat (unat c + i)" by simp
      also have "unat c + i = 4294967296" using unat_u32_less [of c] by (simp add: i_def)
      finally show ?thesis by simp
    qed
    then have "(c + of_nat i) mod d = 0" by simp
    then show ?thesis by (intro exI [of _ i] conjI i)
  qed
qed

end
