(* ===== verification/PIT.thy ===== *)
theory PIT imports RTC begin

text \<open>
  The timer of \<^verbatim>\<open>src/src/pit.c\<close> and its scheduler: round robin over the booted terminals, and the
  switch to the top process of the next one.  The abstract view is one stack of processes per
  terminal (\<open>threads\<close>); \<open>sched_inv\<close> ties it to the control blocks.
\<close>

definition pit_init :: "'a pic_scheme \<Rightarrow> 'a pic_scheme" where
  "pit_init st =
     (let divisor = (1193182 div 100 :: u32);
          st = outb 0x34 0x43 st;
          st = outb (divisor AND 0xFF) 0x40 st;
          st = outb (drop_bit 8 divisor) 0x40 st
      in enable_irq 0 st)"

text \<open>The assembly routine \<open>return_to_parent\<close>: the frame at \<open>parent_ebp\<close> is left.\<close>

definition return_to_parent :: "addr \<Rightarrow> 'a vmm_scheme \<Rightarrow> 'a vmm_scheme" where
  "return_to_parent parent_ebp st =
     (let st = st\<lparr>ebp := parent_ebp, esp := parent_ebp\<rparr>;
          st = st\<lparr>ebp := read32 (vmem st) (esp st), esp := esp st + 4\<rparr>
      in st\<lparr>esp := esp st + 4\<rparr>)"

text \<open>The round-robin step on the number of the scheduled terminal.\<close>

definition next_process :: "u8 \<Rightarrow> int \<Rightarrow> int" where
  "next_process booted cp =
     (let cp = cp + 1;
          cp = (if cp = 4 then 1 else cp);
          cp = (if cp = 2 \<and> booted AND 2 = 0 then cp + 1 else cp)
      in if cp = 3 \<and> booted AND 4 = 0 then 1 else cp)"

definition user_vidmem_entry :: "u32 \<Rightarrow> u32 \<Rightarrow> u32" where
  "user_vidmem_entry vidmem_pt address =
     (let e = put_bits 0 1 1 vidmem_pt;
          e = put_bits 2 1 1 e;
          e = put_bits 1 1 1 e
      in put_bits 12 20 address e)"

text \<open>\<open>pit_handler\<close>; \<open>new_page\<close> and \<open>vidmem_pt\<close> are its two uninitialised locals.\<close>

definition pit_handler :: "u32 \<Rightarrow> u32 \<Rightarrow> 'a kernel_scheme \<Rightarrow> 'a kernel_scheme res" where
  "pit_handler new_page vidmem_pt st =
     (let current_PCB = current_pcb_addr st;
          saved_process = cur_process st;
          st = st\<lparr>cur_process := next_process (base_shell_booted_bitmask st) (cur_process st)\<rparr>
      in if saved_process \<noteq> cur_process st then
           andthen (of_loop (get_top_process_pcb (pcbs st) (pcb_at (cur_process st)))) (\<lambda>top_PCB.
             (let st = update_pcb current_PCB (sched_ebp_update (\<lambda>_. ebp st)) st;
                  pid = process_id (pcbs st top_PCB);
                  st = map_process new_page (of_int (pid + 1)) st;
                  st = st\<lparr>tss_esp0 := kernel_stack_top pid\<rparr>;
                  st = st\<lparr>tss_ss0 := 0x18\<rparr>;
                  st = write_pt_vidmap 0
                         (user_vidmem_entry vidmem_pt
                            (if cur_terminal st = cur_process st then 0xB8000 div 4096
                             else 0xB8000 + of_int (cur_process st))) st;
                  st = flush_tlb st;
                  st = send_eoi 0 st
              in Inr (return_to_parent (sched_ebp (pcbs st top_PCB)) st)))
         else Inr (send_eoi 0 st))"

section \<open>What the steps of a switch leave alone\<close>

lemma paging_frames [simp]:
  "pcbs (map_process g n s) = pcbs s" "pcbs (flush_tlb s) = pcbs s" "pcbs (write_pt_vidmap i v s) = pcbs s"
  "pcbs (send_eoi k s) = pcbs s" "pcbs (return_to_parent a s) = pcbs s"
  "cur_process (map_process g n s) = cur_process s" "cur_process (flush_tlb s) = cur_process s"
  "cur_process (write_pt_vidmap i v s) = cur_process s" "cur_process (send_eoi k s) = cur_process s"
  "cur_process (return_to_parent a s) = cur_process s"
  "cur_terminal (map_process g n s) = cur_terminal s" "cur_terminal (flush_tlb s) = cur_terminal s"
  "cur_terminal (write_pt_vidmap i v s) = cur_terminal s" "cur_terminal (send_eoi k s) = cur_terminal s"
  "base_shell_booted_bitmask (map_process g n s) = base_shell_booted_bitmask s"
  "base_shell_booted_bitmask (flush_tlb s) = base_shell_booted_bitmask s"
  "base_shell_booted_bitmask (write_pt_vidmap i v s) = base_shell_booted_bitmask s"
  "base_shell_booted_bitmask (send_eoi k s) = base_shell_booted_bitmask s"
  "base_shell_booted_bitmask (return_to_parent a s) = base_shell_booted_bitmask s"
  by (simp_all add: map_process_def flush_tlb_def write_pdt_def write_pt_vidmap_def send_eoi_def
      outb_def return_to_parent_def Let_def)

lemma table_frames [simp]:
  "pdt (send_eoi k s) = pdt s" "pdt (return_to_parent a s) = pdt s"
  "pt_vidmap (send_eoi k s) = pt_vidmap s" "pt_vidmap (return_to_parent a s) = pt_vidmap s"
  "pt_vidmap (map_process g n s) = pt_vidmap s"
  "tss_esp0 (flush_tlb s) = tss_esp0 s" "tss_esp0 (write_pt_vidmap i v s) = tss_esp0 s"
  "tss_esp0 (send_eoi k s) = tss_esp0 s" "tss_esp0 (return_to_parent a s) = tss_esp0 s"
  "tlb_fresh (send_eoi k s) = tlb_fresh s" "tlb_fresh (return_to_parent a s) = tlb_fresh s"
  "out_log (map_process g n s) = out_log s" "out_log (flush_tlb s) = out_log s"
  "out_log (write_pt_vidmap i v s) = out_log s" "out_log (return_to_parent a s) = out_log s"
  "pdt (map_process g n s) = (pdt s)(32 := pdt_entry_page_setup g n 1)"
  "esp (return_to_parent a s) = a + 8"
  by (simp_all add: map_process_def flush_tlb_def write_pdt_def write_pt_vidmap_def send_eoi_def
      outb_def return_to_parent_def Let_def)

lemma update_pcb_frames [simp]:
  "out_log (update_pcb a f s) = out_log s" "pt_vidmap (update_pcb a f s) = pt_vidmap s"
  "int_flag (update_pcb a f s) = int_flag s" "ebp (update_pcb a f s) = ebp s"
  by (simp_all add: update_pcb_def)

lemma current_pcb_addr_update [simp]:
  "current_pcb_addr (s\<lparr>cur_process := x\<rparr>) = current_pcb_addr s"
  by (simp add: current_pcb_addr_def)

section \<open>Round robin\<close>

definition booted_terminal :: "u8 \<Rightarrow> int \<Rightarrow> bool" where
  "booted_terminal booted t \<longleftrightarrow> t = 1 \<or> t = 2 \<and> bit booted 1 \<or> t = 3 \<and> bit booted 2"

lemma bit_tests: "(b :: u8) AND 2 = 0 \<longleftrightarrow> \<not> bit b 1" "b AND 4 = 0 \<longleftrightarrow> \<not> bit b 2"
  using and_exp_eq_0_iff_not_bit [of b 1] and_exp_eq_0_iff_not_bit [of b 2] by simp_all

lemma next_process_cases:
  "next_process b 1 = (if bit b 1 then 2 else if bit b 2 then 3 else 1)"
  "next_process b 2 = (if bit b 2 then 3 else 1)"
  "next_process b 3 = 1"
  by (simp_all add: next_process_def bit_tests)

lemma booted_cases: "booted_terminal b t \<Longrightarrow> t = 1 \<or> t = 2 \<or> t = 3"
  by (auto simp: booted_terminal_def)

lemma next_process_booted: "booted_terminal b cp \<Longrightarrow> booted_terminal b (next_process b cp)"
  using booted_cases [of b cp] by (auto simp: next_process_cases booted_terminal_def split: if_splits)

section \<open>Threads\<close>

text \<open>The terminals' process stacks: not empty exactly for the booted ones, based on the terminal's
  own shell, without a process in common.\<close>

definition threads_ok :: "(addr \<Rightarrow> pcb) \<Rightarrow> u8 \<Rightarrow> (int \<Rightarrow> int list) \<Rightarrow> bool" where
  "threads_ok heap booted threads \<longleftrightarrow>
     list_all (\<lambda>t. (bit booted (nat (t - 1)) \<longrightarrow> threads t \<noteq> [] \<and> hd (threads t) = t \<and> chain heap (threads t)) \<and>
       (\<not> bit booted (nat (t - 1)) \<longrightarrow> threads t = [])) [1, 2, 3] \<and>
     bit booted 0 \<and> distinct (threads 1 @ threads 2 @ threads 3)"

text \<open>\<open>running st p\<close>: the processor is on the kernel stack of process \<open>p\<close>, the user page is the frame
  of \<open>p\<close>, and the next entry to the kernel will use the stack of \<open>p\<close>.\<close>

definition running :: "'a proc_scheme \<Rightarrow> int \<Rightarrow> bool" where
  "running st p \<longleftrightarrow> current_pcb_addr st = pcb_at p \<and> process_id (pcbs st (pcb_at p)) = p \<and>
     user_mapped st \<and> drop_bit 22 (pdt st 32) = of_int (p + 1) \<and> tss_esp0 st = kernel_stack_top p"

definition on_stack_of :: "int \<Rightarrow> addr \<Rightarrow> bool" where
  "on_stack_of p a \<longleftrightarrow> a AND 0xFFFFE000 = pcb_at p"

text \<open>The frame saved for a process that waits for the processor lies on its own kernel stack.\<close>

definition context_ok :: "(addr \<Rightarrow> pcb) \<Rightarrow> int \<Rightarrow> bool" where
  "context_ok heap p \<longleftrightarrow> on_stack_of p (sched_ebp (heap (pcb_at p)) + 8)"

lemma threads_ok_booted:
  "threads_ok heap b threads \<Longrightarrow> booted_terminal b t \<Longrightarrow>
    threads t \<noteq> [] \<and> hd (threads t) = t \<and> chain heap (threads t)"
  by (auto simp: threads_ok_def booted_terminal_def)

lemma threads_ok_cong:
  assumes "\<And>p. 1 \<le> p \<Longrightarrow> p \<le> 6 \<Longrightarrow> process_id (h' (pcb_at p)) = process_id (h (pcb_at p)) \<and>
      child_pcb (h' (pcb_at p)) = child_pcb (h (pcb_at p)) \<and>
      parent_pcb (h' (pcb_at p)) = parent_pcb (h (pcb_at p))"
  shows "threads_ok h b threads \<Longrightarrow> threads_ok h' b threads"
proof -
  have "chain h ps \<Longrightarrow> chain h' ps" for ps
    using chain_cong [of ps h' h] assms chain_range by metis
  then show "threads_ok h b threads \<Longrightarrow> threads_ok h' b threads"
    unfolding threads_ok_def by (auto simp del: One_nat_def)
qed

lemma pdt_entry_user: "p < 1024 \<Longrightarrow> drop_bit 22 (pdt_entry_page_setup g p u) = p"
  by (simp add: drop_bit_pdt_entry take_bit_10_id)

lemma pdt_entry_present: "bit (pdt_entry_page_setup g a u) 0" "bit (pdt_entry_page_setup g a u) 7"
  by (simp_all add: bitfield_simps)

lemma frame_small: "1 \<le> p \<Longrightarrow> p \<le> 6 \<Longrightarrow> of_int (p + 1) < (1024 :: u32)"
proof -
  assume "1 \<le> p" "p \<le> 6"
  then have "p = 1 \<or> p = 2 \<or> p = 3 \<or> p = 4 \<or> p = 5 \<or> p = 6" by arith
  then show ?thesis by auto
qed

lemma threads_disjoint:
  assumes "threads_ok h b threads" "booted_terminal b t" "booted_terminal b u" "t \<noteq> u"
  shows "set (threads t) \<inter> set (threads u) = {}"
  using assms booted_cases [of b t] booted_cases [of b u] by (auto simp: threads_ok_def)

lemma chain_last:
  assumes "chain h ps" "ps \<noteq> []"
  shows "process_id (h (pcb_at (last ps))) = last ps" "1 \<le> last ps" "last ps \<le> 6"
    "child_pcb (h (pcb_at (last ps))) = 0"
    "get_top_process_pcb h (pcb_at (hd ps)) = Some (pcb_at (last ps))"
proof -
  have i: "length ps - 1 < length ps" "ps ! (length ps - 1) = last ps"
    using assms(2) by (simp_all add: last_conv_nth)
  then show "process_id (h (pcb_at (last ps))) = last ps" "child_pcb (h (pcb_at (last ps))) = 0"
    using assms(1) unfolding chain_def by (metis Suc_pred' length_greater_0_conv assms(2) less_irrefl)+
  show "1 \<le> last ps" "last ps \<le> 6" using chain_range [OF assms(1)] assms(2) by simp_all
  show "get_top_process_pcb h (pcb_at (hd ps)) = Some (pcb_at (last ps))"
    using get_top_chain [OF assms(1), of 0] assms(2) by (simp add: hd_conv_nth)
qed

text \<open>A switch: everything that makes \<open>q\<close> the running process, from a state whose heap is in order.\<close>

lemma pit_switch:
  assumes "threads_ok (pcbs st) (base_shell_booted_bitmask st) threads"
    and "booted_terminal (base_shell_booted_bitmask st) (cur_process st)"
    and "next_process (base_shell_booted_bitmask st) (cur_process st) \<noteq> cur_process st"
    and "running st p" "p = last (threads (cur_process st))"
  defines "t \<equiv> next_process (base_shell_booted_bitmask st) (cur_process st)"
  defines "q \<equiv> last (threads t)"
  assumes "context_ok (pcbs st) q"
  shows "\<exists>st'. pit_handler g v st = Inr st' \<and> running st' q \<and> cur_process st' = t \<and> tlb_fresh st' \<and>
    pcbs st' = (pcbs st)(pcb_at p := (pcbs st (pcb_at p))\<lparr>sched_ebp := ebp st\<rparr>) \<and>
    base_shell_booted_bitmask st' = base_shell_booted_bitmask st \<and>
    out_log st' = out_log st @ [(0x20, 0x60)] \<and>
    pt_vidmap st' 0 = user_vidmem_entry v (if cur_terminal st = t then 0xB8000 div 4096 else 0xB8000 + of_int t)"
proof -
  let ?b = "base_shell_booted_bitmask st"
  have bt: "booted_terminal ?b t" unfolding t_def by (rule next_process_booted [OF assms(2)])
  note tt = threads_ok_booted [OF assms(1) bt] and tc = threads_ok_booted [OF assms(1,2)]
  note q = chain_last [of "pcbs st" "threads t", folded q_def]
  have p: "1 \<le> p" "p \<le> 6" using chain_last(2,3) tc assms(5) by metis+
  have qq: "process_id (pcbs st (pcb_at q)) = q" "1 \<le> q" "q \<le> 6" using q tt by simp_all
  have "p \<in> set (threads (cur_process st))" "q \<in> set (threads t)"
    using tc tt assms(5) by (simp_all add: q_def)
  then have "q \<noteq> p" using threads_disjoint [OF assms(1,2) bt] assms(3) by (auto simp: t_def)
  then have ne: "pcb_at q \<noteq> pcb_at p" using p qq by (simp add: pcb_at_eq)
  have top: "get_top_process_pcb (pcbs st) (pcb_at t) = Some (pcb_at q)"
    using q(5) tt by simp
  have cur: "current_pcb_addr st = pcb_at p" using assms(4) by (simp add: running_def)
  define st' where "st' = return_to_parent (sched_ebp (pcbs st (pcb_at q)))
    (send_eoi 0 (flush_tlb (write_pt_vidmap 0
       (user_vidmem_entry v (if cur_terminal st = t then 0xB8000 div 4096 else 0xB8000 + of_int t))
       ((map_process g (of_int (q + 1))
           (update_pcb (pcb_at p) (sched_ebp_update (\<lambda>_. ebp st)) (st\<lparr>cur_process := t\<rparr>)))
         \<lparr>tss_esp0 := kernel_stack_top q, tss_ss0 := 0x18\<rparr>))))"
  have "pit_handler g v st = Inr st'"
    using assms(3) top ne qq(1)
    by (simp add: pit_handler_def Let_def t_def [symmetric] cur st'_def)
  moreover have heap: "pcbs st' = (pcbs st)(pcb_at p := (pcbs st (pcb_at p))\<lparr>sched_ebp := ebp st\<rparr>)"
    by (simp add: st'_def)
  moreover have "running st' q"
  proof -
    have "pdt st' 32 = pdt_entry_page_setup g (of_int (q + 1)) 1" by (simp add: st'_def)
    then have "user_mapped st'" "drop_bit 22 (pdt st' 32) = of_int (q + 1)"
      using pdt_entry_user [OF frame_small [OF qq(2,3)]] pdt_entry_present by (simp_all add: user_mapped_def)
    moreover have "current_pcb_addr st' = pcb_at q"
      using assms(8) by (simp add: st'_def current_pcb_addr_def context_ok_def on_stack_of_def)
    ultimately show ?thesis
      using ne qq(1) unfolding running_def heap by (simp add: st'_def)
  qed
  ultimately show ?thesis
    by (intro exI [of _ st'] conjI) (simp_all add: st'_def, simp_all add: send_eoi_def)
qed

section \<open>The scheduler's invariant\<close>

text \<open>
  The terminal that has the processor runs the top of its process stack, and every other booted
  terminal has a saved context on the kernel stack of its top process.
\<close>

definition sched_inv :: "(int \<Rightarrow> int list) \<Rightarrow> 'a proc_scheme \<Rightarrow> bool" where
  "sched_inv threads st \<longleftrightarrow>
     threads_ok (pcbs st) (base_shell_booted_bitmask st) threads \<and>
     booted_terminal (base_shell_booted_bitmask st) (cur_process st) \<and>
     running st (last (threads (cur_process st))) \<and>
     list_all (\<lambda>t. booted_terminal (base_shell_booted_bitmask st) t \<and> t \<noteq> cur_process st \<longrightarrow>
       context_ok (pcbs st) (last (threads t))) [1, 2, 3]"

lemma sched_inv_context:
  "sched_inv threads st \<Longrightarrow> booted_terminal (base_shell_booted_bitmask st) t \<Longrightarrow> t \<noteq> cur_process st \<Longrightarrow>
    context_ok (pcbs st) (last (threads t))"
  using booted_cases [of "base_shell_booted_bitmask st" t] by (auto simp: sched_inv_def)

lemma running_send_eoi: "running (send_eoi k st) p = running st p"
  by (simp add: running_def send_eoi_def outb_def current_pcb_addr_def user_mapped_def)

lemma context_ok_update:
  assumes "1 \<le> p" "p \<le> 6" "1 \<le> r" "r \<le> 6" "on_stack_of p (e + 8)" "r = p \<or> context_ok heap r"
  shows "context_ok (heap(pcb_at p := (heap (pcb_at p))\<lparr>sched_ebp := e\<rparr>)) r"
  using assms by (auto simp: context_ok_def pcb_at_eq)

lemma sched_inv_tops:
  assumes "sched_inv threads st" "booted_terminal (base_shell_booted_bitmask st) t"
  shows "1 \<le> last (threads t)" "last (threads t) \<le> 6"
  using chain_last(2,3) threads_ok_booted assms unfolding sched_inv_def by metis+

text \<open>One timer interrupt keeps the invariant, whether it switches or not.\<close>

lemma pit_keeps_inv:
  assumes "sched_inv threads st" "on_stack_of (last (threads (cur_process st))) (ebp st + 8)"
  shows "\<exists>st'. pit_handler g v st = Inr st' \<and> sched_inv threads st' \<and>
    cur_process st' = next_process (base_shell_booted_bitmask st) (cur_process st) \<and>
    base_shell_booted_bitmask st' = base_shell_booted_bitmask st \<and> out_log st' = out_log st @ [(0x20, 0x60)] \<and>
    (cur_process st' \<noteq> cur_process st \<longrightarrow> tlb_fresh st' \<and> pt_vidmap st' 0 =
       user_vidmem_entry v (if cur_terminal st = cur_process st' then 0xB8000 div 4096
                            else 0xB8000 + of_int (cur_process st')))"
proof -
  let ?b = "base_shell_booted_bitmask st" and ?c = "cur_process st"
  let ?n = "next_process ?b ?c" and ?p = "last (threads (cur_process st))"
  have inv: "threads_ok (pcbs st) ?b threads" "booted_terminal ?b ?c" "running st ?p"
    using assms(1) by (simp_all add: sched_inv_def)
  show ?thesis
  proof (cases "?n = ?c")
    case True
    then have eoi: "pit_handler g v st = Inr (send_eoi 0 st)"
      by (simp add: pit_handler_def Let_def)
    have "sched_inv threads (send_eoi 0 st)"
      using assms(1) by (simp add: sched_inv_def running_send_eoi)
    then show ?thesis unfolding eoi using True by (simp add: send_eoi_def)
  next
    case False
    have bn: "booted_terminal ?b ?n" by (rule next_process_booted [OF inv(2)])
    obtain st' where st': "pit_handler g v st = Inr st'" "running st' (last (threads ?n))"
      "cur_process st' = ?n" "tlb_fresh st'"
      "pcbs st' = (pcbs st)(pcb_at ?p := (pcbs st (pcb_at ?p))\<lparr>sched_ebp := ebp st\<rparr>)"
      "base_shell_booted_bitmask st' = ?b" "out_log st' = out_log st @ [(0x20, 0x60)]"
      "pt_vidmap st' 0 = user_vidmem_entry v (if cur_terminal st = ?n then 0xB8000 div 4096 else 0xB8000 + of_int ?n)"
      using pit_switch [OF inv(1,2) False inv(3) refl sched_inv_context [OF assms(1) bn False], of g v]
      by blast
    have "threads_ok (pcbs st') ?b threads"
      by (rule threads_ok_cong [OF _ inv(1)]) (simp add: st'(5))
    moreover have "context_ok (pcbs st') (last (threads t))"
      if "booted_terminal ?b t" "t \<noteq> ?n" for t
      unfolding st'(5)
      by (rule context_ok_update [OF sched_inv_tops [OF assms(1) inv(2)] sched_inv_tops [OF assms(1) that(1)] assms(2)])
        (use sched_inv_context [OF assms(1) that(1)] in auto)
    ultimately have "sched_inv threads st'"
      using st' bn by (simp add: sched_inv_def)
    then show ?thesis using st' by (intro exI [of _ st'] conjI impI) simp_all
  qed
qed

text \<open>What the interrupt does to the control blocks: at a switch it saves the frame of the running process.\<close>

lemma pit_keeps_blocks:
  assumes "sched_inv threads st" "pit_handler g v st = Inr st'"
  defines "p \<equiv> last (threads (cur_process st))"
  shows "pcbs st' = (if cur_process st' = cur_process st then pcbs st
    else (pcbs st)(pcb_at p := (pcbs st (pcb_at p))\<lparr>sched_ebp := ebp st\<rparr>))"
proof (cases "next_process (base_shell_booted_bitmask st) (cur_process st) = cur_process st")
  case True
  then have "st' = send_eoi 0 st" using assms(2) by (simp add: pit_handler_def Let_def)
  then show ?thesis by simp
next
  case False
  let ?b = "base_shell_booted_bitmask st" and ?t = "next_process (base_shell_booted_bitmask st) (cur_process st)"
  have inv: "threads_ok (pcbs st) ?b threads" "booted_terminal ?b (cur_process st)" "running st p"
    using assms(1) by (simp_all add: sched_inv_def p_def)
  have "context_ok (pcbs st) (last (threads ?t))"
    by (rule sched_inv_context [OF assms(1) next_process_booted [OF inv(2)] False])
  from pit_switch [OF inv(1,2) False inv(3) _ this, of g v] show ?thesis
    using assms(2) False by (auto simp: p_def)
qed

text \<open>Round robin reaches every booted terminal in at most three steps.\<close>

lemma next_process_reaches:
  assumes "booted_terminal b s" "booted_terminal b t"
  shows "t = next_process b s \<or> t = next_process b (next_process b s) \<or>
    t = next_process b (next_process b (next_process b s))"
proof -
  have st: "s \<in> {1, 2, 3}" "t \<in> {1, 2, 3}" using booted_cases assms by auto
  have b: "t = 2 \<longrightarrow> bit b 1" "t = 3 \<longrightarrow> bit b 2" "s = 2 \<longrightarrow> bit b 1" "s = 3 \<longrightarrow> bit b 2"
    using assms by (auto simp: booted_terminal_def)
  show ?thesis
    using st b by (cases "bit b 1"; cases "bit b 2") (auto simp only: next_process_cases if_True if_False
      insert_iff empty_iff simp_thms)
qed

end
