(* ===== verification/SysCalls.thy ===== *)
theory SysCalls imports PIT begin

text \<open>
  The system calls of \<^verbatim>\<open>src/src/sys_calls.c\<close> on descriptors and the user's view: the operations
  tables, \<open>read\<close>, \<^verbatim>\<open>write\<close> and \<^verbatim>\<open>open\<close> (here \<open>write_sys\<close> and \<open>open_sys\<close>), \<open>close\<close>, \<open>getargs\<close>, \<open>vidmap\<close>.  Each works on the control block
  that the stack pointer designates.
\<close>

section \<open>How a system call ends\<close>

text \<open>
  \<open>RETURN(v)\<close> drops the frame and jumps to the end of the dispatcher; a C \<open>return\<close> takes the return
  address from the frame; \<open>execute\<close> leaves by \<^verbatim>\<open>iret\<close> for user mode.
\<close>

record user_frame =
  uf_ss :: u32
  uf_esp :: u32
  uf_eflags :: u32
  uf_cs :: u32
  uf_eip :: u32

datatype outcome = Sys_return int | C_return int | To_user user_frame

definition sys_return :: "int \<Rightarrow> 'a kernel_scheme \<Rightarrow> ('a kernel_scheme \<times> outcome) res" where
  "sys_return v st = Inr (st\<lparr>esp := ebp st\<rparr>, Sys_return v)"

section \<open>Operations tables\<close>

definition dir_operations_table :: file_ops where
  "dir_operations_table = \<lparr>read_op = Some Dir, write_op = Some Dir, open_op = Some Dir, close_op = Some Dir\<rparr>"

definition file_operations_table :: file_ops where
  "file_operations_table = \<lparr>read_op = Some File, write_op = Some File, open_op = Some File, close_op = Some File\<rparr>"

definition rtc_operations_table :: file_ops where
  "rtc_operations_table = \<lparr>read_op = Some Rtc, write_op = Some Rtc, open_op = Some Rtc, close_op = Some Rtc\<rparr>"

definition stdout_fd :: file_desc where
  "stdout_fd = \<lparr>operations_table = \<lparr>read_op = None, write_op = Some Terminal, open_op = Some Terminal,
     close_op = Some Terminal\<rparr>, inode = 0, file_position = 0, fd_flags = 0\<rparr>"

definition stdin_fd :: file_desc where
  "stdin_fd = \<lparr>operations_table = \<lparr>read_op = Some Terminal, write_op = None, open_op = Some Terminal,
     close_op = Some Terminal\<rparr>, inode = 0, file_position = 0, fd_flags = 0\<rparr>"

text \<open>
  Calls through the table's pointers.  \<open>wait\<close> is what interrupts do to the state while a driver's
  wait loop spins.
\<close>

definition call_read ::
  "(driver \<Rightarrow> 'a kernel_scheme \<Rightarrow> 'a kernel_scheme option) \<Rightarrow> driver option \<Rightarrow> nat \<Rightarrow> addr \<Rightarrow> int \<Rightarrow>
    'a kernel_scheme \<Rightarrow> ('a kernel_scheme \<times> int) res" where
  "call_read wait d fd buf nbytes st =
     (case d of
        None \<Rightarrow> Inl NullCall
      | Some Rtc \<Rightarrow> rtc_read (wait Rtc) st
      | Some Dir \<Rightarrow> dir_read fd buf (of_int nbytes) st
      | Some File \<Rightarrow> Inr (file_read fd buf (of_int nbytes) st)
      | Some Terminal \<Rightarrow> terminal_read (wait Terminal) buf nbytes st)"

definition call_write ::
  "driver option \<Rightarrow> nat \<Rightarrow> addr \<Rightarrow> int \<Rightarrow> 'a kernel_scheme \<Rightarrow> ('a kernel_scheme \<times> int) res" where
  "call_write d fd buf nbytes st =
     (case d of
        None \<Rightarrow> Inl NullCall
      | Some Rtc \<Rightarrow> Inr (rtc_write buf st)
      | Some Dir \<Rightarrow> Inr (st, dir_write fd buf (of_int nbytes))
      | Some File \<Rightarrow> Inr (st, file_write fd buf (of_int nbytes))
      | Some Terminal \<Rightarrow> terminal_write buf nbytes st)"

definition call_close :: "driver option \<Rightarrow> nat \<Rightarrow> int res" where
  "call_close d fd =
     (case d of
        None \<Rightarrow> Inl NullCall
      | Some Rtc \<Rightarrow> Inr (rtc_close fd)
      | Some Dir \<Rightarrow> Inr (dir_close fd)
      | Some File \<Rightarrow> Inr (file_close fd)
      | Some Terminal \<Rightarrow> Inr (terminal_close fd))"

section \<open>Descriptors\<close>

definition set_fd :: "nat \<Rightarrow> (file_desc \<Rightarrow> file_desc) \<Rightarrow> 'a kernel_scheme \<Rightarrow> 'a kernel_scheme" where
  "set_fd i f st = update_pcb (current_pcb_addr st) (\<lambda>p. p\<lparr>files := (files p)(i := f (files p i))\<rparr>) st"

definition read ::
  "(driver \<Rightarrow> 'a kernel_scheme \<Rightarrow> 'a kernel_scheme option) \<Rightarrow> int \<Rightarrow> addr \<Rightarrow> int \<Rightarrow>
    'a kernel_scheme \<Rightarrow> ('a kernel_scheme \<times> outcome) res" where
  "read wait fd buf nbytes st =
     (if fd < 0 \<or> 7 < fd \<or> buf = 0 \<or> nbytes < 0 then sys_return (- 1) st
      else if fd = 1 then sys_return (- 1) st
      else
        (let file = files (current_pcb st) (nat fd) in
         if fd_flags file = 0 then sys_return (- 1) st
         else andthen (call_read wait (read_op (operations_table file)) (nat fd) buf nbytes st)
           (\<lambda>(st, n). sys_return n st)))"

definition write_sys :: "int \<Rightarrow> addr \<Rightarrow> int \<Rightarrow> 'a kernel_scheme \<Rightarrow> ('a kernel_scheme \<times> outcome) res" where
  "write_sys fd buf nbytes st =
     (if fd < 0 \<or> 7 < fd \<or> buf = 0 \<or> nbytes < 0 then sys_return (- 1) st
      else if fd = 0 then sys_return (- 1) st
      else
        (let file = files (current_pcb st) (nat fd) in
         if fd_flags file = 0 then sys_return (- 1) st
         else andthen (call_write (write_op (operations_table file)) (nat fd) buf nbytes st)
           (\<lambda>(st, n). sys_return n st)))"

text \<open>\<open>open_sys\<close> is \<open>open\<close>; \<open>prev\<close> is the byte \<open>rtc_open\<close> reads from the clock's register.\<close>

definition open_sys :: "u8 \<Rightarrow> addr \<Rightarrow> 'a kernel_scheme \<Rightarrow> ('a kernel_scheme \<times> outcome) res" where
  "open_sys prev filename st =
     (case find (\<lambda>i. fd_flags (files (current_pcb st) i) = 0) [2..<8] of
        None \<Rightarrow> sys_return (- 1) st
      | Some i \<Rightarrow>
          andthen (read_dentry_by_name (vmem st) (g_boot_block st) filename) (\<lambda>r.
            case r of None \<Rightarrow> sys_return (- 1) st
            | Some (k, dentry) \<Rightarrow>
                if file_type dentry = 0 then
                  (let st = set_fd i (\<lambda>f. f\<lparr>operations_table := rtc_operations_table\<rparr>) st;
                       st = set_fd i (\<lambda>f. f\<lparr>file_position := 0\<rparr>) st;
                       st = set_fd i (\<lambda>f. f\<lparr>fd_flags := 1\<rparr>) st
                   in sys_return (int i) (fst (rtc_open prev st)))
                else if file_type dentry = 1 then
                  (let st = set_fd i (\<lambda>f. f\<lparr>operations_table := dir_operations_table\<rparr>) st;
                       st = set_fd i (\<lambda>f. f\<lparr>file_position := 0\<rparr>) st;
                       st = set_fd i (\<lambda>f. f\<lparr>fd_flags := 1\<rparr>) st
                   in sys_return (int i) st)
                else if file_type dentry = 2 then
                  (let st = set_fd i (\<lambda>f. f\<lparr>operations_table := file_operations_table\<rparr>) st;
                       st = set_fd i (\<lambda>f. f\<lparr>inode := inode_num dentry\<rparr>) st;
                       st = set_fd i (\<lambda>f. f\<lparr>file_position := 0\<rparr>) st;
                       st = set_fd i (\<lambda>f. f\<lparr>fd_flags := 1\<rparr>) st
                   in sys_return (int i) st)
                else sys_return (- 1) st))"

definition close :: "int \<Rightarrow> 'a kernel_scheme \<Rightarrow> ('a kernel_scheme \<times> outcome) res" where
  "close fd st =
     (if fd < 2 \<or> 7 < fd then sys_return (- 1) st
      else if fd_flags (files (current_pcb st) (nat fd)) = 0 then sys_return (- 1) st
      else
        (let st = set_fd (nat fd) (\<lambda>f. f\<lparr>fd_flags := 0\<rparr>) st
         in andthen (call_close (close_op (operations_table (files (current_pcb st) (nat fd)))) (nat fd))
              (\<lambda>ret. sys_return ret st)))"

section \<open>Arguments and video memory\<close>

function getargs_loop :: "(nat \<Rightarrow> u8) \<Rightarrow> addr \<Rightarrow> nat \<Rightarrow> nat \<Rightarrow> mem \<Rightarrow> mem" where
  "getargs_loop arg buf nbytes i m =
     (if i < nbytes then
        (if arg i = 0 then m(buf + of_nat i := 0)
         else getargs_loop arg buf nbytes (i + 1) (m(buf + of_nat i := arg i)))
      else m)"
  by pat_completeness auto
termination by (relation "measure (\<lambda>(arg, buf, nbytes, i, m). nbytes - i)") auto

declare getargs_loop.simps [simp del]

definition getargs :: "addr \<Rightarrow> int \<Rightarrow> 'a kernel_scheme \<Rightarrow> ('a kernel_scheme \<times> outcome) res" where
  "getargs buf nbytes st =
     (if buf = 0 \<or> nbytes < 0 \<or> 1024 < nbytes then sys_return (- 1) st
      else if args (current_pcb st) 0 = 0 then sys_return (- 1) st
      else sys_return 0 (set_vmem (getargs_loop (args (current_pcb st)) buf (nat nbytes) 0 (vmem st)) st))"

text \<open>\<open>vidmap\<close>; \<open>vidmem\<close> and \<open>vidmem_pt\<close> are its two uninitialised entries.\<close>

definition vidmap :: "u32 \<Rightarrow> u32 \<Rightarrow> addr \<Rightarrow> 'a kernel_scheme \<Rightarrow> ('a kernel_scheme \<times> outcome) res" where
  "vidmap vidmem vidmem_pt screen_start st =
     andthen (of_loop (get_base_process_pcb (pcbs st) (current_pcb_addr st))) (\<lambda>base.
       (let cur_process_local = process_id (pcbs st base) in
        if screen_start = 0 then sys_return (- 1) st
        else if 0x8400000 < screen_start \<or> screen_start < 0x8400000 - 0x400000 then sys_return (- 1) st
        else
          (let e = put_bits 0 1 1 vidmem;
               e = put_bits 2 1 1 e;
               e = put_bits 1 1 1 e;
               e = put_bits 12 20 (of_int (sint (at_pt_vidmap st) sdiv 4096)) e;
               st = write_pdt 34 e st;
               st = write_pt_vidmap 0 (user_vidmem_entry vidmem_pt
                      (if cur_terminal st = cur_process_local then 0xB8000 div 4096
                       else 0xB8000 div 4096 + of_int cur_process_local)) st;
               st = flush_tlb st;
               st = set_vmem (write32 (vmem st) screen_start 0x8800000) st
           in sys_return 0 st)))"

definition set_handler :: "int \<Rightarrow> addr \<Rightarrow> 'a kernel_scheme \<Rightarrow> ('a kernel_scheme \<times> outcome) res" where
  "set_handler signum handler_address st = Inr (st, C_return 0)"

definition sigreturn :: "'a kernel_scheme \<Rightarrow> ('a kernel_scheme \<times> outcome) res" where
  "sigreturn st = Inr (st, C_return 0)"

end
