(* ===== verification/Execute.thy ===== *)
theory Execute imports SysCalls begin

text \<open>
  \<open>execute\<close> and \<open>halt\<close> of \<^verbatim>\<open>src/src/sys_calls.c\<close>, and the dispatcher of
  \<^verbatim>\<open>src/src/sys_calls_handler.S\<close>: how processes begin and end.
\<close>

section \<open>Locals\<close>

text \<open>
  The addresses of the two locals of \<open>execute\<close> whose address it passes on, its frame pointer, and
  the indeterminate values its other locals start with.
\<close>

record execute_locals =
  at_file_name :: addr
  at_file_metadata :: addr
  frame_pointer :: addr
  junk_page :: u32
  junk_pid :: int

section \<open>The command line\<close>

text \<open>The loop that copies the first word; the copy is an array of 32 bytes.\<close>

function copy_file_name :: "u8 list \<Rightarrow> addr \<Rightarrow> nat \<Rightarrow> mem \<Rightarrow> (mem \<times> nat) res" where
  "copy_file_name command file_name args_idx m =
     (if 32 \<le> args_idx then Inl OutOfBounds
      else if command ! args_idx \<noteq> 32 \<and> command ! args_idx \<noteq> 0
      then copy_file_name command file_name (args_idx + 1) (m(file_name + of_nat args_idx := command ! args_idx))
      else Inr (m(file_name + of_nat args_idx := 0), args_idx))"
  by pat_completeness auto
termination by (relation "measure (\<lambda>(command, file_name, i, m). 32 - i)") auto

declare copy_file_name.simps [simp del]

function skip_spaces :: "u8 list \<Rightarrow> nat \<Rightarrow> nat res" where
  "skip_spaces command args_idx =
     (if length command \<le> args_idx then Inl OutOfBounds
      else if command ! args_idx = 32 then skip_spaces command (args_idx + 1)
      else Inr args_idx)"
  by pat_completeness auto
termination by (relation "measure (\<lambda>(command, i). length command - i)") auto

declare skip_spaces.simps [simp del]

function copy_args :: "u8 list \<Rightarrow> nat \<Rightarrow> nat \<Rightarrow> (nat \<Rightarrow> u8) \<Rightarrow> (nat \<Rightarrow> u8) res" where
  "copy_args command args_idx i arg =
     (if i < 1024 then
        (if length command \<le> args_idx then Inl OutOfBounds
         else if command ! args_idx = 0 then Inr (arg(i := 0))
         else copy_args command (args_idx + 1) (i + 1) (arg(i := command ! args_idx)))
      else Inr arg)"
  by pat_completeness auto
termination by (relation "measure (\<lambda>(command, args_idx, i, arg). 1024 - i)") auto

declare copy_args.simps [simp del]

section \<open>Choosing the process\<close>

text \<open>The loop over the three slots of secondary processes and the two increments behind it.\<close>

definition secondary_process :: "int \<Rightarrow> 'a kernel_scheme \<Rightarrow> 'a kernel_scheme \<times> int" where
  "secondary_process next_pid st =
     (let (st, next_pid) = (case find (\<lambda>i. active_processes st i = 0) [3, 4, 5] of
            None \<Rightarrow> (st, next_pid)
          | Some i \<Rightarrow> (st\<lparr>active_processes := (active_processes st)(i := 1)\<rparr>, i))
      in (st\<lparr>aux_processes := aux_processes st + 1\<rparr>, next_pid + 1))"

text \<open>The result is the state, \<open>next_pid\<close> and \<open>base_boot\<close>.\<close>

definition choose_process :: "bool \<Rightarrow> int \<Rightarrow> 'a kernel_scheme \<Rightarrow> 'a kernel_scheme \<times> int \<times> bool" where
  "choose_process shell next_pid st =
     (if shell then
        (if shell_init_boot st \<noteq> 0 then
           (let pid = shell_init_boot st;
                st = st\<lparr>active_processes := (active_processes st)(pid - 1 := 1)\<rparr>;
                st = st\<lparr>base_shell_booted_bitmask := base_shell_booted_bitmask st OR push_bit (nat (pid - 1)) 1\<rparr>;
                st = st\<lparr>base_shell_live_bitmask := base_shell_booted_bitmask st\<rparr>
            in (st\<lparr>shell_init_boot := 0\<rparr>, pid, True))
         else
           (let shell_to_reboot = base_shell_booted_bitmask st XOR base_shell_live_bitmask st in
            if shell_to_reboot \<noteq> 0 then
              (let pid = (if shell_to_reboot = 1 then 1 else if shell_to_reboot = 2 then 2
                          else if shell_to_reboot = 4 then 3 else next_pid)
               in (st\<lparr>base_shell_live_bitmask := base_shell_booted_bitmask st\<rparr>, pid, True))
            else (let (st, pid) = secondary_process next_pid st in (st, pid, False))))
      else (let (st, pid) = secondary_process next_pid st in (st, pid, False)))"

section \<open>\<open>execute\<close>\<close>

text \<open>From the command to a checked executable: the command, the end of its first word and its inode.\<close>

definition find_executable ::
  "execute_locals \<Rightarrow> addr \<Rightarrow> 'a kernel_scheme \<Rightarrow> ('a kernel_scheme \<times> (u8 list \<times> nat \<times> u32) option) res" where
  "find_executable l command_user st =
     (let command = bytes (vmem st) command_user 128 in
      andthen (copy_file_name command (at_file_name l) 0 (vmem st)) (\<lambda>(m, args_idx).
      let st = set_vmem m st in
      andthen (read_dentry_by_name (vmem st) (g_boot_block st) (at_file_name l)) (\<lambda>r.
      case r of
        None \<Rightarrow> Inr (st, None)
      | Some (k, cur_dentry) \<Rightarrow>
          (let (m, n) = read_data (fs_ptrs st) (inode_num cur_dentry) 0 (at_file_metadata l) 28 (vmem st);
               st = set_vmem m st
           in if n = - 1 then Inr (st, None)
              else if bytes (vmem st) (at_file_metadata l) 4 \<noteq> [0x7F, 0x45, 0x4C, 0x46] then Inr (st, None)
              else Inr (st, Some (command, args_idx, inode_num cur_dentry))))))"

text \<open>The address space of the process and its program.\<close>

definition load_program :: "u32 \<Rightarrow> int \<Rightarrow> u32 \<Rightarrow> 'a kernel_scheme \<Rightarrow> 'a kernel_scheme" where
  "load_program new_page next_pid k st =
     (let st = map_process new_page (of_int (next_pid + 1)) st;
          st = st\<lparr>tss_esp0 := kernel_stack_top next_pid\<rparr>;
          file_length = inode_size (vmem st) (g_inodes st) k;
          (m, n) = read_data (fs_ptrs st) k 0 0x08048000 file_length (vmem st)
      in set_vmem m st)"

text \<open>The control block of the process, linked to its parent.\<close>

definition setup_pcb ::
  "addr \<Rightarrow> int \<Rightarrow> bool \<Rightarrow> u8 list \<Rightarrow> nat \<Rightarrow> addr \<Rightarrow> 'a kernel_scheme \<Rightarrow> 'a kernel_scheme res" where
  "setup_pcb current_PCB next_pid base_boot command args_idx file_name st =
     (let new_PCB = pcb_at next_pid;
          st = update_pcb new_PCB (\<lambda>p. p\<lparr>process_id := next_pid\<rparr>) st;
          st = update_pcb new_PCB (\<lambda>p. p\<lparr>exit_status := 0\<rparr>) st
      in andthen (of_loop (strlen (vmem st) file_name)) (\<lambda>n.
         if 32 \<le> n then Inl OutOfBounds
         else
           (let st = update_pcb new_PCB (\<lambda>p. p\<lparr>pname := bytes (vmem st) file_name (unat n)\<rparr>) st;
                parent = (if base_boot then 0 else pcb_at (process_id (pcbs st current_PCB)));
                st = update_pcb new_PCB (\<lambda>p. p\<lparr>parent_pcb := parent\<rparr>) st;
                st = update_pcb new_PCB (\<lambda>p. p\<lparr>child_pcb := 0\<rparr>) st;
                st = (if base_boot then st else update_pcb current_PCB (\<lambda>p. p\<lparr>child_pcb := new_PCB\<rparr>) st);
                st = update_pcb new_PCB (\<lambda>p. p\<lparr>files := (files p)(0 := stdin_fd\<lparr>fd_flags := 1\<rparr>)\<rparr>) st;
                st = update_pcb new_PCB (\<lambda>p. p\<lparr>files := (files p)(1 := stdout_fd\<lparr>fd_flags := 1\<rparr>)\<rparr>) st;
                st = update_pcb new_PCB (\<lambda>p. p\<lparr>args := (\<lambda>i. if i < 1024 then 0 else args p i)\<rparr>) st
            in andthen (skip_spaces command args_idx) (\<lambda>args_idx.
               andthen (copy_args command args_idx 0 (args (pcbs st new_PCB))) (\<lambda>arg.
                 Inr (update_pcb new_PCB (\<lambda>p. p\<lparr>args := arg\<rparr>) st))))))"

definition execute ::
  "execute_locals \<Rightarrow> addr \<Rightarrow> 'a kernel_scheme \<Rightarrow> ('a kernel_scheme \<times> outcome) res" where
  "execute l command_user st =
     (let st = cli (st\<lparr>ebp := frame_pointer l\<rparr>);
          current_PCB = current_pcb_addr st
      in andthen (find_executable l command_user st) (\<lambda>(st, found).
         case found of
           None \<Rightarrow> sys_return (- 1) st
         | Some (command, args_idx, k) \<Rightarrow>
             (let shell = strncmp (vmem st) (at_file_name l) (lit_shell st) 5 = 0;
                  (st, next_pid, base_boot) = choose_process shell (junk_pid l) st
              in if 3 < aux_processes st then
                   (let st = st\<lparr>aux_processes := aux_processes st - 1\<rparr>
                    in andthen (terminal_write (lit_max_processes st) 33 st) (\<lambda>(st, n). sys_return 1 st))
                 else
                   (let st = load_program (junk_page l) next_pid k st
                    in andthen (setup_pcb current_PCB next_pid base_boot command args_idx (at_file_name l) st)
                      (\<lambda>st.
                        (let frame = \<lparr>uf_ss = 0x2B, uf_esp = 0x8400000 - 4, uf_eflags = 0x202, uf_cs = 0x23,
                               uf_eip = read32 (vmem st) (at_file_metadata l + 24)\<rparr>;
                             st = update_pcb current_PCB (\<lambda>p. p\<lparr>pcb_ebp := ebp st\<rparr>) st
                         in Inr (st\<lparr>int_flag := bit (uf_eflags frame) 9\<rparr>, To_user frame)))))))"

section \<open>\<open>halt\<close>\<close>

primrec close_files :: "nat list \<Rightarrow> 'a kernel_scheme \<Rightarrow> 'a kernel_scheme res" where
  "close_files [] st = Inr st"
| "close_files (i # is) st =
     (let file = files (current_pcb st) i in
      if fd_flags file \<noteq> 0 then
        andthen (if close_op (operations_table file) \<noteq> None
                 then call_close (close_op (operations_table file)) i else Inr 0)
          (\<lambda>r. close_files is (set_fd i (\<lambda>f. f\<lparr>fd_flags := 0\<rparr>) st))
      else close_files is st)"

text \<open>The assembly routine \<open>halt_return\<close>: both registers are set to the parent's frame.\<close>

definition halt_return :: "addr \<Rightarrow> int \<Rightarrow> 'a kernel_scheme \<Rightarrow> ('a kernel_scheme \<times> outcome) res" where
  "halt_return parent_ebp ret_val st = Inr (st\<lparr>ebp := parent_ebp, esp := parent_ebp\<rparr>, Sys_return ret_val)"

text \<open>
  \<open>halt\<close>.  When the restarted shell cannot be executed, \<open>execute\<close> jumps to the end of the dispatcher
  from a frame the dispatcher did not build; that is the fault \<open>StrayReturn\<close>.
\<close>

definition only_to_user :: "('a kernel_scheme \<times> outcome) res \<Rightarrow> ('a kernel_scheme \<times> outcome) res" where
  "only_to_user r = andthen r (\<lambda>(st, out). case out of To_user f \<Rightarrow> Inr (st, out) | _ \<Rightarrow> Inl StrayReturn)"

definition halt ::
  "execute_locals \<Rightarrow> u32 \<Rightarrow> u32 \<Rightarrow> 'a kernel_scheme \<Rightarrow> ('a kernel_scheme \<times> outcome) res" where
  "halt l new_page status st =
     (let st = cli st;
          current_pcb = current_pcb_addr st;
          return_value = (if status = 256 then 0x100 else uint (status AND 0xFF))
      in andthen (close_files [0..<8] st) (\<lambda>st.
         let st = update_pcb current_pcb (\<lambda>p. p\<lparr>exit_status := status\<rparr>) st;
             pid = process_id (pcbs st current_pcb)
         in if 1 \<le> pid \<and> pid \<le> 3 then
              only_to_user (execute l (lit_shell st)
                (st\<lparr>base_shell_live_bitmask := base_shell_live_bitmask st AND NOT (push_bit (nat (pid - 1)) 1)\<rparr>))
            else
              (let parent = parent_pcb (pcbs st current_pcb);
                   st = map_process new_page (of_int (process_id (pcbs st parent) + 1)) st;
                   st = st\<lparr>tss_esp0 := kernel_stack_top (process_id (pcbs st parent))\<rparr>;
                   st = st\<lparr>tss_ss0 := 0x18\<rparr>;
                   st = st\<lparr>active_processes := (active_processes st)(pid - 1 := 0)\<rparr>;
                   st = st\<lparr>aux_processes := aux_processes st - 1\<rparr>;
                   st = update_pcb parent (\<lambda>p. p\<lparr>child_pcb := 0\<rparr>) st
               in halt_return (pcb_ebp (pcbs st (parent_pcb (pcbs st current_pcb)))) return_value st)))"

section \<open>The command line as text\<close>

definition command_word :: "u8 list \<Rightarrow> u8 list" where
  "command_word command = takeWhile (\<lambda>c. c \<noteq> 32 \<and> c \<noteq> 0) command"

definition command_args :: "u8 list \<Rightarrow> u8 list" where
  "command_args command =
     takeWhile (\<lambda>c. c \<noteq> 0) (dropWhile (\<lambda>c. c = 32) (drop (length (command_word command)) command))"

text \<open>A command the kernel can take: terminated within its 128 bytes, the name shorter than 32.\<close>

definition command_ok :: "u8 list \<Rightarrow> bool" where
  "command_ok command \<longleftrightarrow> length command = 128 \<and> 0 \<in> set command \<and> command_word command \<noteq> [] \<and>
     length (command_word command) < 32"

lemma copy_file_name_word:
  "drop i command = w @ c # rest \<Longrightarrow> c = 32 \<or> c = 0 \<Longrightarrow> \<forall>x \<in> set w. x \<noteq> 32 \<and> x \<noteq> 0 \<Longrightarrow>
    i + length w < 32 \<Longrightarrow>
    copy_file_name command a i m = Inr (write_bytes m (a + of_nat i) (w @ [0]), i + length w)"
proof (induction w arbitrary: i m)
  case Nil
  then have "i < length command" by (metis append_Nil drop_all list.distinct(1) not_le)
  then have "command ! i = c" using Nil(1) by (simp flip: Cons_nth_drop_Suc)
  then show ?case using Nil by (subst copy_file_name.simps) auto
next
  case (Cons x w)
  then have "i < length command" by (metis append_Cons drop_all list.distinct(1) not_le)
  then have d: "command ! i = x" "drop (Suc i) command = w @ c # rest"
    using Cons(2) by (simp_all flip: Cons_nth_drop_Suc)
  have "copy_file_name command a (Suc i) (m(a + of_nat i := x)) =
      Inr (write_bytes (m(a + of_nat i := x)) (a + of_nat (Suc i)) (w @ [0]), Suc i + length w)"
    using Cons.prems by (intro Cons.IH [OF d(2)]) auto
  then show ?case
    using Cons.prems d(1) by (subst copy_file_name.simps) (simp add: algebra_simps)
qed

lemma skip_spaces_run:
  "drop i command = replicate k 32 @ c # rest \<Longrightarrow> c \<noteq> 32 \<Longrightarrow> skip_spaces command i = Inr (i + k)"
proof (induction k arbitrary: i)
  case 0
  then have "i < length command" by (metis append_Nil drop_all list.distinct(1) not_le replicate_0)
  then have "command ! i = c" using 0(1) by (simp flip: Cons_nth_drop_Suc)
  then show ?case using 0 \<open>i < length command\<close> by (subst skip_spaces.simps) auto
next
  case (Suc k)
  then have "i < length command" by (metis append_Cons drop_all list.distinct(1) not_le replicate_Suc)
  then have d: "command ! i = 32" "drop (Suc i) command = replicate k 32 @ c # rest"
    using Suc(2) by (simp_all flip: Cons_nth_drop_Suc)
  then show ?case
    using Suc.IH [OF d(2) Suc.prems(2)] \<open>i < length command\<close> by (subst skip_spaces.simps) simp
qed

lemma copy_args_run:
  "drop j command = xs @ 0 # rest \<Longrightarrow> 0 \<notin> set xs \<Longrightarrow> i + length xs < 1024 \<Longrightarrow>
    \<exists>arg'. copy_args command j i arg = Inr arg' \<and>
      (\<forall>p. arg' p = (if i \<le> p \<and> p < i + length xs then xs ! (p - i)
                     else if p = i + length xs then 0 else arg p))"
proof (induction xs arbitrary: i j arg)
  case Nil
  then have "j < length command" by (metis append_Nil drop_all list.distinct(1) not_le)
  then have "command ! j = 0" using Nil(1) by (simp flip: Cons_nth_drop_Suc)
  then show ?case using Nil \<open>j < length command\<close> by (subst copy_args.simps) auto
next
  case (Cons x xs)
  then have jl: "j < length command" by (metis append_Cons drop_all list.distinct(1) not_le)
  then have d: "command ! j = x" "drop (Suc j) command = xs @ 0 # rest"
    using Cons(2) by (simp_all flip: Cons_nth_drop_Suc)
  have "0 \<notin> set xs" "Suc i + length xs < 1024" using Cons.prems by auto
  from Cons.IH [OF d(2) this] obtain arg' where arg':
    "copy_args command (Suc j) (Suc i) (arg(i := x)) = Inr arg'"
    "\<And>p. arg' p = (if Suc i \<le> p \<and> p < Suc i + length xs then xs ! (p - Suc i)
        else if p = Suc i + length xs then 0 else (arg(i := x)) p)" by auto
  have "copy_args command j i arg = Inr arg'"
    using jl d(1) Cons.prems arg'(1) by (subst copy_args.simps) auto
  moreover have "arg' p = (if i \<le> p \<and> p < i + length (x # xs) then (x # xs) ! (p - i)
      else if p = i + length (x # xs) then 0 else arg p)" for p
    unfolding arg'(2) by (auto simp: nth_Cons')
  ultimately show ?case by blast
qed

text \<open>The three loops on a command the kernel can take.\<close>

lemma takeWhile_stop: "x \<in> set xs \<Longrightarrow> \<not> P x \<Longrightarrow> \<exists>c rest. xs = takeWhile P xs @ c # rest \<and> \<not> P c"
  by (induction xs) auto

lemma dropWhile_replicate: "xs = replicate (length xs - length (dropWhile (\<lambda>c. c = y) xs)) y @ dropWhile (\<lambda>c. c = y) xs"
proof -
  have "takeWhile (\<lambda>c. c = y) xs = replicate (length (takeWhile (\<lambda>c. c = y) xs)) y"
    by (metis (mono_tags) replicate_length_same set_takeWhileD)
  moreover have "length (takeWhile (\<lambda>c. c = y) xs) = length xs - length (dropWhile (\<lambda>c. c = y) xs)"
    by (metis add_diff_cancel_right' length_append takeWhile_dropWhile_id)
  ultimately show ?thesis by (metis takeWhile_dropWhile_id)
qed

lemma command_parse:
  assumes "command_ok command"
  shows "copy_file_name command a 0 m = Inr (write_bytes m a (command_word command @ [0]), length (command_word command))"
    "\<exists>j. skip_spaces command (length (command_word command)) = Inr j \<and>
      (\<exists>arg'. copy_args command j 0 arg = Inr arg' \<and>
        (\<forall>p. arg' p = (if p < length (command_args command) then command_args command ! p
                       else if p = length (command_args command) then 0 else arg p)))"
    "0 \<notin> set (command_word command)" "length (command_args command) < 128" "0 \<notin> set (command_args command)"
proof -
  let ?w = "command_word command"
  have z: "0 \<in> set command" "length command = 128" "length ?w < 32" using assms by (simp_all add: command_ok_def)
  obtain c rest where c: "command = ?w @ c # rest" "c = 32 \<or> c = 0"
    using takeWhile_stop [OF z(1), of "\<lambda>c. c \<noteq> 32 \<and> c \<noteq> 0"] by (auto simp: command_word_def)
  have nw: "\<forall>x \<in> set ?w. x \<noteq> 32 \<and> x \<noteq> 0" by (auto simp: command_word_def dest: set_takeWhileD)
  then show "0 \<notin> set ?w" by auto
  show "copy_file_name command a 0 m = Inr (write_bytes m a (?w @ [0]), length ?w)"
    using copy_file_name_word [of 0 command ?w c rest a m] c nw z(3) by simp
  define ys where "ys = drop (length ?w) command"
  define zs where "zs = dropWhile (\<lambda>c. c = 32) ys"
  have ys: "ys = c # rest" unfolding ys_def using c(1) by (metis append_eq_conv_conj)
  have "0 \<in> set ys"
  proof -
    have "set command = set ?w \<union> set ys" using c(1) ys by (metis set_append)
    then show ?thesis using z(1) nw by auto
  qed
  then have zz: "0 \<in> set zs"
    unfolding zs_def by (induction ys) auto
  have zs: "ys = replicate (length ys - length zs) 32 @ zs"
    unfolding zs_def by (rule dropWhile_replicate)
  obtain y r2 where zy: "zs = y # r2" using zz by (cases zs) auto
  have y: "y \<noteq> 32" using zy hd_dropWhile [of "\<lambda>c. c = 32" ys] unfolding zs_def by auto
  define j where "j = length ?w + (length ys - length zs)"
  have "drop (length ?w) command = replicate (length ys - length zs) 32 @ y # r2"
    using zs zy ys_def by metis
  then have sk: "skip_spaces command (length ?w) = Inr j"
    unfolding j_def using y by (rule skip_spaces_run)
  have dj: "drop j command = zs"
    unfolding j_def using zs by (metis add.commute append_eq_conv_conj drop_drop length_replicate ys_def)
  obtain c2 r3 where c2: "zs = takeWhile (\<lambda>c. c \<noteq> 0) zs @ c2 # r3" "c2 = 0"
    using takeWhile_stop [OF zz, of "\<lambda>c. c \<noteq> 0"] by auto
  have ca: "command_args command = takeWhile (\<lambda>c. c \<noteq> 0) zs"
    by (simp add: command_args_def zs_def ys_def)
  have "length zs \<le> 128" using dj z(2) by (metis diff_le_self length_drop)
  moreover have "length zs = Suc (length (command_args command) + length r3)"
    using c2(1) ca by (metis add_Suc_right length_Cons length_append)
  ultimately show l: "length (command_args command) < 128" by simp
  show n0: "0 \<notin> set (command_args command)" unfolding ca by (auto dest: set_takeWhileD)
  show "\<exists>j. skip_spaces command (length ?w) = Inr j \<and>
      (\<exists>arg'. copy_args command j 0 arg = Inr arg' \<and>
        (\<forall>p. arg' p = (if p < length (command_args command) then command_args command ! p
                       else if p = length (command_args command) then 0 else arg p)))"
    using copy_args_run [of j command "command_args command" r3 0 arg] dj c2 ca l n0 sk by auto
qed

end
