(* ===== verification/Lifecycle.thy ===== *)
theory Lifecycle imports Execute begin

text \<open>
  The steps of \<open>execute\<close> and \<open>halt\<close>: finding the program, loading it into its address space, its
  control block and its slot in the process table, and pushing and popping on the process stacks.
\<close>

section \<open>Finding the program\<close>

definition lookup_name :: "mem \<Rightarrow> addr \<Rightarrow> u8 list \<Rightarrow> dir_entry option" where
  "lookup_name m bb w = map_option (dentry_at m bb) (find (\<lambda>i. dir_names m bb ! i = w) [0..<length (dir_names m bb)])"

definition elf :: "mem \<Rightarrow> addr \<times> addr \<times> addr \<Rightarrow> u32 \<Rightarrow> bool" where
  "elf m fs k \<longleftrightarrow> inode_ok m fs k \<and> 28 \<le> file_size m fs k \<and>
     take 4 (file_bytes m fs k) = [0x7F, 0x45, 0x4C, 0x46]"

lemma find_Some_in: "find P xs = Some x \<Longrightarrow> x \<in> set xs \<and> P x"
  by (induction xs) (auto split: if_splits)

lemma same_image_dir:
  assumes "same_image bb (fs_length m bb) m m'" "num_dir_entries m bb \<le> 63"
  shows "dir_names m' bb = dir_names m bb" "i < length (dir_names m bb) \<Longrightarrow> dentry_at m' bb i = dentry_at m bb i"
    "lookup_name m' bb w = lookup_name m bb w"
proof -
  note c = same_image_counts [OF assms(1)]
  have n: "unat (num_dir_entries m bb) \<le> 63" using assms(2) by (simp add: word_le_nat_alt)
  have nth: "m' (dentry_addr bb (of_nat i) + of_nat j) = m (dentry_addr bb (of_nat i) + of_nat j)"
    if "i < unat (num_dir_entries m bb)" "j < 64" for i j
  proof -
    have "64 + 64 * i + j < fs_length m bb" using that n fs_length_ge [of m bb] by simp
    from same_image_nth [OF assms(1) this] show ?thesis by (simp add: dentry_addr_def algebra_simps)
  qed
  have fld: "field_string m' (dentry_addr bb (of_nat i)) 32 = field_string m (dentry_addr bb (of_nat i)) 32"
    if "i < unat (num_dir_entries m bb)" for i
    using nth [OF that] unfolding field_string_def by (intro arg_cong [of _ _ "takeWhile _"] bytes_cong) simp
  then show names: "dir_names m' bb = dir_names m bb" by (simp add: dir_names_def c)
  have d: "dentry_at m' bb i = dentry_at m bb i" if "i < length (dir_names m bb)" for i
  proof -
    have i: "i < unat (num_dir_entries m bb)" using that by (simp add: dir_names_def)
    note e = nth [OF i]
    have r: "bytes m' (dentry_addr bb (of_nat i) + of_nat p) n = bytes m (dentry_addr bb (of_nat i) + of_nat p) n"
      if "p + n \<le> 64" for p n
    proof (rule bytes_cong)
      fix j assume "j < n"
      then show "m' (dentry_addr bb (of_nat i) + of_nat p + of_nat j) = m (dentry_addr bb (of_nat i) + of_nat p + of_nat j)"
        using e [of "p + j"] that by (simp add: add.assoc)
    qed
    have "bytes m' (dentry_addr bb (of_nat i)) 32 = bytes m (dentry_addr bb (of_nat i)) 32"
      "bytes m' (dentry_addr bb (of_nat i) + 40) 24 = bytes m (dentry_addr bb (of_nat i) + 40) 24"
      "read32 m' (dentry_addr bb (of_nat i) + 32) = read32 m (dentry_addr bb (of_nat i) + 32)"
      "read32 m' (dentry_addr bb (of_nat i) + 36) = read32 m (dentry_addr bb (of_nat i) + 36)"
      using r [of 0 32] r [of 40 24] read32_cong [OF r [of 32 4]] read32_cong [OF r [of 36 4]] by simp_all
    then show ?thesis by (simp add: dentry_at_def)
  qed
  then show "i < length (dir_names m bb) \<Longrightarrow> dentry_at m' bb i = dentry_at m bb i" .
  show "lookup_name m' bb w = lookup_name m bb w"
  proof -
    define r where "r = find (\<lambda>i. dir_names m bb ! i = w) [0..<length (dir_names m bb)]"
    have "map_option (dentry_at m' bb) r = map_option (dentry_at m bb) r"
    proof (cases r)
      case (Some i)
      then have "i < length (dir_names m bb)" using find_Some_in unfolding r_def by fastforce
      then show ?thesis using d Some by simp
    qed simp
    then show ?thesis unfolding lookup_name_def names r_def .
  qed
qed

text \<open>The two locals of \<open>execute\<close> are apart from each other and from the image.\<close>

definition locals_ok :: "execute_locals \<Rightarrow> 'a fsys_scheme \<Rightarrow> bool" where
  "locals_ok l st \<longleftrightarrow> at_file_name l \<noteq> 0 \<and> apart (at_file_name l) 32 (at_file_metadata l) 28 \<and>
     apart (at_file_name l) 32 (g_boot_block st) (fs_length (vmem st) (g_boot_block st)) \<and>
     apart (at_file_metadata l) 28 (g_boot_block st) (fs_length (vmem st) (g_boot_block st))"

lemma apart_shorten: "apart a n b k \<Longrightarrow> n' \<le> n \<Longrightarrow> n \<le> 4294967296 \<Longrightarrow> apart a n' b k"
  using apart_sub [of a n b k 0 n'] by simp

lemma lookup_read_dentry:
  assumes "cstring m fname w" "w \<noteq> []" "length w \<le> 32" "fname \<noteq> 0"
  shows "\<exists>f. read_dentry_by_name m bb fname = Inr (map_option (\<lambda>d. (f d, d)) (lookup_name m bb w))"
proof -
  define r where "r = find (\<lambda>i. dir_names m bb ! i = w) [0..<length (dir_names m bb)]"
  have 1: "read_dentry_by_name m bb fname = Inr (map_option (\<lambda>i. (of_nat i, dentry_at m bb i)) r)"
    unfolding r_def by (rule read_dentry_by_name_find [OF assms])
  have 2: "lookup_name m bb w = map_option (dentry_at m bb) r" unfolding r_def by (rule lookup_name_def)
  show ?thesis
    unfolding 1 2 by (cases r) (auto intro: exI [of _ "\<lambda>_. of_nat (the r)"])
qed

lemma find_executable_word:
  assumes "fs_ok (vmem st) (fs_ptrs st)" "locals_ok l st" "command_ok (bytes (vmem st) cu 128)"
  defines "w \<equiv> command_word (bytes (vmem st) cu 128)"
  defines "m1 \<equiv> write_bytes (vmem st) (at_file_name l) (w @ [0])"
  shows "same_image (g_boot_block st) (fs_length (vmem st) (g_boot_block st)) (vmem st) m1"
    "\<exists>f. read_dentry_by_name m1 (g_boot_block st) (at_file_name l) =
      Inr (map_option (\<lambda>d. (f d, d)) (lookup_name (vmem st) (g_boot_block st) w))"
    "cstring m1 (at_file_name l) w"
proof -
  let ?bb = "g_boot_block st"
  have w: "w \<noteq> []" "length w < 32" "0 \<notin> set w"
    using assms(3) command_parse(3) [OF assms(3)] by (simp_all add: command_ok_def w_def)
  have len: "fs_length (vmem st) ?bb \<le> 4294967296" using fs_ok_length [OF assms(1)] by (simp add: fs_ptrs_def)
  have "apart (at_file_name l) (length (w @ [0])) ?bb (fs_length (vmem st) ?bb)"
    using assms(2) w(2) by (auto simp: locals_ok_def elim!: apart_shorten)
  then show s: "same_image ?bb (fs_length (vmem st) ?bb) (vmem st) m1"
    unfolding m1_def using w(2) len by (intro write_same_image) auto
  show c: "cstring m1 (at_file_name l) w" unfolding m1_def using w by (intro cstring_write) auto
  have fn: "at_file_name l \<noteq> 0" using assms(2) by (simp add: locals_ok_def)
  have "num_dir_entries (vmem st) ?bb \<le> 63" using assms(1) by (simp add: fs_ok_def fs_ptrs_def)
  then show "\<exists>f. read_dentry_by_name m1 ?bb (at_file_name l) =
      Inr (map_option (\<lambda>d. (f d, d)) (lookup_name (vmem st) ?bb w))"
    using lookup_read_dentry [OF c w(1) _ fn, of ?bb] w(2) same_image_dir(3) [OF s] by simp
qed

lemma find_executable_elf:
  assumes "fs_ok (vmem st) (fs_ptrs st)" "locals_ok l st" "command_ok (bytes (vmem st) cu 128)"
  defines "w \<equiv> command_word (bytes (vmem st) cu 128)"
  assumes "lookup_name (vmem st) (g_boot_block st) w = Some d" "elf (vmem st) (fs_ptrs st) (inode_num d)"
  defines "m2 \<equiv> write_bytes (write_bytes (vmem st) (at_file_name l) (w @ [0])) (at_file_metadata l)
    (take 28 (file_bytes (vmem st) (fs_ptrs st) (inode_num d)))"
  shows "find_executable l cu st = Inr (set_vmem m2 st, Some (bytes (vmem st) cu 128, length w, inode_num d))"
    "same_image (g_boot_block st) (fs_length (vmem st) (g_boot_block st)) (vmem st) m2"
    "cstring m2 (at_file_name l) w"
    "bytes m2 (at_file_metadata l) 28 = take 28 (file_bytes (vmem st) (fs_ptrs st) (inode_num d))"
proof -
  let ?bb = "g_boot_block st" and ?fs = "fs_ptrs st" and ?k = "inode_num d"
  define m1 where "m1 = write_bytes (vmem st) (at_file_name l) (w @ [0])"
  note f = find_executable_word [OF assms(1-3), folded w_def, folded m1_def]
  have bb: "fst ?fs = ?bb" by (simp add: fs_ptrs_def)
  have iok: "inode_ok (vmem st) ?fs ?k" and sz: "28 \<le> file_size (vmem st) ?fs ?k"
    and magic: "take 4 (file_bytes (vmem st) ?fs ?k) = [0x7F, 0x45, 0x4C, 0x46]"
    using assms(6) by (simp_all add: elf_def)
  have w32: "length w < 32" "command_ok (bytes (vmem st) cu 128)"
    using assms(3) by (simp_all add: command_ok_def w_def)
  note s = same_image_file [OF assms(1) f(1) [folded bb] iok]
  let ?head = "take 28 (file_bytes (vmem st) ?fs ?k)"
  have hl: "length ?head = 28" using sz by simp
  have "apart (at_file_metadata l) 28 (fst ?fs) (fs_length m1 (fst ?fs))"
    using assms(2) s(1) bb by (simp add: locals_ok_def)
  then have rd: "read_data ?fs ?k 0 (at_file_metadata l) 28 m1 = (m2, 28)"
    using read_data_bytes [OF s(2,3), of 0 28 28 "at_file_metadata l"] sz s(4,5)
    by (simp add: m2_def m1_def)
  have am: "apart (at_file_metadata l) (length ?head) (at_file_name l) 32"
    using assms(2) apart_sym hl by (simp add: locals_ok_def)
  show meta: "bytes m2 (at_file_metadata l) 28 = ?head"
    unfolding m2_def using hl by (intro bytes_write_same) simp_all
  have "bytes m2 (at_file_metadata l) 4 = take 4 (bytes m2 (at_file_metadata l) 28)"
    by (simp add: take_bytes)
  then have mg: "bytes m2 (at_file_metadata l) 4 = [0x7F, 0x45, 0x4C, 0x46]"
    unfolding meta using magic by (simp add: min_def)
  obtain g where g: "read_dentry_by_name m1 ?bb (at_file_name l) = Inr (Some (g d, d))"
    using f(2) assms(5) by auto
  show "find_executable l cu st = Inr (set_vmem m2 st, Some (bytes (vmem st) cu 128, length w, ?k))"
    unfolding find_executable_def Let_def
    using command_parse(1) [OF w32(2), of "at_file_name l" "vmem st"] g rd mg
    by (simp add: w_def [symmetric] m1_def [symmetric] fs_ptrs_def paged.set_set)
  have same: "bytes m2 (at_file_name l) 32 = bytes m1 (at_file_name l) 32"
    unfolding m2_def m1_def [symmetric] by (rule bytes_write_apart [OF am]) (simp_all add: hl)
  have nth: "m2 (at_file_name l + of_nat i) = m1 (at_file_name l + of_nat i)" if "i < 32" for i
    using same that by (metis nth_bytes)
  have "bytes m2 (at_file_name l) (length w) = bytes m1 (at_file_name l) (length w)"
    using nth w32(1) by (intro bytes_cong) simp
  then show "cstring m2 (at_file_name l) w" using f(3) nth [OF w32(1)] by (simp add: cstring_def)
  have "same_image ?bb (fs_length (vmem st) ?bb) m1 m2"
    unfolding m2_def m1_def [symmetric]
    using assms(2) fs_ok_length [OF assms(1)] hl bb by (intro write_same_image) (simp_all add: locals_ok_def)
  then show "same_image ?bb (fs_length (vmem st) ?bb) (vmem st) m2"
    using f(1) by (simp add: same_image_def)
qed

lemma find_executable_none:
  assumes "fs_ok (vmem st) (fs_ptrs st)" "locals_ok l st" "command_ok (bytes (vmem st) cu 128)"
  defines "w \<equiv> command_word (bytes (vmem st) cu 128)"
  assumes "lookup_name (vmem st) (g_boot_block st) w = None"
  shows "find_executable l cu st = Inr (set_vmem (write_bytes (vmem st) (at_file_name l) (w @ [0])) st, None)"
proof -
  note f = find_executable_word [OF assms(1-3), folded w_def]
  show ?thesis
    unfolding find_executable_def Let_def
    using command_parse(1) [OF assms(3), of "at_file_name l" "vmem st"] f(2) assms(5)
    by (simp add: w_def [symmetric])
qed

section \<open>The program in its address space\<close>

text \<open>Memory of the kernel's own 4 MB page, which no process frame overlaps.\<close>

definition low :: "addr \<Rightarrow> nat \<Rightarrow> bool" where
  "low a n \<longleftrightarrow> 0x400000 \<le> unat a \<and> unat a + n \<le> 0x800000"

lemma low_block: "low a n \<Longrightarrow> i < n \<Longrightarrow> drop_bit 22 (a + of_nat i) = 1"
proof -
  assume a: "low a n" "i < n"
  then have "unat (a + of_nat i) = unat a + i"
    by (simp add: low_def unat_word_ariths)
  then have "unat (drop_bit 22 (a + of_nat i)) = 1"
    using a by (simp add: unat_drop_bit_u32 low_def div_nat_eqI)
  then show ?thesis by (simp add: word_unat_eq_iff)
qed

definition process_mapped :: "'a vmm_scheme \<Rightarrow> int \<Rightarrow> bool" where
  "process_mapped st p \<longleftrightarrow> user_mapped st \<and> drop_bit 22 (pdt st 32) = of_int (p + 1)"

lemma frame_not_low: "1 \<le> p \<Longrightarrow> p \<le> 6 \<Longrightarrow> (of_int (p + 1) :: u32) \<noteq> 1 \<and> (of_int (p + 1) :: u32) \<noteq> 32"
proof -
  assume "1 \<le> p" "p \<le> 6"
  then have "p = 1 \<or> p = 2 \<or> p = 3 \<or> p = 4 \<or> p = 5 \<or> p = 6" by arith
  then show ?thesis by auto
qed

lemma vmem_low:
  assumes "process_mapped st p" "1 \<le> p" "p \<le> 6" "drop_bit 22 a = 1"
  shows "vmem st a = phys st a"
  using assms frame_not_low [OF assms(2,3)] by (auto simp: vmem_def remap_def Let_def process_mapped_def)

lemma map_process_mapped: "1 \<le> p \<Longrightarrow> p \<le> 6 \<Longrightarrow> process_mapped (map_process g (of_int (p + 1)) st) p"
  unfolding process_mapped_def user_mapped_def table_frames fun_upd_same
  using pdt_entry_user frame_small pdt_entry_present by blast

lemma apart_below: "unat a + n \<le> unat b \<Longrightarrow> unat b + k \<le> 4294967296 \<Longrightarrow> apart a n (b :: addr) k"
proof -
  assume ab: "unat a + n \<le> unat b" and bk: "unat b + k \<le> 4294967296"
  show ?thesis
  proof (cases "n = 0 \<or> k = 0")
    case False
    have "a \<le> b" using ab by (simp add: word_le_nat_alt)
    then have d: "unat (b - a) = unat b - unat a" by (simp add: unat_sub)
    have "unat (a - b) = unat a + 4294967296 - unat b"
      using ab False by (simp add: unat_sub_if')
    then have "k \<le> unat (a - b)" using bk by linarith
    moreover have "n \<le> unat (b - a)" using d ab by linarith
    ultimately show ?thesis by (simp add: apart_def)
  qed (auto simp: apart_def)
qed

definition image_low :: "'a fsys_scheme \<Rightarrow> bool" where
  "image_low st \<longleftrightarrow> fs_ok (vmem st) (fs_ptrs st) \<and> low (g_boot_block st) (fs_length (vmem st) (g_boot_block st))"

lemma map_process_frames2 [simp]:
  "fs_ptrs (map_process g n s) = fs_ptrs s" "g_boot_block (map_process g n s) = g_boot_block s"
  "g_inodes (map_process g n s) = g_inodes s" "g_data_blocks (map_process g n s) = g_data_blocks s" "phys (map_process g n s) = phys s"
  by (simp_all add: map_process_def flush_tlb_def write_pdt_def fs_ptrs_def)

lemma same_image_low:
  assumes "low bb (fs_length m bb)" "\<And>a. drop_bit 22 a = 1 \<Longrightarrow> m' a = m a"
  shows "same_image bb (fs_length m bb) m m'"
  unfolding same_image_def by (intro bytes_cong assms(2) low_block [OF assms(1)])

definition fits_user :: "nat \<Rightarrow> bool" where
  "fits_user n \<longleftrightarrow> n \<le> 0x3B8000"

text \<open>The user page is not a window on the kernel's 4 MB: no process is mapped, or one of the six.\<close>

definition low_direct :: "'a vmm_scheme \<Rightarrow> bool" where
  "low_direct st \<longleftrightarrow> (\<forall>a. drop_bit 22 a = 1 \<longrightarrow> remap st a = a)"

lemma low_direct_mapped: "process_mapped st p \<Longrightarrow> 1 \<le> p \<Longrightarrow> p \<le> 6 \<Longrightarrow> low_direct st"
  using frame_not_low by (auto simp: low_direct_def remap_def Let_def process_mapped_def)

lemma low_direct_unmapped: "\<not> user_mapped st \<Longrightarrow> low_direct st"
  by (simp add: low_direct_def remap_def)

lemma load_program_ok:
  fixes g :: u32
  assumes "low_direct st" "1 \<le> q" "q \<le> 6"
    and "image_low st" "inode_ok (vmem st) (fs_ptrs st) k" "fits_user (file_size (vmem st) (fs_ptrs st) k)"
  defines "st' \<equiv> load_program g q k st"
  shows "process_mapped st' q"
    "bytes (vmem st') 0x08048000 (file_size (vmem st) (fs_ptrs st) k) = file_bytes (vmem st) (fs_ptrs st) k"
    "drop_bit 22 a = 1 \<Longrightarrow> vmem st' a = vmem st a"
    "st' = (map_process g (of_int (q + 1)) st)\<lparr>phys := phys st', tss_esp0 := kernel_stack_top q\<rparr>"
proof -
  let ?fs = "fs_ptrs st" and ?bb = "g_boot_block st"
  define s1 where "s1 = (map_process g (of_int (q + 1)) st)\<lparr>tss_esp0 := kernel_stack_top q\<rparr>"
  have s1: "process_mapped s1 q" "fs_ptrs s1 = ?fs" "phys s1 = phys st" "g_inodes s1 = g_inodes st"
    using map_process_mapped [OF assms(2,3), of g st]
    by (simp_all add: s1_def process_mapped_def user_mapped_def fs_ptrs_def)
  have low: "vmem s1 a = vmem st a" if "drop_bit 22 a = 1" for a
    using assms(1) that vmem_low [OF s1(1) assms(2,3) that] s1(3) by (simp add: low_direct_def vmem_def)
  have ok: "fs_ok (vmem st) ?fs" "low ?bb (fs_length (vmem st) ?bb)"
    using assms(4) by (simp_all add: image_low_def)
  have fst: "fst ?fs = ?bb" by (simp add: fs_ptrs_def)
  have "same_image ?bb (fs_length (vmem st) ?bb) (vmem st) (vmem s1)"
    by (rule same_image_low [OF ok(2) low])
  note im = same_image_file [OF ok(1) this [folded fst] assms(5)]
  have sz: "file_size (vmem st) ?fs k \<le> 0x3B8000" using assms(6) by (simp add: fits_user_def)
  have size: "unat (inode_size (vmem s1) (g_inodes s1) k) = file_size (vmem st) ?fs k"
    using im(4) s1(4) by (simp add: file_size_def fs_ptrs_def)
  have "apart ?bb (fs_length (vmem st) ?bb) 0x08048000 (file_size (vmem st) ?fs k)"
    using ok(2) sz by (intro apart_below) (simp_all add: low_def)
  then have ap: "apart 0x08048000 (file_size (vmem st) ?fs k) ?bb (fs_length (vmem st) ?bb)"
    by (rule apart_sym)
  let ?m = "write_bytes (vmem s1) 0x08048000 (file_bytes (vmem st) ?fs k)"
  have rd: "read_data (fs_ptrs s1) k 0 0x08048000 (inode_size (vmem s1) (g_inodes s1) k) (vmem s1) =
      (?m, int (file_size (vmem st) ?fs k))"
    using read_data_bytes [OF im(2,3), of 0 _ "inode_size (vmem s1) (g_inodes s1) k" "0x08048000"]
      im size ap fst s1(2) by simp
  have st': "st' = set_vmem ?m s1"
    unfolding st'_def load_program_def Let_def using rd unfolding s1_def by simp
  show "process_mapped st' q" using s1(1) unfolding st' by (simp add: process_mapped_def user_mapped_def)
  show "bytes (vmem st') 0x08048000 (file_size (vmem st) ?fs k) = file_bytes (vmem st) ?fs k"
    unfolding st' using sz by (simp add: bytes_write_same)
  show "st' = (map_process g (of_int (q + 1)) st)\<lparr>phys := phys st', tss_esp0 := kernel_stack_top q\<rparr>"
    unfolding st' s1_def by (simp add: set_vmem_def)
  assume a: "drop_bit 22 a = 1"
  have "unat a div 4194304 = 1" using a by (simp add: word_unat_eq_iff unat_drop_bit_u32)
  then have "unat a < 0x800000" by linarith
  then have "a < 0x08048000" by (simp add: word_less_nat_alt)
  then have "unat (a - 0x08048000) = unat a + 4294967296 - 0x08048000"
    by (simp add: unat_sub_if' word_less_nat_alt)
  then have "\<not> inside 0x08048000 (length (file_bytes (vmem st) ?fs k)) a"
    using sz by (simp add: inside_def)
  then show "vmem st' a = vmem st a"
    unfolding st' using sz low [OF a] by (simp add: write_bytes_outside)
qed

section \<open>The control block\<close>

lemma pcbs_update_frames [simp]:
  "vmem (s\<lparr>pcbs := h\<rparr>) = vmem s" "current_pcb_addr (s\<lparr>pcbs := h\<rparr>) = current_pcb_addr s"
  by (simp_all add: vmem_def remap_def user_mapped_def fun_eq_iff current_pcb_addr_def)

definition new_args :: "u8 list \<Rightarrow> (nat \<Rightarrow> u8) \<Rightarrow> nat \<Rightarrow> u8" where
  "new_args xs old i = (if i < length xs then xs ! i else if i < 1024 then 0 else old i)"

definition new_block :: "pcb \<Rightarrow> int \<Rightarrow> addr \<Rightarrow> u8 list \<Rightarrow> u8 list \<Rightarrow> pcb" where
  "new_block old p parent w xs = old\<lparr>process_id := p, exit_status := 0, pname := w,
     parent_pcb := parent, child_pcb := 0,
     files := (files old)(0 := stdin_fd\<lparr>fd_flags := 1\<rparr>, 1 := stdout_fd\<lparr>fd_flags := 1\<rparr>),
     args := new_args xs (args old)\<rparr>"

lemma setup_pcb_ok:
  assumes "command_ok command" "cstring (vmem st) fn (command_word command)"
    and "base_boot \<or> cur \<noteq> pcb_at q"
  shows "setup_pcb cur q base_boot command (length (command_word command)) fn st =
    Inr (st\<lparr>pcbs := (pcbs st)(
      cur := (if base_boot then pcbs st cur else (pcbs st cur)\<lparr>child_pcb := pcb_at q\<rparr>),
      pcb_at q := new_block (pcbs st (pcb_at q)) q
        (if base_boot then 0 else pcb_at (process_id (pcbs st cur))) (command_word command) (command_args command))\<rparr>)"
proof -
  let ?w = "command_word command" and ?old = "pcbs st (pcb_at q)"
  have w: "length ?w < 32" "bytes (vmem st) fn (length ?w) = ?w"
    using assms(1,2) by (simp_all add: command_ok_def cstring_def)
  have len: "strlen (vmem st) fn = Some (of_nat (length ?w))" using assms(2) by (rule strlen_cstring)
  have l32: "\<not> 32 \<le> (of_nat (length ?w) :: u32)" using w(1) by (simp add: word_le_nat_alt)
  let ?z = "\<lambda>i. if i < 1024 then 0 else args ?old i"
  obtain j arg where arg: "skip_spaces command (length ?w) = Inr j" "copy_args command j 0 ?z = Inr arg"
    "\<And>p. arg p = (if p < length (command_args command) then command_args command ! p
       else if p = length (command_args command) then 0 else ?z p)"
    using command_parse(2) [OF assms(1), of ?z] by blast
  have "arg = new_args (command_args command) (args ?old)"
    using command_parse(4) [OF assms(1)] by (auto simp: arg(3) new_args_def fun_eq_iff)
  note c = arg(1) arg(2) [unfolded this]
  show ?thesis
  proof (cases base_boot)
    case True
    then show ?thesis
      using c l32 w by (simp add: setup_pcb_def Let_def len update_pcb_def new_block_def cong: if_cong)
  next
    case False
    then have "cur \<noteq> pcb_at q" using assms(3) by simp
    then show ?thesis
      using c l32 w False by (simp add: setup_pcb_def Let_def len update_pcb_def new_block_def cong: if_cong)
  qed
qed

section \<open>The process table\<close>

definition all_procs :: "(int \<Rightarrow> int list) \<Rightarrow> int list" where
  "all_procs threads = threads 1 @ threads 2 @ threads 3"

definition secondaries :: "(int \<Rightarrow> int list) \<Rightarrow> int list" where
  "secondaries threads = filter (\<lambda>p. 4 \<le> p) (all_procs threads)"

text \<open>
  \<open>active_processes\<close> marks exactly the secondary processes on the stacks, \<open>aux_processes\<close> counts
  them, every booted shell is alive, and only a base shell is at the bottom of a stack.
\<close>

definition table_ok :: "(int \<Rightarrow> int list) \<Rightarrow> 'a proc_scheme \<Rightarrow> bool" where
  "table_ok threads st \<longleftrightarrow>
     list_all (\<lambda>i. active_processes st i = 0 \<longleftrightarrow> i + 1 \<notin> set (all_procs threads)) [3, 4, 5] \<and>
     aux_processes st = int (length (secondaries threads)) \<and>
     base_shell_live_bitmask st = base_shell_booted_bitmask st \<and> shell_init_boot st = 0 \<and>
     list_all (\<lambda>t. list_all (\<lambda>p. 4 \<le> p) (tl (threads t))) [1, 2, 3]"

definition proc_inv :: "(int \<Rightarrow> int list) \<Rightarrow> 'a proc_scheme \<Rightarrow> bool" where
  "proc_inv threads st \<longleftrightarrow>
     threads_ok (pcbs st) (base_shell_booted_bitmask st) threads \<and>
     booted_terminal (base_shell_booted_bitmask st) (cur_process st) \<and>
     table_ok threads st \<and> running st (last (threads (cur_process st)))"

text \<open>The abstract operations: a process is pushed on a terminal's stack, the top one is popped.\<close>

definition push_process :: "int \<Rightarrow> int \<Rightarrow> (int \<Rightarrow> int list) \<Rightarrow> int \<Rightarrow> int list" where
  "push_process t q threads = threads(t := threads t @ [q])"

definition pop_process :: "int \<Rightarrow> (int \<Rightarrow> int list) \<Rightarrow> int \<Rightarrow> int list" where
  "pop_process t threads = threads(t := butlast (threads t))"

lemma pop_push: "pop_process t (push_process t q threads) = threads"
  by (simp add: pop_process_def push_process_def)

lemma threads_ok_range:
  assumes "threads_ok h b threads" "p \<in> set (all_procs threads)"
  shows "1 \<le> p \<and> p \<le> 6"
proof -
  have "chain h (threads t) \<or> threads t = []" if "t \<in> {1, 2, 3}" for t
    using assms(1) that by (cases "bit b (nat (t - 1))") (auto simp: threads_ok_def)
  then show ?thesis using assms(2) chain_range [of h] by (fastforce simp: all_procs_def)
qed

lemma secondaries_facts:
  assumes "threads_ok h b threads"
  shows "distinct (all_procs threads)" "distinct (secondaries threads)" "set (secondaries threads) \<subseteq> {4, 5, 6}"
    "set (secondaries threads) = {4, 5, 6} \<inter> set (all_procs threads)"
proof -
  show d: "distinct (all_procs threads)" using assms by (simp add: threads_ok_def all_procs_def)
  then show "distinct (secondaries threads)" by (simp add: secondaries_def)
  have "p = 4 \<or> p = 5 \<or> p = 6" if "p \<in> set (all_procs threads)" "4 \<le> p" for p
    using threads_ok_range [OF assms that(1)] that(2) by linarith
  then show "set (secondaries threads) \<subseteq> {4, 5, 6}"
    "set (secondaries threads) = {4, 5, 6} \<inter> set (all_procs threads)"
    by (auto simp: secondaries_def)
qed

text \<open>A slot is free exactly when there are fewer than three secondary processes.\<close>

lemma find_slot:
  assumes "threads_ok h b threads" "table_ok threads st"
  shows "length (secondaries threads) \<le> 3"
    "length (secondaries threads) < 3 \<Longrightarrow> \<exists>i. find (\<lambda>i. active_processes st i = 0) [3, 4, 5] = Some i \<and>
      i \<in> {3, 4, 5} \<and> i + 1 \<notin> set (all_procs threads)"
    "length (secondaries threads) = 3 \<Longrightarrow> find (\<lambda>i. active_processes st i = 0) [3, 4, 5] = None"
proof -
  note s = secondaries_facts [OF assms(1)]
  let ?S = "set (secondaries threads)"
  have len: "length (secondaries threads) = card ?S" using s(2) by (simp add: distinct_card)
  have c3: "card {4, 5, 6 :: int} = 3" by simp
  show "length (secondaries threads) \<le> 3" unfolding len c3 [symmetric] using s(3) by (intro card_mono) auto
  have act: "active_processes st 3 = 0 \<longleftrightarrow> 4 \<notin> ?S" "active_processes st 4 = 0 \<longleftrightarrow> 5 \<notin> ?S"
    "active_processes st 5 = 0 \<longleftrightarrow> 6 \<notin> ?S"
    using assms(2) unfolding s(4) by (simp_all add: table_ok_def)
  {
    assume "length (secondaries threads) < 3"
    then have "?S \<noteq> {4, 5, 6}" unfolding len by auto
    then have "4 \<notin> ?S \<or> 5 \<notin> ?S \<or> 6 \<notin> ?S" using s(3) by blast
    then show "\<exists>i. find (\<lambda>i. active_processes st i = 0) [3, 4, 5] = Some i \<and>
        i \<in> {3, 4, 5} \<and> i + 1 \<notin> set (all_procs threads)"
      using act unfolding s(4) by auto
  }
  {
    assume "length (secondaries threads) = 3"
    then have "?S = {4, 5, 6}" using s(3) c3 len by (intro card_subset_eq) auto
    then show "find (\<lambda>i. active_processes st i = 0) [3, 4, 5] = None" using act by auto
  }
qed

lemma secondary_process_ok:
  assumes "threads_ok (pcbs st) b threads" "table_ok threads st" "length (secondaries threads) < 3"
  obtains q where "4 \<le> q" "q \<le> 6" "q \<notin> set (all_procs threads)"
    "secondary_process junk st = (st\<lparr>active_processes := (active_processes st)(q - 1 := 1),
       aux_processes := aux_processes st + 1\<rparr>, q)"
proof -
  obtain i where "find (\<lambda>i. active_processes st i = 0) [3, 4, 5] = Some i" "i \<in> {3, 4, 5}"
      "i + 1 \<notin> set (all_procs threads)"
    using find_slot(2) [OF assms] by blast
  then show ?thesis using that [of "i + 1"] by (auto simp: secondary_process_def)
qed

text \<open>With every booted shell alive, any command starts a secondary process, \<open>shell\<close> too.\<close>

lemma choose_process_secondary:
  "table_ok threads st \<Longrightarrow> choose_process shell junk st =
    (fst (secondary_process junk st), snd (secondary_process junk st), False)"
  by (simp add: choose_process_def table_ok_def Let_def split: prod.split)

section \<open>Pushing and popping\<close>

lemma push_cases:
  assumes "booted_terminal b t"
  shows "t \<in> {1, 2, 3}" "set (all_procs (push_process t q threads)) = insert q (set (all_procs threads))"
    "length (secondaries (push_process t q threads)) =
       length (secondaries threads) + (if 4 \<le> q then 1 else 0)"
  using booted_cases [OF assms] by (auto simp: all_procs_def push_process_def secondaries_def)

lemma threads_ok_iff:
  "threads_ok h b threads \<longleftrightarrow> bit b 0 \<and> distinct (all_procs threads) \<and>
    (\<forall>u \<in> {1, 2, 3}. if booted_terminal b u then threads u \<noteq> [] \<and> hd (threads u) = u \<and> chain h (threads u)
                    else threads u = [])"
  by (auto simp: threads_ok_def all_procs_def booted_terminal_def)

text \<open>Changing one stack: the other ones keep their links when their blocks are kept.\<close>

lemma threads_ok_change:
  assumes "threads_ok h b threads" "booted_terminal b t" "ps \<noteq> []" "hd ps = t" "chain h' ps"
    and "distinct (all_procs (threads(t := ps)))"
    and "\<And>u r. u \<in> {1, 2, 3} \<Longrightarrow> u \<noteq> t \<Longrightarrow> r \<in> set (threads u) \<Longrightarrow> 1 \<le> r \<Longrightarrow> r \<le> 6 \<Longrightarrow>
      h' (pcb_at r) = h (pcb_at r)"
  shows "threads_ok h' b (threads(t := ps))"
  unfolding threads_ok_iff
proof (intro conjI ballI)
  show "bit b 0" "distinct (all_procs (threads(t := ps)))" using assms(1,6) by (simp_all add: threads_ok_iff)
  fix u :: int assume u: "u \<in> {1, 2, 3}"
  have old: "if booted_terminal b u then threads u \<noteq> [] \<and> hd (threads u) = u \<and> chain h (threads u) else threads u = []"
    using assms(1) u unfolding threads_ok_iff by blast
  show "if booted_terminal b u then (threads(t := ps)) u \<noteq> [] \<and> hd ((threads(t := ps)) u) = u \<and>
      chain h' ((threads(t := ps)) u) else (threads(t := ps)) u = []"
  proof (cases "u = t")
    case True
    then show ?thesis using assms(2-5) by simp
  next
    case False
    have "chain h' (threads u)" if c: "chain h (threads u)"
    proof -
      have "h' (pcb_at r) = h (pcb_at r)" if "r \<in> set (threads u)" for r
        using assms(7) [OF u False that] chain_range [OF c that] by blast
      then show ?thesis using chain_cong [of "threads u" h' h] c by simp
    qed
    then show ?thesis using old False by (simp split: if_splits)
  qed
qed

lemma threads_ok_push:
  assumes "threads_ok h b threads" "booted_terminal b t" "q \<notin> set (all_procs threads)" "4 \<le> q" "q \<le> 6"
  defines "p \<equiv> last (threads t)"
  assumes "process_id (h' (pcb_at q)) = q" "child_pcb (h' (pcb_at q)) = 0" "parent_pcb (h' (pcb_at q)) = pcb_at p"
    and "process_id (h' (pcb_at p)) = p" "child_pcb (h' (pcb_at p)) = pcb_at q"
    and "parent_pcb (h' (pcb_at p)) = parent_pcb (h (pcb_at p))"
    and "\<And>r. 1 \<le> r \<Longrightarrow> r \<le> 6 \<Longrightarrow> r \<noteq> p \<Longrightarrow> r \<noteq> q \<Longrightarrow> h' (pcb_at r) = h (pcb_at r)"
  shows "threads_ok h' b (push_process t q threads)"
proof -
  note tt = threads_ok_booted [OF assms(1,2)]
  have tq: "t \<in> {1, 2, 3}" using booted_cases [OF assms(2)] by auto
  then have qt: "q \<notin> set (threads u)" if "u \<in> {1, 2, 3}" for u using assms(3) that by (auto simp: all_procs_def)
  have p: "p \<in> set (threads t)" using tt by (simp add: p_def)
  have "chain h' (threads t @ [q])"
  proof (rule chain_push [of h])
    fix r assume r: "r \<in> set (threads t)" "r \<noteq> last (threads t)"
    then have "1 \<le> r" "r \<le> 6" "r \<noteq> q" using chain_range [of h "threads t" r] tt qt [OF tq] by auto
    then show "h' (pcb_at r) = h (pcb_at r)" using assms(13) r(2) by (simp add: p_def)
  qed (use tt qt [OF tq] assms(4-12) in \<open>auto simp: p_def\<close>)
  moreover have "distinct (all_procs (threads(t := threads t @ [q])))"
    using assms(1,3) tq by (auto simp: threads_ok_def all_procs_def)
  moreover have "h' (pcb_at r) = h (pcb_at r)"
    if "u \<in> {1, 2, 3}" "u \<noteq> t" "r \<in> set (threads u)" "1 \<le> r" "r \<le> 6" for u r
  proof -
    have "r \<noteq> p" using p that tq assms(1) by (auto simp: threads_ok_def)
    then show ?thesis using assms(13) that qt [OF that(1)] by metis
  qed
  ultimately show ?thesis
    unfolding push_process_def using tt by (intro threads_ok_change [OF assms(1,2)]) auto
qed

lemma tl_append_one: "xs \<noteq> [] \<Longrightarrow> tl (xs @ [q]) = tl xs @ [q]"
  by (cases xs) auto

lemma table_ok_push:
  assumes "table_ok threads st" "booted_terminal b t" "q \<notin> set (all_procs threads)" "4 \<le> q" "q \<le> 6"
    and "threads t \<noteq> []"
    and "active_processes st' = (active_processes st)(q - 1 := 1)" "aux_processes st' = aux_processes st + 1"
    and "base_shell_live_bitmask st' = base_shell_live_bitmask st"
    and "base_shell_booted_bitmask st' = base_shell_booted_bitmask st" "shell_init_boot st' = shell_init_boot st"
  shows "table_ok (push_process t q threads) st'"
proof -
  note c = push_cases [OF assms(2)]
  have "q = 4 \<or> q = 5 \<or> q = 6" using assms(4,5) by linarith
  then have "list_all (\<lambda>i. active_processes st' i = 0 \<longleftrightarrow> i + 1 \<notin> set (all_procs (push_process t q threads))) [3, 4, 5]"
    using assms(1) unfolding c(2) assms(7) by (auto simp: table_ok_def)
  moreover have "list_all (\<lambda>u. list_all (\<lambda>p. 4 \<le> p) (tl (push_process t q threads u))) [1, 2, 3]"
    using assms(1,4,6) by (auto simp: table_ok_def push_process_def tl_append_one)
  moreover have "aux_processes st' = int (length (secondaries (push_process t q threads)))"
    using assms(1,4,8) c(3) by (simp add: table_ok_def)
  ultimately show ?thesis using assms(1,9-11) by (simp add: table_ok_def)
qed

text \<open>The top process of a stack of at least two, and the stack below it.\<close>

lemma top_process:
  assumes "threads_ok h b threads" "booted_terminal b t" "2 \<le> length (threads t)"
  obtains ps where "ps \<noteq> []" "threads t = ps @ [last (threads t)]" "butlast (threads t) = ps"
    "parent_pcb (h (pcb_at (last (threads t)))) = pcb_at (last ps)" "process_id (h (pcb_at (last ps))) = last ps"
    "1 \<le> last ps" "last ps \<le> 6" "last ps \<noteq> last (threads t)"
proof -
  define T where "T = threads t"
  have c: "chain h T" and ne: "T \<noteq> []" using threads_ok_booted [OF assms(1,2)] by (simp_all add: T_def)
  define ps q where "ps = butlast T" and "q = last T"
  have T: "T = ps @ [q]" using ne by (simp add: ps_def q_def)
  have pne: "ps \<noteq> []" using assms(3) unfolding T_def [symmetric] T by auto
  define n where "n = length ps"
  have n: "0 < n" "length T = Suc n" using pne unfolding n_def T by simp_all
  have nth: "T ! n = q" "T ! (n - 1) = last ps"
    using n(1) pne unfolding n_def T by (simp_all add: nth_append last_conv_nth)
  have links: "parent_pcb (h (pcb_at q)) = pcb_at (last ps)" "process_id (h (pcb_at (last ps))) = last ps"
    using c n nth unfolding chain_def by (metis less_irrefl lessI, metis diff_less less_SucI n(1) zero_less_one)
  have mem: "last ps \<in> set ps" using pne by (rule last_in_set)
  then have "last ps \<in> set T" unfolding T by simp
  note range = chain_range [OF c this]
  have "distinct (ps @ [q])" using c unfolding chain_def T by simp
  then have "last ps \<noteq> q" using mem by auto
  then show ?thesis
    using that [OF pne] links range T unfolding T_def [symmetric] q_def ps_def by simp
qed

lemma pop_cases:
  assumes "booted_terminal b t" "threads t = ps @ [q]" "distinct (all_procs threads)"
  shows "set (all_procs (pop_process t threads)) = set (all_procs threads) - {q}"
    "length (secondaries threads) = length (secondaries (pop_process t threads)) + (if 4 \<le> q then 1 else 0)"
    "distinct (all_procs (pop_process t threads))"
  using booted_cases [OF assms(1)] assms(2,3)
  by (auto simp: all_procs_def pop_process_def secondaries_def)

lemma threads_ok_pop:
  assumes "threads_ok h b threads" "booted_terminal b t" "2 \<le> length (threads t)"
  defines "p \<equiv> last (butlast (threads t))"
  assumes "process_id (h' (pcb_at p)) = p" "child_pcb (h' (pcb_at p)) = 0"
    and "parent_pcb (h' (pcb_at p)) = parent_pcb (h (pcb_at p))"
    and "\<And>r. 1 \<le> r \<Longrightarrow> r \<le> 6 \<Longrightarrow> r \<noteq> p \<Longrightarrow> r \<noteq> last (threads t) \<Longrightarrow> h' (pcb_at r) = h (pcb_at r)"
  shows "threads_ok h' b (pop_process t threads)"
proof -
  obtain ps where ps: "ps \<noteq> []" "threads t = ps @ [last (threads t)]" "butlast (threads t) = ps"
    using top_process [OF assms(1-3)] by metis
  define q where "q = last (threads t)"
  have T: "threads t = ps @ [q]" using ps(2) by (simp add: q_def)
  have p: "p = last ps" using ps(3) by (simp add: p_def)
  note tt = threads_ok_booted [OF assms(1,2)]
  have tq: "t \<in> {1, 2, 3}" using booted_cases [OF assms(2)] by auto
  have c: "chain h (ps @ [q])" using tt T by simp
  have d: "distinct (all_procs threads)" using assms(1) by (simp add: threads_ok_iff)
  have out: "r \<notin> set (threads t)" if "u \<in> {1, 2, 3}" "u \<noteq> t" "r \<in> set (threads u)" for u r
    using that tq assms(1) by (auto simp: threads_ok_def)
  have "chain h' ps"
  proof (rule chain_pop [OF c ps(1)])
    fix r assume r: "r \<in> set ps" "r \<noteq> last ps"
    have "1 \<le> r" "r \<le> 6" using chain_range [OF c] r(1) by auto
    moreover have "r \<noteq> q" using c r(1) by (auto simp: chain_def)
    ultimately show "h' (pcb_at r) = h (pcb_at r)" using assms(8) r(2) by (simp add: p q_def)
  qed (use assms(5-7) in \<open>simp_all add: p\<close>)
  moreover have "hd ps = t" using tt ps(1) T by simp
  moreover have "h' (pcb_at r) = h (pcb_at r)"
    if "u \<in> {1, 2, 3}" "u \<noteq> t" "r \<in> set (threads u)" "1 \<le> r" "r \<le> 6" for u r
  proof -
    have "r \<noteq> p" "r \<noteq> q" using out [OF that(1-3)] ps(1) unfolding T p by auto
    then show ?thesis using assms(8) that(4,5) by (simp add: q_def)
  qed
  moreover have "distinct (all_procs (threads(t := ps)))"
    using pop_cases(3) [OF assms(2) T d] by (simp add: pop_process_def T)
  ultimately show ?thesis
    unfolding pop_process_def ps(3) using ps(1) by (intro threads_ok_change [OF assms(1,2)]) auto
qed

lemma table_ok_pop:
  assumes "table_ok threads st" "booted_terminal b t" "threads t = ps @ [q]" "ps \<noteq> []" "4 \<le> q" "q \<le> 6"
    and "distinct (all_procs threads)"
    and "active_processes st' = (active_processes st)(q - 1 := 0)" "aux_processes st' = aux_processes st - 1"
    and "base_shell_live_bitmask st' = base_shell_live_bitmask st"
    and "base_shell_booted_bitmask st' = base_shell_booted_bitmask st" "shell_init_boot st' = shell_init_boot st"
  shows "table_ok (pop_process t threads) st'"
proof -
  note c = pop_cases [OF assms(2,3,7)]
  have "q = 4 \<or> q = 5 \<or> q = 6" using assms(5,6) by linarith
  then have "list_all (\<lambda>i. active_processes st' i = 0 \<longleftrightarrow> i + 1 \<notin> set (all_procs (pop_process t threads))) [3, 4, 5]"
    using assms(1) unfolding c(1) assms(8) by (auto simp: table_ok_def)
  moreover have "list_all (\<lambda>u. list_all (\<lambda>p. 4 \<le> p) (tl (pop_process t threads u))) [1, 2, 3]"
    using assms(1,3,4) by (auto simp: table_ok_def pop_process_def tl_append2)
  moreover have "aux_processes st' = int (length (secondaries (pop_process t threads)))"
    using assms(1,5,9) c(2) by (simp add: table_ok_def)
  ultimately show ?thesis using assms(1,10-12) by (simp add: table_ok_def)
qed

section \<open>Entering the kernel\<close>

text \<open>An interrupt or system call of a user program: the stack starts at \<open>tss_esp0\<close> and \<open>n\<close> bytes are on it.\<close>

definition enter_kernel :: "nat \<Rightarrow> 'a vmm_scheme \<Rightarrow> 'a vmm_scheme" where
  "enter_kernel n st = st\<lparr>esp := tss_esp0 st - of_nat n\<rparr>"

lemma align_stack:
  assumes "unat (x :: u32) = 8192 * j + r" "r < 8192"
  shows "x AND 0xFFFFE000 = of_nat (8192 * j)"
proof -
  have "(0xFFFFE000 :: u32) = push_bit 13 (mask 19)" by (simp add: mask_eq_exp_minus_1 push_bit_eq_mult)
  moreover have "x AND push_bit 13 (mask 19) = push_bit 13 (drop_bit 13 x)"
    by (rule bit_word_eqI) (auto simp: bit_simps)
  ultimately have "x AND 0xFFFFE000 = push_bit 13 (drop_bit 13 x)" by simp
  moreover have "unat (drop_bit 13 x) = j" using assms by (simp add: unat_drop_bit_u32)
  then have "drop_bit 13 x = of_nat j" by (metis of_nat_unat ucast_id)
  ultimately show ?thesis by (simp add: push_bit_eq_mult mult.commute)
qed

lemma stack_align:
  assumes "1 \<le> p" "p \<le> 6" "0 < n" "n \<le> 8192"
  shows "(kernel_stack_top p - of_nat n) AND 0xFFFFE000 = pcb_at p"
proof -
  define t where "t = nat (0x800000 - p * 0x2000)"
  have t: "int t = 0x800000 - p * 0x2000" "8192 \<le> t" "t \<le> 0x800000" using assms by (simp_all add: t_def)
  have top: "kernel_stack_top p = of_nat t"
  proof -
    have "of_int (int t) = kernel_stack_top p" unfolding t(1) kernel_stack_top_def by simp
    then show ?thesis unfolding of_int_of_nat_eq by (rule sym)
  qed
  have "of_nat t - of_nat n = (of_nat (t - n) :: u32)" using assms(4) t(2) by (simp add: of_nat_diff)
  then have "unat (kernel_stack_top p - of_nat n) = t - n"
    unfolding top using t(3) by simp
  also have "t - n = 8192 * nat (1024 - p - 1) + (8192 - n)"
    using assms t by linarith
  finally have "(kernel_stack_top p - of_nat n) AND 0xFFFFE000 = of_nat (8192 * nat (1024 - p - 1))"
    using \<open>0 < n\<close> by (intro align_stack [where r = "8192 - n"]) linarith+
  moreover have "int (8192 * nat (1024 - p - 1)) = 0x800000 - (p + 1) * 0x2000" using assms by simp
  then have "of_int (int (8192 * nat (1024 - p - 1))) = pcb_at p" unfolding pcb_at_def by simp
  then have "of_nat (8192 * nat (1024 - p - 1)) = pcb_at p" unfolding of_int_of_nat_eq .
  ultimately show ?thesis by (rule trans)
qed

lemma running_enter_kernel:
  assumes "process_mapped st p" "tss_esp0 st = kernel_stack_top p" "process_id (pcbs st (pcb_at p)) = p"
    and "1 \<le> p" "p \<le> 6" "0 < n" "n \<le> 8192"
  shows "running (enter_kernel n st) p"
  using assms stack_align [OF assms(4-7)]
  by (simp add: running_def enter_kernel_def current_pcb_addr_def process_mapped_def user_mapped_def)

end
