(* ===== verification/Processes.thy ===== *)
theory Processes imports Lifecycle begin

text \<open>
  The contract of \<open>execute\<close> and \<open>halt\<close>: on the abstract state, one stack of processes per terminal,
  they are \<open>push_process\<close> and \<open>pop_process\<close>.
\<close>

section \<open>\<open>execute\<close> starts a process\<close>

definition can_load :: "execute_locals \<Rightarrow> u8 list \<Rightarrow> dir_entry \<Rightarrow> 'a fsys_scheme \<Rightarrow> bool" where
  "can_load l command d st \<longleftrightarrow> image_low st \<and> locals_ok l st \<and>
     low (at_file_name l) 32 \<and> low (at_file_metadata l) 28 \<and> command_ok command \<and>
     lookup_name (vmem st) (g_boot_block st) (command_word command) = Some d \<and>
     elf (vmem st) (fs_ptrs st) (inode_num d) \<and> fits_user (file_size (vmem st) (fs_ptrs st) (inode_num d))"

definition can_execute :: "(int \<Rightarrow> int list) \<Rightarrow> execute_locals \<Rightarrow> u8 list \<Rightarrow> dir_entry \<Rightarrow> 'a kernel_scheme \<Rightarrow> bool" where
  "can_execute threads l command d st \<longleftrightarrow> proc_inv threads st \<and> can_load l command d st"

lemma cli_frames [simp]:
  "fs_ptrs (cli s) = fs_ptrs s" "g_boot_block (cli s) = g_boot_block s" "pdt (cli s) = pdt s"
  "g_inodes (cli s) = g_inodes s" "lit_shell (cli s4) = lit_shell s4"
  "active_processes (cli s) = active_processes s" "aux_processes (cli s) = aux_processes s"
  "base_shell_live_bitmask (cli s) = base_shell_live_bitmask s" "shell_init_boot (cli s) = shell_init_boot s"
  by (simp_all add: cli_def fs_ptrs_def)

lemma ebp_frames [simp]:
  "vmem (s\<lparr>int_flag := b\<rparr>) = vmem s"
  "vmem (s\<lparr>ebp := x\<rparr>) = vmem s" "fs_ptrs (s2\<lparr>ebp := x\<rparr>) = fs_ptrs s2" "current_pcb_addr (s\<lparr>ebp := x\<rparr>) = current_pcb_addr s"
  by (simp_all add: vmem_def remap_def user_mapped_def fun_eq_iff fs_ptrs_def current_pcb_addr_def)

lemma set_vmem_fs [simp]: "fs_ptrs (set_vmem m s) = fs_ptrs s" "g_boot_block (set_vmem m s) = g_boot_block s"
  "pcbs (set_vmem m s) = pcbs s" "current_pcb_addr (set_vmem m s) = current_pcb_addr s"
  "lit_shell (set_vmem m s4) = lit_shell s4" "ebp (set_vmem m s) = ebp s"
  by (simp_all add: set_vmem_def fs_ptrs_def current_pcb_addr_def)

lemma boot_frames [simp]:
  "vmem (s\<lparr>base_shell_live_bitmask := v\<rparr>) = vmem s" "vmem (s\<lparr>base_shell_booted_bitmask := v\<rparr>) = vmem s"
  "vmem (s\<lparr>shell_init_boot := i\<rparr>) = vmem s" "fs_ptrs (s'\<lparr>base_shell_live_bitmask := v\<rparr>) = fs_ptrs s'"
  "fs_ptrs (s'\<lparr>base_shell_booted_bitmask := v\<rparr>) = fs_ptrs s'" "fs_ptrs (s'\<lparr>shell_init_boot := i\<rparr>) = fs_ptrs s'"
  by (simp_all add: vmem_def remap_def user_mapped_def fs_ptrs_def)

lemma table_frames2 [simp]:
  "vmem (s\<lparr>active_processes := a, aux_processes := n\<rparr>) = vmem s"
  "fs_ptrs (t\<lparr>active_processes := a, aux_processes := n\<rparr>) = fs_ptrs t"
  by (simp_all add: vmem_def remap_def user_mapped_def fun_eq_iff fs_ptrs_def)

lemma process_mapped_cong: "pdt s = pdt s' \<Longrightarrow> process_mapped s p = process_mapped s' p"
  by (simp add: process_mapped_def user_mapped_def)

lemma table_ok_cong:
  "active_processes s = active_processes s' \<Longrightarrow> aux_processes s = aux_processes s' \<Longrightarrow>
    base_shell_live_bitmask s = base_shell_live_bitmask s' \<Longrightarrow>
    base_shell_booted_bitmask s = base_shell_booted_bitmask s' \<Longrightarrow> shell_init_boot s = shell_init_boot s' \<Longrightarrow>
    table_ok threads s = table_ok threads s'"
  by (simp add: table_ok_def)

text \<open>The state and the frame \<open>execute\<close> leaves to the new process \<open>q\<close>.\<close>

lemma execute_core:
  fixes st :: "'a kernel_scheme" and cu :: addr and d :: dir_entry and l :: execute_locals
  defines "c \<equiv> current_pcb_addr st" and "command \<equiv> bytes (vmem st) cu 128"
    and "file \<equiv> file_bytes (vmem st) (fs_ptrs st) (inode_num d)"
  defines "s1 \<equiv> set_vmem (write_bytes (write_bytes (vmem st) (at_file_name l) (command_word command @ [0]))
    (at_file_metadata l) (take 28 file)) (cli (st\<lparr>ebp := frame_pointer l\<rparr>))"
  assumes "can_load l command d st" "low_direct st"
    and "choose_process (strncmp (vmem s1) (at_file_name l) (lit_shell st) 5 = 0) (junk_pid l) s1 =
      (s1\<lparr>active_processes := A, aux_processes := X, base_shell_live_bitmask := L, base_shell_booted_bitmask := B,
         shell_init_boot := I\<rparr>, q, b)"
    and "X \<le> 3" "1 \<le> q" "q \<le> 6" "b \<or> c \<noteq> pcb_at q"
  obtains st' frame where "execute l cu st = Inr (st', To_user frame)"
    "frame = \<lparr>uf_ss = 0x2B, uf_esp = 0x8400000 - 4, uf_eflags = 0x202, uf_cs = 0x23, uf_eip = uf_eip frame\<rparr>"
    "bytes_of32 (uf_eip frame) = take 4 (drop 24 file)"
    "pcbs st' = (let h = (pcbs st)(c := (if b then pcbs st c else (pcbs st c)\<lparr>child_pcb := pcb_at q\<rparr>),
         pcb_at q := new_block (pcbs st (pcb_at q)) q (if b then 0 else pcb_at (process_id (pcbs st c)))
           (command_word command) (command_args command))
       in h(c := (h c)\<lparr>pcb_ebp := frame_pointer l\<rparr>))"
    "process_mapped st' q" "tss_esp0 st' = kernel_stack_top q" "bytes (vmem st') 0x08048000 (length file) = file"
    "active_processes st' = A" "aux_processes st' = X" "base_shell_live_bitmask st' = L"
    "base_shell_booted_bitmask st' = B" "shell_init_boot st' = I" "cur_process st' = cur_process st" "int_flag st'"
    "kernel.more st' = kernel.more st" "tss_ss0 st' = tss_ss0 st"
    "\<And>a. drop_bit 22 a = 1 \<Longrightarrow> \<not> inside (at_file_name l) 32 a \<Longrightarrow> \<not> inside (at_file_metadata l) 28 a \<Longrightarrow>
      vmem st' a = vmem st a"
proof -
  let ?k = "inode_num d" and ?bb = "g_boot_block st" and ?fs = "fs_ptrs st"
  define w where "w = command_word command"
  have a: "image_low st" "locals_ok l st" "low (at_file_name l) 32" "low (at_file_metadata l) 28" "command_ok command"
    "lookup_name (vmem st) ?bb w = Some d" "elf (vmem st) ?fs ?k" "fits_user (file_size (vmem st) ?fs ?k)"
    using assms(5) by (simp_all add: can_load_def w_def)
  have fok: "fs_ok (vmem st) ?fs" using a(1) by (simp add: image_low_def)
  define s0 where "s0 = cli (st\<lparr>ebp := frame_pointer l\<rparr>)"
  have s0: "vmem s0 = vmem st" "fs_ptrs s0 = ?fs" "g_boot_block s0 = ?bb" "locals_ok l s0"
    using a(2) by (simp_all add: s0_def locals_ok_def)
  define m2 where "m2 = write_bytes (write_bytes (vmem st) (at_file_name l) (w @ [0])) (at_file_metadata l) (take 28 file)"
  note f = find_executable_elf [of s0 l cu d, unfolded s0(1-3), OF fok s0(4) a(5)[unfolded command_def]
      a(6)[unfolded w_def command_def] a(7), folded command_def, folded w_def, folded file_def, folded m2_def]
  have cs0: "current_pcb_addr s0 = c" by (simp add: s0_def c_def)
  have s1: "s1 = set_vmem m2 s0" by (simp add: s1_def m2_def s0_def w_def)
  define s2 where "s2 = s1\<lparr>active_processes := A, aux_processes := X, base_shell_live_bitmask := L,
    base_shell_booted_bitmask := B, shell_init_boot := I\<rparr>"
  have v2: "vmem s2 = m2" "fs_ptrs s2 = ?fs" "g_boot_block s2 = ?bb" "vmem s1 = m2"
    using s0 by (simp_all add: s2_def s1)
  have lit: "lit_shell s1 = lit_shell st" by (simp add: s1 s0_def set_vmem_def cli_def)
  have low_d: "low_direct s2"
    using assms(6) by (simp add: low_direct_def s2_def s1 s0_def remap_def user_mapped_def)
  have bb: "fst ?fs = ?bb" by (simp add: fs_ptrs_def)
  have iok: "inode_ok (vmem st) ?fs ?k" using a(7) by (simp add: elf_def)
  note im = same_image_file [OF fok f(2) [folded bb] iok, unfolded bb]
  have low2: "image_low s2" using a(1) im(1,2) by (simp add: image_low_def v2)
  note ld = load_program_ok [OF low_d assms(9,10) low2, unfolded v2(1,2), OF im(3), unfolded im(4,5), OF a(8),
      where g = "junk_page l", folded file_def]
  define s3 where "s3 = load_program (junk_page l) q ?k s2"
  have p3: "pcbs s3 = pcbs st" and c3: "current_pcb_addr s3 = c" and e3: "ebp s3 = frame_pointer l"
    unfolding s3_def by (subst ld(4), simp add: s2_def s1 s0_def map_process_def flush_tlb_def write_pdt_def
      current_pcb_addr_def cli_def c_def)+
  have low_same: "vmem s3 (b + of_nat i) = m2 (b + of_nat i)" if "low b n" "i < n" for b n i
    using ld(3) [OF low_block [OF that]] unfolding s3_def by simp
  have w32: "length w < 32" using a(5) by (simp add: command_ok_def w_def)
  have str: "cstring (vmem s3) (at_file_name l) w"
  proof -
    have "bytes (vmem s3) (at_file_name l) (length w) = bytes m2 (at_file_name l) (length w)"
      using w32 by (intro bytes_cong low_same [OF a(3)]) simp
    then show ?thesis using f(3) low_same [OF a(3) w32] by (simp add: cstring_def)
  qed
  define s4 where "s4 = s3\<lparr>pcbs := (pcbs st)(c := (if b then pcbs st c else (pcbs st c)\<lparr>child_pcb := pcb_at q\<rparr>),
      pcb_at q := new_block (pcbs st (pcb_at q)) q (if b then 0 else pcb_at (process_id (pcbs st c))) w (command_args command))\<rparr>"
  have su: "setup_pcb c q b command (length w) (at_file_name l) s3 = Inr s4"
    using setup_pcb_ok [OF a(5), of s3 "at_file_name l" b c q] str assms(11)
    by (simp add: s4_def p3 w_def [symmetric])
  define frame where "frame = \<lparr>uf_ss = 0x2B, uf_esp = 0x8400000 - 4, uf_eflags = 0x202, uf_cs = 0x23,
    uf_eip = read32 (vmem s4) (at_file_metadata l + 24)\<rparr>"
  define st' where "st' = (update_pcb c (\<lambda>p. p\<lparr>pcb_ebp := ebp s4\<rparr>) s4)\<lparr>int_flag := bit (uf_eflags frame) 9\<rparr>"
  have "execute l cu st = Inr (st', To_user frame)"
    unfolding execute_def s0_def [symmetric] Let_def f(1)
    using assms(7,8) su cs0
    by (simp add: s1 [symmetric] lit s2_def [symmetric] s3_def [symmetric] st'_def frame_def) (simp add: s2_def)
  moreover have s3: "active_processes s3 = A" "aux_processes s3 = X" "base_shell_live_bitmask s3 = L"
    "shell_init_boot s3 = I" "base_shell_booted_bitmask s3 = B" "cur_process s3 = cur_process st"
    "tss_esp0 s3 = kernel_stack_top q"
    unfolding s3_def by (subst ld(4), simp add: s2_def s1 s0_def map_process_def flush_tlb_def write_pdt_def)+
  moreover have "pdt st' = pdt s3" "vmem st' = vmem s3"
    by (simp_all add: st'_def s4_def)
  then have "process_mapped st' q" "bytes (vmem st') 0x08048000 (length file) = file"
    using ld(1,2) process_mapped_cong [of st' s3 q] unfolding s3_def [symmetric] by (simp_all add: file_def)
  moreover have "bytes_of32 (uf_eip frame) = take 4 (drop 24 file)"
  proof -
    have "bytes (vmem s4) (at_file_metadata l + of_nat 24) 4 = bytes m2 (at_file_metadata l + of_nat 24) 4"
    proof (rule bytes_cong)
      fix i :: nat assume "i < 4"
      then show "vmem s4 (at_file_metadata l + of_nat 24 + of_nat i) = m2 (at_file_metadata l + of_nat 24 + of_nat i)"
        using low_same [OF a(4), of "24 + i"] by (simp add: s4_def add.assoc)
    qed
    also have "\<dots> = take 4 (drop 24 (bytes m2 (at_file_metadata l) 28))" by (simp add: drop_bytes take_bytes)
    also have "\<dots> = take 4 (drop 24 file)" unfolding f(4) by (simp add: drop_take)
    finally show ?thesis by (simp add: frame_def bytes_of32_read32)
  qed
  moreover have "pcbs st' = (let h = (pcbs st)(c := (if b then pcbs st c else (pcbs st c)\<lparr>child_pcb := pcb_at q\<rparr>),
         pcb_at q := new_block (pcbs st (pcb_at q)) q (if b then 0 else pcb_at (process_id (pcbs st c)))
           (command_word command) (command_args command))
       in h(c := (h c)\<lparr>pcb_ebp := frame_pointer l\<rparr>))"
    by (simp add: st'_def s4_def w_def e3 Let_def update_pcb_def)
  moreover have "int_flag st'" by (simp add: st'_def frame_def)
  moreover have "kernel.more s3 = kernel.more s2" "tss_ss0 s3 = tss_ss0 s2"
    unfolding s3_def by (subst ld(4), simp add: map_process_def flush_tlb_def write_pdt_def)+
  then have "kernel.more st' = kernel.more st" "tss_ss0 st' = tss_ss0 st"
    by (simp_all add: st'_def s4_def update_pcb_def s2_def s1 s0_def set_vmem_def cli_def)
  moreover have "vmem st' x = vmem st x"
    if "drop_bit 22 x = 1" "\<not> inside (at_file_name l) 32 x" "\<not> inside (at_file_metadata l) 28 x" for x
  proof -
    have "vmem st' x = m2 x" using ld(3) [OF that(1)] \<open>vmem st' = vmem s3\<close> unfolding s3_def by simp
    moreover have "\<not> inside (at_file_name l) (length (w @ [0])) x" using that(2) w32 by (auto simp: inside_def)
    moreover have "\<not> inside (at_file_metadata l) (length (take 28 file)) x" using that(3) by (auto simp: inside_def)
    ultimately show ?thesis using w32 by (simp add: m2_def write_bytes_outside)
  qed
  ultimately show ?thesis
    using that [of st' frame] by (simp add: st'_def s4_def frame_def)
qed

lemma execute_starts:
  fixes st :: "'a kernel_scheme" and threads :: "int \<Rightarrow> int list" and cu :: addr and d :: dir_entry
  defines "cur \<equiv> last (threads (cur_process st))" and "command \<equiv> bytes (vmem st) cu 128"
    and "file \<equiv> file_bytes (vmem st) (fs_ptrs st) (inode_num d)"
  assumes "can_execute threads l command d st" "length (secondaries threads) < 3"
  obtains q st' frame where "4 \<le> q" "q \<le> 6" "q \<notin> set (all_procs threads)"
    "execute l cu st = Inr (st', To_user frame)"
    "frame = \<lparr>uf_ss = 0x2B, uf_esp = 0x8400000 - 4, uf_eflags = 0x202, uf_cs = 0x23, uf_eip = uf_eip frame\<rparr>"
    "bytes_of32 (uf_eip frame) = take 4 (drop 24 file)"
    "pcbs st' = (pcbs st)(pcb_at cur := (pcbs st (pcb_at cur))\<lparr>child_pcb := pcb_at q, pcb_ebp := frame_pointer l\<rparr>,
       pcb_at q := new_block (pcbs st (pcb_at q)) q (pcb_at cur) (command_word command) (command_args command))"
    "process_mapped st' q" "tss_esp0 st' = kernel_stack_top q"
    "bytes (vmem st') 0x08048000 (length file) = file"
    "active_processes st' = (active_processes st)(q - 1 := 1)" "aux_processes st' = aux_processes st + 1"
    "base_shell_live_bitmask st' = base_shell_live_bitmask st"
    "base_shell_booted_bitmask st' = base_shell_booted_bitmask st" "shell_init_boot st' = shell_init_boot st"
    "cur_process st' = cur_process st" "int_flag st'" "kernel.more st' = kernel.more st" "tss_ss0 st' = tss_ss0 st"
    "\<And>a. drop_bit 22 a = 1 \<Longrightarrow> \<not> inside (at_file_name l) 32 a \<Longrightarrow> \<not> inside (at_file_metadata l) 28 a \<Longrightarrow>
      vmem st' a = vmem st a"
proof -
  define w where "w = command_word command"
  have ld: "can_load l command d st" and a: "proc_inv threads st" using assms(4) by (simp_all add: can_execute_def)
  have inv: "threads_ok (pcbs st) (base_shell_booted_bitmask st) threads" "table_ok threads st"
    "booted_terminal (base_shell_booted_bitmask st) (cur_process st)" "running st cur"
    using a by (simp_all add: proc_inv_def cur_def)
  note tc = threads_ok_booted [OF inv(1,3)]
  have cur: "process_id (pcbs st (pcb_at cur)) = cur" "1 \<le> cur" "cur \<le> 6" "current_pcb_addr st = pcb_at cur"
    using chain_last(1-3) [of "pcbs st" "threads (cur_process st)", folded cur_def] tc inv(4)
    by (simp_all add: running_def)
  have "process_mapped st cur" using inv(4) by (simp add: running_def process_mapped_def)
  then have dir: "low_direct st" using cur by (intro low_direct_mapped) simp_all
  define s1 where "s1 = set_vmem (write_bytes (write_bytes (vmem st) (at_file_name l) (w @ [0]))
    (at_file_metadata l) (take 28 file)) (cli (st\<lparr>ebp := frame_pointer l\<rparr>))"
  have f1: "pcbs s1 = pcbs st" "active_processes s1 = active_processes st" "aux_processes s1 = aux_processes st"
    "base_shell_live_bitmask s1 = base_shell_live_bitmask st" "base_shell_booted_bitmask s1 = base_shell_booted_bitmask st"
    "shell_init_boot s1 = shell_init_boot st"
    by (simp_all add: s1_def)
  have t1: "threads_ok (pcbs s1) (base_shell_booted_bitmask s1) threads" "table_ok threads s1"
    using inv(1,2) by (simp_all add: table_ok_def f1)
  obtain q where q: "4 \<le> q" "q \<le> 6" "q \<notin> set (all_procs threads)"
    and sec: "secondary_process (junk_pid l) s1 = (s1\<lparr>active_processes := (active_processes s1)(q - 1 := 1),
       aux_processes := aux_processes s1 + 1\<rparr>, q)"
    using secondary_process_ok [OF t1 assms(5), of "junk_pid l"] by blast
  have choose: "choose_process b (junk_pid l) s1 = (s1\<lparr>active_processes := (active_processes st)(q - 1 := 1),
      aux_processes := aux_processes st + 1, base_shell_live_bitmask := base_shell_live_bitmask st,
      base_shell_booted_bitmask := base_shell_booted_bitmask st, shell_init_boot := shell_init_boot st\<rparr>, q, False)" for b
    using choose_process_secondary [OF t1(2)] sec by (simp add: f1 [symmetric])
  have q1: "1 \<le> q" using q(1) by simp
  have "cur \<in> set (all_procs threads)"
    using tc booted_cases [OF inv(3)] by (auto simp: cur_def all_procs_def)
  then have ne: "pcb_at cur \<noteq> pcb_at q" "cur \<noteq> q" using q cur by (auto simp: pcb_at_eq)
  have aux: "aux_processes st + 1 \<le> 3" using inv(2) assms(5) by (simp add: table_ok_def)
  obtain st' frame where x: "execute l cu st = Inr (st', To_user frame)"
    "frame = \<lparr>uf_ss = 0x2B, uf_esp = 0x8400000 - 4, uf_eflags = 0x202, uf_cs = 0x23, uf_eip = uf_eip frame\<rparr>"
    "bytes_of32 (uf_eip frame) = take 4 (drop 24 file)"
    "pcbs st' = (let h = (pcbs st)(pcb_at cur := (pcbs st (pcb_at cur))\<lparr>child_pcb := pcb_at q\<rparr>,
         pcb_at q := new_block (pcbs st (pcb_at q)) q (pcb_at cur) (command_word command) (command_args command))
       in h(pcb_at cur := (h (pcb_at cur))\<lparr>pcb_ebp := frame_pointer l\<rparr>))"
    "process_mapped st' q" "tss_esp0 st' = kernel_stack_top q" "bytes (vmem st') 0x08048000 (length file) = file"
    "active_processes st' = (active_processes st)(q - 1 := 1)" "aux_processes st' = aux_processes st + 1"
    "base_shell_live_bitmask st' = base_shell_live_bitmask st"
    "base_shell_booted_bitmask st' = base_shell_booted_bitmask st" "shell_init_boot st' = shell_init_boot st"
    "cur_process st' = cur_process st" "int_flag st'" "kernel.more st' = kernel.more st" "tss_ss0 st' = tss_ss0 st"
    "\<And>a. drop_bit 22 a = 1 \<Longrightarrow> \<not> inside (at_file_name l) 32 a \<Longrightarrow> \<not> inside (at_file_metadata l) 28 a \<Longrightarrow>
      vmem st' a = vmem st a"
    by (rule execute_core [OF ld [unfolded command_def] dir choose [of "_", unfolded s1_def w_def command_def file_def] aux q1 q(2)])
      (use ne cur(1,4) that in \<open>simp_all add: command_def file_def\<close>)
  have "pcbs st' = (pcbs st)(pcb_at cur := (pcbs st (pcb_at cur))\<lparr>child_pcb := pcb_at q, pcb_ebp := frame_pointer l\<rparr>,
       pcb_at q := new_block (pcbs st (pcb_at q)) q (pcb_at cur) (command_word command) (command_args command))"
    using ne by (auto simp: x(4) Let_def fun_eq_iff)
  then show ?thesis using x q by (intro that [of q st' frame])
qed

section \<open>\<open>halt\<close> ends a process\<close>

lemma map_process_table [simp]:
  "active_processes (map_process g n s) = active_processes s" "aux_processes (map_process g n s) = aux_processes s"
  by (simp_all add: map_process_def flush_tlb_def write_pdt_def)

definition closed_files :: "nat list \<Rightarrow> (nat \<Rightarrow> file_desc) \<Rightarrow> nat \<Rightarrow> file_desc" where
  "closed_files is fs i = (if i \<in> set is then (fs i)\<lparr>fd_flags := 0\<rparr> else fs i)"

lemma closed_files_Cons: "closed_files (i # is) fs = closed_files is (fs(i := (fs i)\<lparr>fd_flags := 0\<rparr>))"
  by (auto simp: closed_files_def fun_eq_iff)

lemma close_files_all:
  "close_files is st = Inr (st\<lparr>pcbs := (pcbs st)(current_pcb_addr st :=
     (current_pcb st)\<lparr>files := closed_files is (files (current_pcb st))\<rparr>)\<rparr>)"
proof (induction "is" arbitrary: st)
  case Nil
  have "closed_files [] fs = fs" for fs by (simp add: closed_files_def fun_eq_iff)
  then show ?case by (simp add: current_pcb_def)
next
  case (Cons i "is")
  let ?a = "current_pcb_addr st" and ?fs = "files (current_pcb st)"
  let ?s = "set_fd i (\<lambda>f. f\<lparr>fd_flags := 0\<rparr>) st"
  show ?case
  proof (cases "fd_flags (?fs i) = 0")
    case True
    then have "?fs(i := (?fs i)\<lparr>fd_flags := 0\<rparr>) = ?fs" by (cases "?fs i") (auto simp: fun_eq_iff)
    then show ?thesis using Cons.IH [of st] True by (simp add: closed_files_Cons)
  next
    case False
    have closes: "\<exists>r. (if close_op (operations_table (?fs i)) \<noteq> None
        then call_close (close_op (operations_table (?fs i))) i else Inr 0) = Inr r"
      by (auto simp: call_close_def split: driver.split)
    then have step: "close_files (i # is) st = close_files is ?s" using False by (auto simp: Let_def)
    show ?thesis
      unfolding step Cons.IH [of ?s] by (simp add: closed_files_Cons set_fd_def current_pcb_def update_pcb_def,
        simp add: fun_upd_def cong: if_cong)
  qed
qed

lemma low_byte: "uint (status AND 0xFF :: u32) = uint status mod 256"
proof -
  have "status AND 0xFF = status mod 256"
    using take_bit_eq_mod [of 8 status] by (simp add: take_bit_eq_mask mask_eq_exp_minus_1)
  then show ?thesis by (simp add: uint_mod)
qed

lemma proc_inv_parts:
  assumes "proc_inv threads st"
  defines "cur \<equiv> last (threads (cur_process st))"
  shows "threads_ok (pcbs st) (base_shell_booted_bitmask st) threads" "table_ok threads st"
    "booted_terminal (base_shell_booted_bitmask st) (cur_process st)" "running st cur"
    "process_id (pcbs st (pcb_at cur)) = cur" "1 \<le> cur" "cur \<le> 6" "current_pcb_addr st = pcb_at cur"
    "process_mapped st cur" "threads (cur_process st) \<noteq> []" "cur \<in> set (all_procs threads)"
proof -
  show inv: "threads_ok (pcbs st) (base_shell_booted_bitmask st) threads" "table_ok threads st"
    "booted_terminal (base_shell_booted_bitmask st) (cur_process st)" "running st cur"
    using assms(1) by (simp_all add: proc_inv_def cur_def)
  note tc = threads_ok_booted [OF inv(1,3)]
  show "process_id (pcbs st (pcb_at cur)) = cur" "1 \<le> cur" "cur \<le> 6" "threads (cur_process st) \<noteq> []"
    using chain_last(1-3) [of "pcbs st" "threads (cur_process st)", folded cur_def] tc by simp_all
  show "current_pcb_addr st = pcb_at cur" "process_mapped st cur"
    using inv(4) by (simp_all add: running_def process_mapped_def)
  show "cur \<in> set (all_procs threads)"
    using tc booted_cases [OF inv(3)] by (auto simp: cur_def all_procs_def)
qed

lemma halt_ends:
  fixes st :: "'a kernel_scheme" and threads :: "int \<Rightarrow> int list"
  defines "cur \<equiv> last (threads (cur_process st))" and "par \<equiv> last (butlast (threads (cur_process st)))"
  assumes "proc_inv threads st" "2 \<le> length (threads (cur_process st))"
  obtains f st' where "halt l g status st = Inr (st', Sys_return (if status = 256 then 256 else uint status mod 256))"
    "\<And>i. i < 8 \<Longrightarrow> fd_flags (f i) = 0" "1 \<le> par" "par \<le> 6" "par \<noteq> cur" "4 \<le> cur" "cur \<le> 6"
    "pcbs st' = (pcbs st)(pcb_at cur := (pcbs st (pcb_at cur))\<lparr>files := f, exit_status := status\<rparr>,
       pcb_at par := (pcbs st (pcb_at par))\<lparr>child_pcb := 0\<rparr>)"
    "process_mapped st' par" "tss_esp0 st' = kernel_stack_top par"
    "esp st' = pcb_ebp (pcbs st (pcb_at par))" "ebp st' = pcb_ebp (pcbs st (pcb_at par))"
    "active_processes st' = (active_processes st)(cur - 1 := 0)" "aux_processes st' = aux_processes st - 1"
    "base_shell_live_bitmask st' = base_shell_live_bitmask st"
    "base_shell_booted_bitmask st' = base_shell_booted_bitmask st" "shell_init_boot st' = shell_init_boot st"
    "cur_process st' = cur_process st" "tlb_fresh st'" "phys st' = phys st" "kernel.more st' = kernel.more st" "tss_ss0 st' = 0x18"
proof -
  note inv = proc_inv_parts [OF assms(3), folded cur_def]
  obtain ps where ps: "ps \<noteq> []" "threads (cur_process st) = ps @ [cur]" "butlast (threads (cur_process st)) = ps"
    "parent_pcb (pcbs st (pcb_at cur)) = pcb_at (last ps)" "process_id (pcbs st (pcb_at (last ps))) = last ps"
    "1 \<le> last ps" "last ps \<le> 6" "last ps \<noteq> cur"
    using top_process [OF inv(1,3) assms(4), folded cur_def] by metis
  have par: "par = last ps" using ps(3) by (simp add: par_def)
  have "cur \<in> set (tl (threads (cur_process st)))" using ps(1,2) by (cases ps) auto
  then have c4: "4 \<le> cur"
    using inv(2) booted_cases [OF inv(3)] by (auto simp: table_ok_def list_all_iff)
  have ne: "pcb_at par \<noteq> pcb_at cur" using ps(6-8) inv(6,7) by (simp add: par pcb_at_eq)
  define s0 where "s0 = cli st"
  have s0: "current_pcb_addr s0 = pcb_at cur" "current_pcb s0 = pcbs st (pcb_at cur)"
    using inv(8) by (simp_all add: s0_def current_pcb_def)
  define f where "f = closed_files [0..<8] (files (pcbs st (pcb_at cur)))"
  have f: "close_files [0..<8] s0 = Inr (s0\<lparr>pcbs := (pcbs s0)(pcb_at cur := (pcbs st (pcb_at cur))\<lparr>files := f\<rparr>)\<rparr>)"
    "\<And>i. i < 8 \<Longrightarrow> fd_flags (f i) = 0"
    using close_files_all [of "[0..<8]" s0] unfolding s0 f_def by (simp_all add: closed_files_def)
  define s1 where "s1 = s0\<lparr>pcbs := (pcbs s0)(pcb_at cur := (pcbs st (pcb_at cur))\<lparr>files := f, exit_status := status\<rparr>)\<rparr>"
  define s2 where "s2 = (map_process g (of_int (par + 1)) s1)\<lparr>tss_esp0 := kernel_stack_top par, tss_ss0 := 0x18,
    active_processes := (active_processes s1)(cur - 1 := 0), aux_processes := aux_processes s1 - 1\<rparr>"
  define s3 where "s3 = update_pcb (pcb_at par) (\<lambda>p. p\<lparr>child_pcb := 0\<rparr>) s2"
  define st' where "st' = s3\<lparr>ebp := pcb_ebp (pcbs st (pcb_at par)), esp := pcb_ebp (pcbs st (pcb_at par))\<rparr>"
  have upd: "update_pcb (pcb_at cur) (\<lambda>p. p\<lparr>exit_status := status\<rparr>)
      (s0\<lparr>pcbs := (pcbs s0)(pcb_at cur := (pcbs st (pcb_at cur))\<lparr>files := f\<rparr>)\<rparr>) = s1"
    by (simp add: update_pcb_def s1_def)
  have p1: "process_id (pcbs s1 (pcb_at cur)) = cur" "parent_pcb (pcbs s1 (pcb_at cur)) = pcb_at par"
    "process_id (pcbs s1 (pcb_at par)) = par" "pcb_ebp (pcbs s3 (pcb_at par)) = pcb_ebp (pcbs st (pcb_at par))"
    "parent_pcb (pcbs s3 (pcb_at cur)) = pcb_at par" "pcb_ebp (pcbs s1 (pcb_at par)) = pcb_ebp (pcbs st (pcb_at par))"
    using inv(5) ps(4,5) ne by (simp_all add: s1_def s0_def par s3_def s2_def)
  have "halt l g status st = Inr (st', Sys_return (if status = 256 then 256 else uint status mod 256))"
    unfolding halt_def Let_def s0_def [symmetric] f(1) andthen_Inr s0(1) upd p1(1,2)
    using c4 p1 ne ne [symmetric] by (simp add: halt_return_def st'_def s2_def s3_def low_byte)
  moreover have "process_mapped st' par"
    using map_process_mapped [of par g s1] ps(6,7)
    by (simp add: st'_def s3_def s2_def par process_mapped_def user_mapped_def)
  moreover have "pcbs st' = (pcbs st)(pcb_at cur := (pcbs st (pcb_at cur))\<lparr>files := f, exit_status := status\<rparr>,
       pcb_at par := (pcbs st (pcb_at par))\<lparr>child_pcb := 0\<rparr>)"
    using ne by (auto simp: st'_def s3_def s2_def s1_def s0_def fun_eq_iff)
  moreover have "phys st' = phys st" "kernel.more st' = kernel.more st" "tss_ss0 st' = 0x18"
    by (simp_all add: st'_def s3_def s2_def s1_def s0_def map_process_def flush_tlb_def write_pdt_def update_pcb_def cli_def)
  ultimately show ?thesis
    using f(2) ps(6-8) c4 inv(7) that [of st' f]
    by (simp add: par st'_def s3_def s2_def s1_def s0_def map_process_def flush_tlb_def write_pdt_def cli_def)
qed

text \<open>What \<open>execute\<close> needs of the image and of its locals, in a state with the same image.\<close>

lemma can_load_same:
  fixes st :: "'a fsys_scheme" and st' :: "'b fsys_scheme"
  assumes "can_load l command d st" "fs_ptrs st' = fs_ptrs st"
    and "same_image (g_boot_block st) (fs_length (vmem st) (g_boot_block st)) (vmem st) (vmem st')"
    and "at_file_name l' = at_file_name l" "at_file_metadata l' = at_file_metadata l"
  shows "can_load l' command d st'"
    "file_bytes (vmem st') (fs_ptrs st') (inode_num d) = file_bytes (vmem st) (fs_ptrs st) (inode_num d)"
    "file_size (vmem st') (fs_ptrs st') (inode_num d) = file_size (vmem st) (fs_ptrs st) (inode_num d)"
proof -
  have fst_ptrs: "fst (fs_ptrs st) = g_boot_block st" "g_boot_block st' = g_boot_block st"
    using assms(2) by (simp_all add: fs_ptrs_def)
  have a: "fs_ok (vmem st) (fs_ptrs st)" "inode_ok (vmem st) (fs_ptrs st) (inode_num d)"
    using assms(1) by (simp_all add: can_load_def image_low_def elf_def)
  note s = same_image_file [OF a(1) assms(3) [folded fst_ptrs(1)] a(2)]
  have "num_dir_entries (vmem st) (g_boot_block st) \<le> 63" using a(1) by (simp add: fs_ok_def fs_ptrs_def)
  note n = same_image_dir(3) [OF assms(3) this]
  show "file_bytes (vmem st') (fs_ptrs st') (inode_num d) = file_bytes (vmem st) (fs_ptrs st) (inode_num d)"
    "file_size (vmem st') (fs_ptrs st') (inode_num d) = file_size (vmem st) (fs_ptrs st) (inode_num d)"
    using s by (simp_all add: assms(2))
  show "can_load l' command d st'"
    using assms(1) s n by (simp add: can_load_def image_low_def locals_ok_def elf_def assms(2,4,5) fst_ptrs)
qed

end
