(* ===== verification/Example.thy ===== *)
theory Example imports Processes begin

text \<open>
  A concrete machine state for the witnesses: an image with a directory, two programs and the
  clock; terminals 1 and 2 booted, terminal 1 running \<open>cat\<close> on top of its shell.  The argument is
  the terminal that has the processor.
\<close>

definition system_image :: mem where
  "system_image a =
     (if a = 0x400000 then 4 else if a = 0x400004 then 3 else if a = 0x400008 then 2 else
      if a = 0x400040 then 46 else if a = 0x400060 then 1 else if a = 0x400080 then 115 else
      if a = 0x400081 then 104 else if a = 0x400082 then 101 else if a = 0x400083 then 108 else
      if a = 0x400084 then 108 else if a = 0x4000A0 then 2 else if a = 0x4000A4 then 1 else
      if a = 0x4000C0 then 99 else if a = 0x4000C1 then 97 else if a = 0x4000C2 then 116 else
      if a = 0x4000E0 then 2 else if a = 0x4000E4 then 2 else if a = 0x400100 then 114 else
      if a = 0x400101 then 116 else if a = 0x400102 then 99 else if a = 0x402000 then 28 else
      if a = 0x403000 then 30 else if a = 0x403004 then 1 else if a = 0x404000 then 127 else
      if a = 0x404001 then 69 else if a = 0x404002 then 76 else if a = 0x404003 then 70 else
      if a = 0x404018 then 24 else if a = 0x404019 then 128 else if a = 0x40401A then 4 else
      if a = 0x40401B then 8 else if a = 0x405000 then 127 else if a = 0x405001 then 69 else
      if a = 0x405002 then 76 else if a = 0x405003 then 70 else if a = 0x405018 then 24 else
      if a = 0x405019 then 128 else if a = 0x40501A then 4 else if a = 0x40501B then 8 else
      if a = 0x40501C then 144 else if a = 0x40501D then 244 else if a = 0x500000 then 99 else
      if a = 0x500001 then 97 else if a = 0x500002 then 116 else if a = 0x500003 then 32 else
      if a = 0x500004 then 32 else if a = 0x500005 then 102 else if a = 0x500080 then 115 else
      if a = 0x500081 then 104 else if a = 0x500082 then 101 else if a = 0x500083 then 108 else
      if a = 0x500084 then 108 else if a = 0x500100 then 114 else if a = 0x500101 then 116 else
      if a = 0x500102 then 99 else if a = 0x500180 then 122 else if a = 0x500181 then 122 else 0)"

definition system_fs :: "addr \<times> addr \<times> addr" where
  "system_fs = (0x400000, 0x401000, 0x404000)"

definition system_pcb :: "int \<Rightarrow> addr \<Rightarrow> addr \<Rightarrow> addr \<Rightarrow> addr \<Rightarrow> pcb" where
  "system_pcb p child parent e sched = \<lparr>process_id = p, exit_status = 0,
     files = (\<lambda>_. stdin_fd)(0 := stdin_fd\<lparr>fd_flags := 1\<rparr>, 1 := stdout_fd\<lparr>fd_flags := 1\<rparr>,
       2 := \<lparr>operations_table = file_operations_table, inode = 2, file_position = 0, fd_flags = 1\<rparr>),
     args = (\<lambda>i. if i = 0 then 102 else 0), pname = [], child_pcb = child, parent_pcb = parent,
     pcb_ebp = e, sched_ebp = sched\<rparr>"

definition system_threads :: "int \<Rightarrow> int list" where
  "system_threads t = (if t = 1 then [1, 4] else if t = 2 then [2] else [])"

definition system_state :: "int \<Rightarrow> kernel" where
  "system_state t = set_vmem system_image \<lparr>phys = (\<lambda>_. 0), out_log = [], int_flag = False,
     esp = (if t = 1 then 0x7F7F00 else 0x7FBF00), ebp = (if t = 1 then 0x7F7F20 else 0x7FBF20),
     debug_regs = \<lambda>_. 0, master_mask = 0xF8, slave_mask = 0xFE,
     pdt = (\<lambda>_. 0)(32 := pdt_entry_page_setup 0 (if t = 1 then 5 else 3) 1), pt0 = \<lambda>_. 0, pt_vidmap = \<lambda>_. 0,
     at_pdt = 0x410000, at_pt0 = 0x411000, at_pt_vidmap = 0x412000, cr0 = 0, cr3 = 0, cr4 = 0,
     tlb_fresh = True, tss_esp0 = (if t = 1 then 0x7F8000 else 0x7FC000), tss_ss0 = 0x18,
     pcbs = (\<lambda>_. system_pcb 0 0 0 0 0)(0x7FC000 := system_pcb 1 0x7F6000 0 0x7FDE00 0x7FDE80,
       0x7FA000 := system_pcb 2 0 0 0x7FBE00 0x7FBE80, 0x7F6000 := system_pcb 4 0 0x7FC000 0x7F7E00 0x7F7E80),
     aux_processes = 1, base_shell_live_bitmask = 3, base_shell_booted_bitmask = 3, shell_init_boot = 0,
     active_processes = (\<lambda>_. 0)(0 := 1, 1 := 1, 3 := 1), cur_process = t, cur_terminal = 1,
     g_boot_block = 0x400000, g_inodes = 0x401000, g_data_blocks = 0x404000,
     screen_x = \<lambda>_. 0, screen_y = \<lambda>_. 0,
     keyboard_buffer = (\<lambda>_. 0)(0 := 104, 1 := 105, 2 := 10), keyboard_index = \<lambda>_. 0, shift_flag = 0,
     caps_lock_flag = 0, ctrl_flag = 0, enter_flag = \<lambda>_. 0, newline_flag = 0, alt_flag = 0,
     rtc_flag = \<lambda>_. 1, rtc_counter = \<lambda>_. 5, rtc_freq = \<lambda>_. 2, lit_shell = 0x500080,
     lit_max_processes = 0x500200\<rparr>"

definition system_locals :: execute_locals where
  "system_locals = \<lparr>at_file_name = 0x7F7D00, at_file_metadata = 0x7F7D40, frame_pointer = 0x7F7EC0,
     junk_page = 0, junk_pid = 0\<rparr>"

section \<open>The image\<close>

lemma system_counts:
  "num_inodes system_image 0x400000 = 3" "num_data_blocks system_image 0x400000 = 2"
  "num_dir_entries system_image 0x400000 = 4" "inode_size system_image 0x401000 2 = 30"
  "inode_block system_image 0x401000 2 0 = 1" "fs_length system_image 0x400000 = 24576"
  by (simp_all add: num_inodes_def num_data_blocks_def num_dir_entries_def inode_size_def
      inode_block_def inode_addr_def read32_def fs_length_def system_image_def)

lemma system_ok:
  "fs_ok system_image system_fs" "inode_ok system_image system_fs 2"
  by (simp_all add: fs_ok_def inode_ok_def system_counts system_fs_def)

lemma file_bytes_one_block:
  "file_size m (bb, ino, db) k \<le> 4096 \<Longrightarrow>
    file_bytes m (bb, ino, db) k = bytes m (db + 4096 * inode_block m ino k 0) (file_size m (bb, ino, db) k)"
  by (auto simp: file_bytes_def bytes_def file_byte_addr_def)

lemma system_file:
  "file_bytes system_image system_fs 2 = [0x7F, 0x45, 0x4C, 0x46, 0, 0, 0, 0, 0, 0, 0, 0, 0, 0, 0, 0, 0, 0, 0, 0,
     0, 0, 0, 0, 0x18, 0x80, 0x04, 0x08, 0x90, 0xF4]" "file_size system_image system_fs 2 = 30"
proof -
  show sz: "file_size system_image system_fs 2 = 30"
    by (simp add: file_size_def system_counts system_fs_def)
  then have "file_bytes system_image system_fs 2 = bytes system_image 0x405000 30"
    using file_bytes_one_block [of system_image "0x400000" "0x401000" "0x404000" 2]
    by (simp add: system_fs_def system_counts)
  then show "file_bytes system_image system_fs 2 = [0x7F, 0x45, 0x4C, 0x46, 0, 0, 0, 0, 0, 0, 0, 0, 0, 0, 0, 0,
      0, 0, 0, 0, 0, 0, 0, 0, 0x18, 0x80, 0x04, 0x08, 0x90, 0xF4]"
    by (simp add: bytes_def upt_rec system_image_def)
qed

lemma system_vmem: "vmem (system_state t) = system_image"
  by (simp add: system_state_def)

lemma system_fields:
  "fs_ptrs (system_state t) = system_fs" "g_boot_block (system_state t) = 0x400000"
  "cur_process (system_state t) = t" "cur_terminal (system_state t) = 1"
  "base_shell_booted_bitmask (system_state t) = 3" "aux_processes (system_state t) = 1"
  "int_flag (system_state t) = False" "lit_shell (system_state t) = 0x500080"
  "at_pt_vidmap (system_state t) = 0x412000" "tlb_fresh (system_state t)"
  "rtc_freq (system_state t) = (\<lambda>_. 2)" "rtc_counter (system_state t) = (\<lambda>_. 5)" "rtc_flag (system_state t) = (\<lambda>_. 1)"
  "screen_x (system_state t) = (\<lambda>_. 0)" "screen_y (system_state t) = (\<lambda>_. 0)"
  "ebp (system_state t) = (if t = 1 then 0x7F7F20 else 0x7FBF20)"
  by (simp_all add: system_state_def fs_ptrs_def system_fs_def set_vmem_def)

lemma pcb_at_numerals:
  "pcb_at 1 = 0x7FC000" "pcb_at 2 = 0x7FA000" "pcb_at 4 = 0x7F6000"
  "kernel_stack_top 2 = 0x7FC000" "kernel_stack_top 4 = 0x7F8000"
  by (simp_all add: pcb_at_def kernel_stack_top_def)

lemma system_pcbs:
  "pcbs (system_state t) 0x7FC000 = system_pcb 1 0x7F6000 0 0x7FDE00 0x7FDE80"
  "pcbs (system_state t) 0x7FA000 = system_pcb 2 0 0 0x7FBE00 0x7FBE80"
  "pcbs (system_state t) 0x7F6000 = system_pcb 4 0 0x7FC000 0x7F7E00 0x7F7E80"
  by (simp_all add: system_state_def)

lemma system_current:
  "current_pcb_addr (system_state 1) = 0x7F6000" "current_pcb_addr (system_state 2) = 0x7FA000"
  "current_pcb (system_state 1) = system_pcb 4 0 0x7FC000 0x7F7E00 0x7F7E80"
  by (simp_all add: system_state_def current_pcb_addr_def current_pcb_def)

lemma system_chains: "chain (pcbs (system_state t)) [1, 4]" "chain (pcbs (system_state t)) [2]"
  by (simp_all add: chain_def All_less_Suc numeral_2_eq_2 pcb_at_numerals system_pcbs system_pcb_def)

lemma system_threads_ok: "threads_ok (pcbs (system_state t)) 3 system_threads"
  using system_chains [of t] by (simp add: threads_ok_def system_threads_def)

lemma system_running: "running (system_state 1) 4" "running (system_state 2) 2"
  by (simp_all add: running_def pcb_at_numerals system_current system_pcbs system_pcb_def)
    (simp_all add: system_state_def user_mapped_def set_vmem_def drop_bit_pdt_entry pdt_entry_present take_bit_10_id)

lemma system_inv:
  "sched_inv system_threads (system_state 1)" "sched_inv system_threads (system_state 2)"
proof -
  have "context_ok (pcbs (system_state t)) 2" "context_ok (pcbs (system_state t)) 4" for t
    by (simp_all add: context_ok_def on_stack_of_def pcb_at_numerals system_pcbs system_pcb_def)
  then show "sched_inv system_threads (system_state 1)" "sched_inv system_threads (system_state 2)"
    using system_threads_ok system_running
    by (simp_all add: sched_inv_def system_fields booted_terminal_def system_threads_def)
qed

lemma system_proc_inv: "proc_inv system_threads (system_state 1)"
  using system_threads_ok system_running
  by (simp add: proc_inv_def system_fields booted_terminal_def system_threads_def table_ok_def all_procs_def
      secondaries_def, simp add: system_state_def)

lemma system_low: "image_low (system_state t)"
  by (simp add: image_low_def system_vmem system_fields system_ok low_def system_counts)

lemma system_locals_ok: "locals_ok system_locals (system_state t)"
  by (simp add: locals_ok_def system_locals_def system_vmem system_fields system_counts apart_def)

lemma system_command: "command_word (bytes system_image 0x500000 128) = [99, 97, 116]"
  "command_ok (bytes system_image 0x500000 128)" "command_args (bytes system_image 0x500000 128) = [102]"
proof -
  have "bytes system_image 0x500000 7 = [99, 97, 116, 32, 32, 102, 0]"
    by (simp add: bytes_def upt_rec system_image_def)
  then obtain ys where b: "bytes system_image 0x500000 128 = [99, 97, 116, 32, 32, 102, 0] @ ys" "length ys = 121"
    using bytes_add [of system_image "0x500000" 7 121] by simp
  show w: "command_word (bytes system_image 0x500000 128) = [99, 97, 116]"
    unfolding b(1) by (simp add: command_word_def)
  then show "command_ok (bytes system_image 0x500000 128)"
    unfolding command_ok_def w unfolding b(1) by (simp add: b(2))
  show "command_args (bytes system_image 0x500000 128) = [102]"
    unfolding command_args_def w unfolding b(1) by simp
qed

lemma field_string_rec:
  "0 < n \<Longrightarrow> field_string m s n = (if m s = 0 then [] else m s # field_string m (s + 1) (n - 1))"
  by (cases n) (simp_all add: field_string_Suc)

lemma system_names: "dir_names system_image 0x400000 =
    [[46], [115, 104, 101, 108, 108], [99, 97, 116], [114, 116, 99]]"
  by (simp add: dir_names_def system_counts dentry_addr_def upt_rec field_string_rec,
      simp add: system_image_def field_string_rec)

lemma system_lookup: "\<exists>d. lookup_name system_image 0x400000 [99, 97, 116] = Some d \<and> inode_num d = 2"
  by (simp add: lookup_name_def system_names upt_rec dentry_at_def dentry_addr_def read32_def system_image_def)

lemma system_can_execute:
  "\<exists>d. can_execute system_threads system_locals (bytes (vmem (system_state 1)) 0x500000 128) d (system_state 1)"
proof -
  obtain d where d: "lookup_name system_image 0x400000 [99, 97, 116] = Some d" "inode_num d = 2"
    using system_lookup by blast
  have "elf system_image system_fs 2" by (simp add: elf_def system_ok system_file)
  then have "can_execute system_threads system_locals (bytes (vmem (system_state 1)) 0x500000 128) d (system_state 1)"
    using d system_command(2) system_proc_inv system_low system_locals_ok
    by (simp add: can_execute_def can_load_def system_vmem system_fields system_command(1) system_file fits_user_def)
      (simp add: low_def system_locals_def)
  then show ?thesis by blast
qed

end
