(* ===== verification/ProcessProps.thy ===== *)
theory ProcessProps imports Example begin

text \<open>
  The properties of \<open>execute\<close> and \<open>halt\<close>: they refine pushing and popping on the process stacks,
  load what the file holds, and undo each other.
\<close>

section \<open>Refinement\<close>

lemma execute_keeps_inv:
  fixes st :: "'a kernel_scheme"
  assumes "can_execute threads l (bytes (vmem st) cu 128) d st" "length (secondaries threads) < 3" "0 < n" "n \<le> 8192"
  obtains q st' frame where "execute l cu st = Inr (st', To_user frame)" "4 \<le> q" "q \<le> 6" "q \<notin> set (all_procs threads)"
    "proc_inv (push_process (cur_process st) q threads) (enter_kernel n st')"
    "pcb_ebp (pcbs st' (pcb_at (last (threads (cur_process st))))) = frame_pointer l"
    "cur_process st' = cur_process st"
proof -
  define cur where "cur = last (threads (cur_process st))"
  obtain q st' frame where q: "4 \<le> q" "q \<le> 6" "q \<notin> set (all_procs threads)"
    "execute l cu st = Inr (st', To_user frame)"
    "pcbs st' = (pcbs st)(pcb_at cur := (pcbs st (pcb_at cur))\<lparr>child_pcb := pcb_at q, pcb_ebp := frame_pointer l\<rparr>,
       pcb_at q := new_block (pcbs st (pcb_at q)) q (pcb_at cur) (command_word (bytes (vmem st) cu 128))
         (command_args (bytes (vmem st) cu 128)))"
    "process_mapped st' q" "tss_esp0 st' = kernel_stack_top q"
    "active_processes st' = (active_processes st)(q - 1 := 1)" "aux_processes st' = aux_processes st + 1"
    "base_shell_live_bitmask st' = base_shell_live_bitmask st"
    "base_shell_booted_bitmask st' = base_shell_booted_bitmask st" "shell_init_boot st' = shell_init_boot st"
    "cur_process st' = cur_process st"
    using execute_starts [OF assms(1,2), folded cur_def] by metis
  have "proc_inv threads st" using assms(1) by (simp add: can_execute_def)
  note inv = proc_inv_parts [OF this, folded cur_def]
  have q1: "1 \<le> q" using q(1) by simp
  have ne: "cur \<noteq> q" using inv(11) q(3) by auto
  then have nep: "pcb_at cur \<noteq> pcb_at q" using inv(6,7) q1 q(2) by (simp add: pcb_at_eq)
  let ?th = "push_process (cur_process st) q threads"
  have th: "?th (cur_process st) = threads (cur_process st) @ [q]" by (simp add: push_process_def)
  have "threads_ok (pcbs st') (base_shell_booted_bitmask st) ?th"
  proof (rule threads_ok_push [OF inv(1,3) q(3,1,2), folded cur_def])
    fix r :: int assume "1 \<le> r" "r \<le> 6" "r \<noteq> cur" "r \<noteq> q"
    then show "pcbs st' (pcb_at r) = pcbs st (pcb_at r)"
      unfolding q(5) using inv(6,7) q1 q(2) by (simp add: pcb_at_eq)
  qed (use nep inv(5) in \<open>simp_all add: q(5) new_block_def\<close>)
  moreover have "table_ok ?th st'"
    by (rule table_ok_push [OF inv(2,3) q(3,1,2) inv(10) q(8-12)])
  then have "table_ok ?th (enter_kernel n st')"
    by (rule table_ok_cong [THEN iffD1, rotated 5]) (simp_all add: enter_kernel_def)
  moreover have "running (enter_kernel n st') q"
    using q(5-7) q1 q(2) assms(3,4) by (intro running_enter_kernel) (simp_all add: new_block_def)
  ultimately have "proc_inv ?th (enter_kernel n st')"
    using inv(3) q(11,13) by (simp add: proc_inv_def th enter_kernel_def)
  moreover have "pcb_ebp (pcbs st' (pcb_at cur)) = frame_pointer l" using nep by (simp add: q(5))
  ultimately show ?thesis using that [OF q(4) q(1-3)] q(13) by (simp add: cur_def)
qed

lemma halt_keeps_inv:
  fixes st :: "'a kernel_scheme" and threads :: "int \<Rightarrow> int list"
  defines "par \<equiv> last (butlast (threads (cur_process st)))"
  assumes "proc_inv threads st" "2 \<le> length (threads (cur_process st))"
    and "on_stack_of par (pcb_ebp (pcbs st (pcb_at par)))"
  obtains st' where "halt l g status st = Inr (st', Sys_return (if status = 256 then 256 else uint status mod 256))"
    "proc_inv (pop_process (cur_process st) threads) st'" "process_mapped st' par" "tlb_fresh st'"
    "esp st' = pcb_ebp (pcbs st (pcb_at par))" "ebp st' = pcb_ebp (pcbs st (pcb_at par))"
    "\<And>i. i < 8 \<Longrightarrow> fd_flags (files (pcbs st' (pcb_at (last (threads (cur_process st))))) i) = 0"
proof -
  define cur where "cur = last (threads (cur_process st))"
  define p where "p = par"
  obtain f st' where h: "halt l g status st = Inr (st', Sys_return (if status = 256 then 256 else uint status mod 256))"
    "\<And>i. i < 8 \<Longrightarrow> fd_flags (f i) = 0" "1 \<le> p" "p \<le> 6" "p \<noteq> cur" "4 \<le> cur" "cur \<le> 6"
    "pcbs st' = (pcbs st)(pcb_at cur := (pcbs st (pcb_at cur))\<lparr>files := f, exit_status := status\<rparr>,
       pcb_at p := (pcbs st (pcb_at p))\<lparr>child_pcb := 0\<rparr>)"
    "process_mapped st' p" "tss_esp0 st' = kernel_stack_top p"
    "esp st' = pcb_ebp (pcbs st (pcb_at p))" "ebp st' = pcb_ebp (pcbs st (pcb_at p))"
    "active_processes st' = (active_processes st)(cur - 1 := 0)" "aux_processes st' = aux_processes st - 1"
    "base_shell_live_bitmask st' = base_shell_live_bitmask st"
    "base_shell_booted_bitmask st' = base_shell_booted_bitmask st" "shell_init_boot st' = shell_init_boot st"
    "cur_process st' = cur_process st" "tlb_fresh st'"
    using halt_ends [OF assms(2,3), folded cur_def par_def, folded p_def, of l g status] by metis
  note inv = proc_inv_parts [OF assms(2), folded cur_def]
  obtain ps where ps: "ps \<noteq> []" "threads (cur_process st) = ps @ [cur]" "butlast (threads (cur_process st)) = ps"
    "process_id (pcbs st (pcb_at (last ps))) = last ps"
    using top_process [OF inv(1,3) assms(3), folded cur_def] by metis
  have p: "p = last ps" using ps(3) by (simp add: p_def par_def)
  have ne: "pcb_at p \<noteq> pcb_at cur" using h(3-7) by (simp add: pcb_at_eq)
  let ?th = "pop_process (cur_process st) threads"
  have d: "distinct (all_procs threads)" using inv(1) by (simp add: threads_ok_iff)
  have "threads_ok (pcbs st') (base_shell_booted_bitmask st) ?th"
  proof (rule threads_ok_pop [OF inv(1,3) assms(3), folded cur_def, folded par_def, folded p_def])
    fix r :: int assume "1 \<le> r" "r \<le> 6" "r \<noteq> p" "r \<noteq> cur"
    then show "pcbs st' (pcb_at r) = pcbs st (pcb_at r)"
      unfolding h(8) using h(3-7) by (simp add: pcb_at_eq)
  qed (use ps(4) in \<open>simp_all add: h(8) p\<close>)
  moreover have "table_ok ?th st'"
    by (rule table_ok_pop [OF inv(2,3) ps(2,1) h(6,7) d h(13-17)])
  moreover have "?th (cur_process st) = ps" by (simp add: pop_process_def ps(2))
  moreover have "running st' p"
    using h(8-10) ps(4) assms(4) unfolding p_def [symmetric]
    by (simp add: running_def process_mapped_def current_pcb_addr_def h(11) on_stack_of_def p)
  ultimately have "proc_inv ?th st'"
    using inv(3) h(16,18) by (simp add: proc_inv_def p)
  moreover have "fd_flags (files (pcbs st' (pcb_at cur)) i) = 0" if "i < 8" for i
    using ne h(2) [OF that] by (simp add: h(8))
  ultimately show ?thesis using that [OF h(1)] h(9,11,12,19) by (simp add: p_def cur_def)
qed

section \<open>Properties\<close>

text \<open>C5: \<open>execute\<close> of a program that is in the file system refines pushing on the process stack of the
  running terminal: while fewer than three secondary processes exist it leaves for user mode, the new
  process was on no stack, and when it next enters the kernel every stack is as before but for the new
  process on top of the caller's, and process table, page directory and kernel stack agree with them.\<close>

theorem execute_pushes:
  assumes "can_execute threads l (bytes (vmem st) cu 128) d st" "length (secondaries threads) < 3"
    and "0 < n" "n \<le> 8192"
  shows "\<exists>q st' frame. execute l cu st = Inr (st', To_user frame) \<and> q \<notin> set (all_procs threads) \<and>
    proc_inv (push_process (cur_process st) q threads) (enter_kernel n st')"
  using execute_keeps_inv [OF assms] by metis

text \<open>C17: what \<open>execute\<close> gives the new process: its user page holds the bytes of the file at 0x08048000,
  the processor continues at the address in bytes 24 to 27 of the file with the stack at the top of the
  page and interrupts on, the control block holds the argument string, standard input and output are
  open, and the parent is the caller.\<close>

theorem execute_loads:
  assumes "can_execute threads l (bytes (vmem st) cu 128) d st" "length (secondaries threads) < 3"
  shows "\<exists>q st' frame. execute l cu st = Inr (st', To_user frame) \<and> process_mapped st' q \<and>
    bytes (vmem st') 0x08048000 (file_size (vmem st) (fs_ptrs st) (inode_num d)) =
      file_bytes (vmem st) (fs_ptrs st) (inode_num d) \<and>
    bytes_of32 (uf_eip frame) = take 4 (drop 24 (file_bytes (vmem st) (fs_ptrs st) (inode_num d))) \<and>
    uf_esp frame = 0x83FFFFC \<and> int_flag st' \<and>
    (let p = pcbs st' (pcb_at q); xs = command_args (bytes (vmem st) cu 128) in
      parent_pcb p = pcb_at (last (threads (cur_process st))) \<and> pname p = command_word (bytes (vmem st) cu 128) \<and>
      map (args p) [0..<length xs] = xs \<and> args p (length xs) = 0 \<and>
      files p 0 = stdin_fd\<lparr>fd_flags := 1\<rparr> \<and> files p 1 = stdout_fd\<lparr>fd_flags := 1\<rparr>)"
proof -
  let ?k = "inode_num d" and ?xs = "command_args (bytes (vmem st) cu 128)"
  obtain q st' frame where q: "execute l cu st = Inr (st', To_user frame)"
    "frame = \<lparr>uf_ss = 0x2B, uf_esp = 0x8400000 - 4, uf_eflags = 0x202, uf_cs = 0x23, uf_eip = uf_eip frame\<rparr>"
    "bytes_of32 (uf_eip frame) = take 4 (drop 24 (file_bytes (vmem st) (fs_ptrs st) ?k))"
    "pcbs st' (pcb_at q) = new_block (pcbs st (pcb_at q)) q (pcb_at (last (threads (cur_process st))))
       (command_word (bytes (vmem st) cu 128)) ?xs"
    "process_mapped st' q" "int_flag st'"
    "bytes (vmem st') 0x08048000 (file_size (vmem st) (fs_ptrs st) ?k) = file_bytes (vmem st) (fs_ptrs st) ?k"
    using execute_starts [OF assms] by (metis fun_upd_same length_file_bytes)
  have "length ?xs < 128" using assms(1) command_parse(4) by (simp add: can_execute_def can_load_def)
  then have "map (new_args ?xs old) [0..<length ?xs] = ?xs" "new_args ?xs old (length ?xs) = 0" for old
    by (auto simp: new_args_def intro: nth_equalityI)
  moreover have "uf_esp frame = 0x83FFFFC" by (subst q(2)) simp
  ultimately show ?thesis
    using q by (intro exI [of _ q] exI [of _ st'] exI [of _ frame]) (simp add: new_block_def Let_def)
qed

text \<open>C6: \<open>halt\<close> of a process that was started by another one refines popping it from its terminal's
  stack: the parent is the running process again, with its user page, its kernel stack and the frame it
  called \<open>execute\<close> from; the eight descriptors of the ended process are closed; and \<open>execute\<close> returns the
  low byte of the status to the parent, or 256 for an exception.\<close>

theorem halt_pops:
  assumes "proc_inv threads st" "2 \<le> length (threads (cur_process st))"
    and "on_stack_of (last (butlast (threads (cur_process st))))
      (pcb_ebp (pcbs st (pcb_at (last (butlast (threads (cur_process st)))))))"
  shows "\<exists>st'. halt l g status st = Inr (st', Sys_return (if status = 256 then 256 else uint status mod 256)) \<and>
    proc_inv (pop_process (cur_process st) threads) st' \<and>
    ebp st' = pcb_ebp (pcbs st (pcb_at (last (butlast (threads (cur_process st)))))) \<and> tlb_fresh st' \<and>
    list_all (\<lambda>i. fd_flags (files (pcbs st' (pcb_at (last (threads (cur_process st))))) i) = 0) [0..<8]"
proof -
  obtain st' where "halt l g status st = Inr (st', Sys_return (if status = 256 then 256 else uint status mod 256))"
    "proc_inv (pop_process (cur_process st) threads) st'" "tlb_fresh st'"
    "ebp st' = pcb_ebp (pcbs st (pcb_at (last (butlast (threads (cur_process st))))))"
    "\<And>i. i < 8 \<Longrightarrow> fd_flags (files (pcbs st' (pcb_at (last (threads (cur_process st))))) i) = 0"
    using halt_keeps_inv [OF assms, of l g status] by metis
  then show ?thesis by (intro exI [of _ st']) (simp add: list_all_iff)
qed

text \<open>\<open>halt\<close> undoes \<open>execute\<close>: when the started program halts, the caller continues in the frame it
  executed from, with all process stacks as they were and the status byte as the result.\<close>

theorem execute_then_halt:
  assumes "can_execute threads l (bytes (vmem st) cu 128) d st" "length (secondaries threads) < 3"
    and "0 < n" "n \<le> 8192" "on_stack_of (last (threads (cur_process st))) (frame_pointer l)"
  shows "\<exists>st1 frame st2. execute l cu st = Inr (st1, To_user frame) \<and>
    halt l2 g status (enter_kernel n st1) =
      Inr (st2, Sys_return (if status = 256 then 256 else uint status mod 256)) \<and>
    proc_inv threads st2 \<and> ebp st2 = frame_pointer l"
proof -
  let ?cp = "cur_process st"
  obtain q st1 frame where e: "execute l cu st = Inr (st1, To_user frame)"
    "proc_inv (push_process ?cp q threads) (enter_kernel n st1)"
    "pcb_ebp (pcbs st1 (pcb_at (last (threads ?cp)))) = frame_pointer l" "cur_process st1 = ?cp"
    using execute_keeps_inv [OF assms(1-4)] by metis
  let ?s = "enter_kernel n st1"
  have s: "cur_process ?s = ?cp" "pcbs ?s = pcbs st1" using e(4) by (simp_all add: enter_kernel_def)
  have "proc_inv threads st" using assms(1) by (simp add: can_execute_def)
  then have ne: "threads ?cp \<noteq> []" by (rule proc_inv_parts(10))
  have th: "push_process ?cp q threads ?cp = threads ?cp @ [q]" by (simp add: push_process_def)
  obtain st2 where "halt l2 g status ?s = Inr (st2, Sys_return (if status = 256 then 256 else uint status mod 256))"
    "proc_inv (pop_process ?cp (push_process ?cp q threads)) st2" "ebp st2 = frame_pointer l"
    using halt_keeps_inv [OF e(2), unfolded s th, of l2 g status] ne assms(5) e(3)
    by (auto simp: Suc_le_eq)
  then show ?thesis using e(1) by (auto simp: pop_push)
qed

lemma execute_pushes_witness:
  "\<exists>q st' frame. execute system_locals 0x500000 (system_state 1) = Inr (st', To_user frame) \<and> q \<notin> {1, 4, 2} \<and>
    proc_inv (push_process 1 q system_threads) (enter_kernel 40 st')"
  using system_can_execute execute_pushes [of system_threads system_locals "system_state 1" "0x500000" _ 40]
  by (auto simp: secondaries_def all_procs_def system_threads_def system_fields)

lemma execute_loads_witness:
  "\<exists>q st' frame. execute system_locals 0x500000 (system_state 1) = Inr (st', To_user frame) \<and>
    args (pcbs st' (pcb_at q)) 0 = 102 \<and> pname (pcbs st' (pcb_at q)) = [99, 97, 116]"
proof -
  obtain d where "can_execute system_threads system_locals (bytes (vmem (system_state 1)) 0x500000 128) d (system_state 1)"
    using system_can_execute by blast
  from execute_loads [OF this] show ?thesis
    by (auto simp: secondaries_def all_procs_def system_threads_def system_vmem system_command Let_def)
qed

lemma halt_pops_witness:
  "\<exists>st'. halt system_locals 0 258 (system_state 1) = Inr (st', Sys_return 2) \<and>
    proc_inv (pop_process 1 system_threads) st' \<and> ebp st' = 0x7FDE00"
  using halt_pops [OF system_proc_inv, of system_locals 0 258]
  by (auto simp: system_threads_def system_fields pcb_at_numerals system_pcbs system_pcb_def on_stack_of_def)

lemma execute_then_halt_witness:
  "\<exists>st1 frame st2. execute system_locals 0x500000 (system_state 1) = Inr (st1, To_user frame) \<and>
    halt system_locals 0 7 (enter_kernel 40 st1) = Inr (st2, Sys_return 7) \<and> ebp st2 = 0x7F7EC0"
proof -
  obtain d where "can_execute system_threads system_locals (bytes (vmem (system_state 1)) 0x500000 128) d (system_state 1)"
    using system_can_execute by blast
  from execute_then_halt [OF this, of 40 system_locals 0 7] show ?thesis
    by (auto simp: secondaries_def all_procs_def system_threads_def system_fields on_stack_of_def
        pcb_at_numerals system_locals_def)
qed

end
