(* ===== verification/DescriptorProps.thy ===== *)
theory DescriptorProps imports ProcessProps begin

text \<open>
  The descriptors of a process and the system calls on them: an invariant under which no call goes
  through a null pointer, what \<^verbatim>\<open>open\<close> and \<open>close\<close> do to the table, the argument string, and the
  video memory of a user program.
\<close>

section \<open>The descriptor table\<close>

text \<open>Descriptors 0 and 1 are the terminal; the others are closed or have a driver's full table.\<close>

definition fds_ok :: "pcb \<Rightarrow> bool" where
  "fds_ok p \<longleftrightarrow>
     operations_table (files p 0) = operations_table stdin_fd \<and> fd_flags (files p 0) = 1 \<and>
     operations_table (files p 1) = operations_table stdout_fd \<and> fd_flags (files p 1) = 1 \<and>
     list_all (\<lambda>i. fd_flags (files p i) = 0 \<or> operations_table (files p i) \<in>
       {rtc_operations_table, dir_operations_table, file_operations_table}) [2..<8]"

lemma fd_cases: "i < 8 \<Longrightarrow> i = 0 \<or> i = 1 \<or> i \<in> set [2..<8]"
  by auto

lemma fds_ok_ops:
  assumes "fds_ok p" "i < 8" "fd_flags (files p i) \<noteq> 0"
  shows "i \<noteq> 1 \<Longrightarrow> read_op (operations_table (files p i)) \<noteq> None"
    "i \<noteq> 0 \<Longrightarrow> write_op (operations_table (files p i)) \<noteq> None"
    "close_op (operations_table (files p i)) \<noteq> None"
proof -
  have "operations_table (files p i) \<in> {rtc_operations_table, dir_operations_table, file_operations_table}"
    if "i \<noteq> 0" "i \<noteq> 1"
    using assms that fd_cases [OF assms(2)] unfolding fds_ok_def list_all_iff by blast
  then have full: "\<exists>d. operations_table (files p i) =
      \<lparr>read_op = Some d, write_op = Some d, open_op = Some d, close_op = Some d\<rparr>" if "i \<noteq> 0" "i \<noteq> 1"
    using that by (auto simp: rtc_operations_table_def dir_operations_table_def file_operations_table_def)
  have t: "operations_table (files p 0) = operations_table stdin_fd"
    "operations_table (files p 1) = operations_table stdout_fd"
    using assms(1) by (simp_all only: fds_ok_def)
  consider "i = 0" | "i = 1" | d where "i \<noteq> 0" "i \<noteq> 1" "operations_table (files p i) =
      \<lparr>read_op = Some d, write_op = Some d, open_op = Some d, close_op = Some d\<rparr>"
    using full by blast
  then have "(i \<noteq> 1 \<longrightarrow> read_op (operations_table (files p i)) \<noteq> None) \<and>
      (i \<noteq> 0 \<longrightarrow> write_op (operations_table (files p i)) \<noteq> None) \<and> close_op (operations_table (files p i)) \<noteq> None"
    by cases (use t in \<open>simp_all add: stdin_fd_def stdout_fd_def\<close>)
  then show "i \<noteq> 1 \<Longrightarrow> read_op (operations_table (files p i)) \<noteq> None"
    "i \<noteq> 0 \<Longrightarrow> write_op (operations_table (files p i)) \<noteq> None"
    "close_op (operations_table (files p i)) \<noteq> None" by blast+
qed

text \<open>No driver calls through a null pointer itself.\<close>

lemma dir_read_loop_null: "dir_read_loop ds buf n i m \<noteq> Inl NullCall"
proof (induction ds buf n i m rule: dir_read_loop.induct)
  case (1 ds buf n i m)
  then show ?case by (subst dir_read_loop.simps) (auto simp del: fun_upd_apply split: if_splits)
qed

lemma putc_null: "putc c k st \<noteq> Inl NullCall"
  by (auto simp: putc_def cur_process_local_def andthen_eq_Inl of_loop_def split: option.splits)

lemma terminal_write_loop_null: "terminal_write_loop b n i st \<noteq> Inl NullCall"
proof (induction b n i st rule: terminal_write_loop.induct)
  case (1 b n i st)
  then show ?case
    using putc_null by (subst terminal_write_loop.simps) (auto simp: andthen_eq_Inl)
qed

lemma drivers_null:
  "d \<noteq> None \<Longrightarrow> call_read wait d fd buf n st \<noteq> Inl NullCall"
  "d \<noteq> None \<Longrightarrow> call_write d fd buf n st \<noteq> Inl NullCall" "d \<noteq> None \<Longrightarrow> call_close d fd \<noteq> Inl NullCall"
  by (auto simp: dir_read_loop_null terminal_write_loop_null call_read_def call_write_def call_close_def rtc_read_def dir_read_def terminal_read_def
      terminal_write_def Let_def andthen_eq_Inl split: driver.splits option.splits prod.splits if_splits)

lemma call_close_0: "d \<noteq> None \<Longrightarrow> call_close d fd = Inr 0"
  by (auto simp: call_close_def rtc_close_def dir_close_def file_close_def terminal_close_def split: driver.splits)

section \<open>\<^verbatim>\<open>open\<close> and \<open>close\<close>\<close>

definition ops_of_type :: "u32 \<Rightarrow> file_ops option" where
  "ops_of_type ty = (if ty = 0 then Some rtc_operations_table else if ty = 1 then Some dir_operations_table
     else if ty = 2 then Some file_operations_table else None)"

definition free_fd :: "pcb \<Rightarrow> nat option" where
  "free_fd p = find (\<lambda>i. fd_flags (files p i) = 0) [2..<8]"

definition opened :: "dir_entry \<Rightarrow> file_ops \<Rightarrow> file_desc \<Rightarrow> file_desc" where
  "opened d ops f = f\<lparr>operations_table := ops, inode := (if file_type d = 2 then inode_num d else inode f),
     file_position := 0, fd_flags := 1\<rparr>"

lemma set_fd_simps [simp]:
  "current_pcb_addr (set_fd i f st) = current_pcb_addr st" "ebp (set_fd i f st) = ebp st"
  "current_pcb (set_fd i f st) = (current_pcb st)\<lparr>files := (files (current_pcb st))(i := f (files (current_pcb st) i))\<rparr>"
  "pcbs (set_fd i f st) = (pcbs st)(current_pcb_addr st := (current_pcb st)\<lparr>files :=
     (files (current_pcb st))(i := f (files (current_pcb st) i))\<rparr>)"
  by (simp_all add: set_fd_def current_pcb_def update_pcb_def)

lemma rtc_open_frames [simp]:
  "pcbs (fst (rtc_open prev st)) = pcbs st" "ebp (fst (rtc_open prev st)) = ebp st"
  by (simp_all add: rtc_open_def Let_def)

lemma pcb_files_update: "p\<lparr>files := f, files := g\<rparr> = p\<lparr>files := g\<rparr>"
  by simp

lemma file_desc_updates:
  "file_type d = 2 \<Longrightarrow> f\<lparr>operations_table := t, inode := inode_num d, file_position := 0, fd_flags := 1\<rparr> = opened d t f"
  "file_type d \<noteq> 2 \<Longrightarrow> f\<lparr>operations_table := t, file_position := 0, fd_flags := 1\<rparr> = opened d t f"
  by (cases f; simp add: opened_def)+

lemmas open_sys_free = open_sys_def [folded free_fd_def]

lemma ebp_set_fd [simp]: "ebp (set_fd i f st) = ebp st"
  by (simp add: set_fd_def)

lemma ebp_rtc_open: "ebp (fst (rtc_open prev st)) = ebp st"
  by (simp add: rtc_open_def outb_def cli_def sti_def Let_def)

lemma open_sys_ebp:
  assumes "open_sys prev filename st = Inr (st', r)"
  shows "ebp st' = ebp st"
proof -
  obtain s v where s: "sys_return v s = Inr (st', r)" "ebp s = ebp st"
    using assms unfolding open_sys_def Let_def
    by (cases "read_dentry_by_name (vmem st) (g_boot_block st) filename")
      (auto split: option.splits if_splits simp: ebp_rtc_open)
  then show ?thesis by (auto simp: sys_return_def)
qed

lemma open_result:
  assumes "cstring (vmem st) filename w" "w \<noteq> []" "length w \<le> 32" "filename \<noteq> 0"
  obtains st' r where "open_sys prev filename st = Inr (st', Sys_return r)" "esp st' = ebp st"
    "case (free_fd (current_pcb st), lookup_name (vmem st) (g_boot_block st) w) of
       (Some i, Some d) \<Rightarrow>
         (case ops_of_type (file_type d) of
            Some t \<Rightarrow> r = int i \<and> pcbs st' = (pcbs st)(current_pcb_addr st := (current_pcb st)\<lparr>files :=
              (files (current_pcb st))(i := opened d t (files (current_pcb st) i))\<rparr>)
          | None \<Rightarrow> r = - 1 \<and> pcbs st' = pcbs st)
     | _ \<Rightarrow> r = - 1 \<and> pcbs st' = pcbs st"
proof -
  obtain f where f: "read_dentry_by_name (vmem st) (g_boot_block st) filename =
      Inr (map_option (\<lambda>d. (f d, d)) (lookup_name (vmem st) (g_boot_block st) w))"
    using lookup_read_dentry [OF assms] by blast
  have cur: "pcbs s (current_pcb_addr s) = current_pcb s" for s :: "'a kernel_scheme" by (simp add: current_pcb_def)
  show ?thesis
  proof (cases "free_fd (current_pcb st)")
    case None
    then show ?thesis using that [of "st\<lparr>esp := ebp st\<rparr>" "- 1"]
      by (simp add: open_sys_free sys_return_def)
  next
    case (Some i)
    note i = Some
    show ?thesis
    proof (cases "lookup_name (vmem st) (g_boot_block st) w")
      case None
      then show ?thesis using that [of "st\<lparr>esp := ebp st\<rparr>" "- 1"] Some
        by (simp add: open_sys_free i f sys_return_def)
    next
      case d: (Some d)
      have open_eq: "open_sys prev filename st = Inr (s, Sys_return r) \<Longrightarrow> esp s = ebp st \<Longrightarrow>
          (case ops_of_type (file_type d) of
            Some t \<Rightarrow> r = int i \<and> pcbs s = (pcbs st)(current_pcb_addr st := (current_pcb st)\<lparr>files :=
              (files (current_pcb st))(i := opened d t (files (current_pcb st) i))\<rparr>)
          | None \<Rightarrow> r = - 1 \<and> pcbs s = pcbs st) \<Longrightarrow> thesis" for s r
        using that [of s r] Some d by simp
      consider "file_type d = 0" | "file_type d = 1" | "file_type d = 2"
        | "file_type d \<noteq> 0" "file_type d \<noteq> 1" "file_type d \<noteq> 2" by blast
      then show ?thesis
      proof cases
        case 4
        then show ?thesis
          by (intro open_eq [of "st\<lparr>esp := ebp st\<rparr>" "- 1"]) (simp_all add: open_sys_free i f d sys_return_def ops_of_type_def)
      next
        case 1
        show ?thesis
          by (rule open_eq, simp add: open_sys_free i f d sys_return_def ops_of_type_def Let_def 1 cur
              file_desc_updates(2) [of d], simp_all add: open_sys_free i f d sys_return_def ops_of_type_def Let_def 1 cur
              file_desc_updates(2) [of d])
      next
        case 2
        show ?thesis
          by (rule open_eq, simp add: open_sys_free i f d sys_return_def ops_of_type_def Let_def 2 cur
              file_desc_updates(2) [of d], simp_all add: open_sys_free i f d sys_return_def ops_of_type_def Let_def 2 cur
              file_desc_updates(2) [of d])
      next
        case 3
        show ?thesis
          by (rule open_eq, simp add: open_sys_free i f d sys_return_def ops_of_type_def Let_def 3 cur
              file_desc_updates(1) [of d], simp_all add: open_sys_free i f d sys_return_def ops_of_type_def Let_def 3 cur
              file_desc_updates(1) [of d])
      qed
    qed
  qed
qed

lemma free_fd_facts: "free_fd p = Some i \<Longrightarrow> 2 \<le> i \<and> i < 8 \<and> fd_flags (files p i) = 0"
  unfolding free_fd_def by (drule find_Some_in) auto

lemma find_upt_least: "find P [a..<b] = Some i \<Longrightarrow> a \<le> j \<Longrightarrow> j < i \<Longrightarrow> \<not> P j"
proof (induction "b - a" arbitrary: a)
  case 0
  then show ?case by simp
next
  case (Suc n)
  then have ab: "a < b" by simp
  then have f: "(if P a then Some a else find P [Suc a..<b]) = Some i" using Suc.prems(1) by (simp add: upt_conv_Cons)
  show ?case
  proof (cases "P a")
    case True
    then show ?thesis using f Suc.prems by simp
  next
    case False
    then show ?thesis using Suc.hyps(1) [of "Suc a"] Suc.hyps(2) f Suc.prems ab by (cases "j = a") simp_all
  qed
qed

text \<open>What any successful or failing \<^verbatim>\<open>open\<close> can do to the table.\<close>

lemma open_shape:
  assumes "open_sys prev filename st = Inr (st', out)"
  shows "pcbs st' = pcbs st \<or> (\<exists>i t k. free_fd (current_pcb st) = Some i \<and>
    t \<in> {rtc_operations_table, dir_operations_table, file_operations_table} \<and>
    pcbs st' = (pcbs st)(current_pcb_addr st := (current_pcb st)\<lparr>files := (files (current_pcb st))(i :=
      (files (current_pcb st) i)\<lparr>operations_table := t, inode := k, file_position := 0, fd_flags := 1\<rparr>)\<rparr>))"
proof -
  have cur: "pcbs s (current_pcb_addr s) = current_pcb s" for s :: "'a kernel_scheme" by (simp add: current_pcb_def)
  have ino: "(f :: file_desc)\<lparr>operations_table := t, inode := inode f, file_position := 0, fd_flags := 1\<rparr> =
      f\<lparr>operations_table := t, file_position := 0, fd_flags := 1\<rparr>" for f t
    by (cases f) simp
  show ?thesis
  proof (cases "free_fd (current_pcb st)")
    case None
    then show ?thesis using assms by (auto simp: open_sys_free sys_return_def)
  next
    case (Some i)
    obtain r where r: "read_dentry_by_name (vmem st) (g_boot_block st) filename = Inr r"
      using assms Some by (cases "read_dentry_by_name (vmem st) (g_boot_block st) filename") (simp_all add: open_sys_free)
    show ?thesis
    proof (cases r)
      case None
      then show ?thesis using assms Some r by (auto simp: open_sys_free sys_return_def)
    next
      case (Some kd)
      obtain k d where kd: "kd = (k, d)" by (cases kd)
      note eq = assms [unfolded open_sys_free \<open>free_fd (current_pcb st) = _\<close> option.case r andthen_Inr Some kd prod.case]
      consider "file_type d = 0" | "file_type d = 1" | "file_type d = 2"
        | "file_type d \<noteq> 0" "file_type d \<noteq> 1" "file_type d \<noteq> 2" by blast
      then show ?thesis
      proof cases
        case 1
        have "pcbs st' = (pcbs st)(current_pcb_addr st := (current_pcb st)\<lparr>files := (files (current_pcb st))(i :=
            (files (current_pcb st) i)\<lparr>operations_table := rtc_operations_table, inode := inode (files (current_pcb st) i),
              file_position := 0, fd_flags := 1\<rparr>)\<rparr>)"
          using eq 1 unfolding ino by (auto simp: sys_return_def Let_def cur)
        then show ?thesis using \<open>free_fd (current_pcb st) = _\<close> by blast
      next
        case 2
        have "pcbs st' = (pcbs st)(current_pcb_addr st := (current_pcb st)\<lparr>files := (files (current_pcb st))(i :=
            (files (current_pcb st) i)\<lparr>operations_table := dir_operations_table, inode := inode (files (current_pcb st) i),
              file_position := 0, fd_flags := 1\<rparr>)\<rparr>)"
          using eq 2 unfolding ino by (auto simp: sys_return_def Let_def cur)
        then show ?thesis using \<open>free_fd (current_pcb st) = _\<close> by blast
      next
        case 3
        have "pcbs st' = (pcbs st)(current_pcb_addr st := (current_pcb st)\<lparr>files := (files (current_pcb st))(i :=
            (files (current_pcb st) i)\<lparr>operations_table := file_operations_table, inode := inode_num d,
              file_position := 0, fd_flags := 1\<rparr>)\<rparr>)"
          using eq 3 by (auto simp: sys_return_def Let_def cur)
        then show ?thesis using \<open>free_fd (current_pcb st) = _\<close> by blast
      next
        case 4
        then show ?thesis using eq by (auto simp: sys_return_def)
      qed
    qed
  qed
qed

lemma fds_ok_update:
  assumes "fds_ok p" "2 \<le> i" "fd_flags f = 0 \<or> operations_table f \<in>
      {rtc_operations_table, dir_operations_table, file_operations_table}"
  shows "fds_ok (p\<lparr>files := (files p)(i := f)\<rparr>)"
  using assms by (auto simp: fds_ok_def list_all_iff)

lemma close_open:
  assumes "fds_ok (current_pcb st)" "2 \<le> i" "i < 8" "fd_flags (files (current_pcb st) i) \<noteq> 0"
  shows "close (int i) st = sys_return 0 (set_fd i (\<lambda>f. f\<lparr>fd_flags := 0\<rparr>) st)"
  using fds_ok_ops(3) [OF assms(1,3,4)] assms(2-4)
  by (simp add: close_def call_close_0 Let_def)

section \<open>Arguments\<close>

lemma getargs_loop_copies:
  "i \<le> n \<Longrightarrow> (\<forall>j < length xs. arg (i + j) = xs ! j \<and> xs ! j \<noteq> 0) \<Longrightarrow> arg (i + length xs) = 0 \<Longrightarrow>
    getargs_loop arg buf n i m = write_bytes m (buf + of_nat i) (take (n - i) (xs @ [0]))"
proof (induction xs arbitrary: i m)
  case Nil
  then show ?case by (cases "i < n"; subst getargs_loop.simps) (simp_all add: Suc_diff_Suc [symmetric])
next
  case (Cons x xs)
  have x: "arg i = x" "x \<noteq> 0" using Cons.prems(2) by force+
  have rest: "\<forall>j < length xs. arg (Suc i + j) = xs ! j \<and> xs ! j \<noteq> 0"
    using Cons.prems(2) by force
  show ?case
  proof (cases "i < n")
    case True
    then have n: "n - i = Suc (n - Suc i)" by simp
    have "getargs_loop arg buf n (Suc i) (m(buf + of_nat i := x)) =
        write_bytes (m(buf + of_nat i := x)) (buf + of_nat (Suc i)) (take (n - Suc i) (xs @ [0]))"
      using True rest Cons.prems(3) by (intro Cons.IH) simp_all
    then show ?thesis using True x unfolding n by (subst getargs_loop.simps) (simp add: algebra_simps)
  next
    case False
    then show ?thesis using Cons.prems(1) by (subst getargs_loop.simps) simp
  qed
qed

lemma getargs_string:
  assumes "buf \<noteq> 0" "0 \<le> n" "n \<le> 1024" "xs \<noteq> []"
    and "\<And>j. j < length xs \<Longrightarrow> args (current_pcb st) j = xs ! j \<and> xs ! j \<noteq> 0" "args (current_pcb st) (length xs) = 0"
  shows "getargs buf n st = sys_return 0 (set_vmem (write_bytes (vmem st) buf (take (nat n) (xs @ [0]))) st)"
proof -
  have "args (current_pcb st) 0 \<noteq> 0" using assms(4,5) by fastforce
  then show ?thesis
    using assms getargs_loop_copies [of 0 "nat n" xs "args (current_pcb st)" buf "vmem st"]
    by (simp add: getargs_def)
qed

section \<open>User video memory\<close>

lemma table_frame: "a < 0x80000000 \<Longrightarrow> of_int (sint (a :: u32) sdiv 4096) = drop_bit 12 a"
proof -
  assume "a < 0x80000000"
  then have u: "unat a < 2147483648" by (simp add: word_less_nat_alt)
  have p: "(2 :: int) ^ 31 = 2147483648" by simp
  have "- (2 ^ 31) \<le> int (unat a)" "int (unat a) < 2 ^ 31" using u unfolding p by linarith+
  then have "signed_take_bit 31 (int (unat a)) = int (unat a)" by (rule signed_take_bit_int_eq_self)
  then have i: "sint a = int (unat a)" by (simp add: sint_uint)
  have "int n sdiv 4096 = int (n div 4096)" for n :: nat
    by (cases n) (simp_all add: signed_divide_int_def zdiv_int)
  then have "sint a sdiv 4096 = int (unat a div 4096)" unfolding i .
  then have "of_int (sint a sdiv 4096) = (of_nat (unat a div 4096) :: u32)" by simp
  moreover have "unat a div 4096 < 4294967296" using u by linarith
  then have "(of_nat (unat a div 4096) :: u32) = drop_bit 12 a" by (simp add: word_unat_eq_iff unat_drop_bit_u32)
  ultimately show ?thesis by simp
qed

lemma user_entry_bits: "bit (user_vidmem_entry g n) 0" "bit (user_vidmem_entry g n) 1" "bit (user_vidmem_entry g n) 2"
  "drop_bit 12 (user_vidmem_entry g n) = take_bit 20 n"
  unfolding user_vidmem_entry_def Let_def
  by (simp_all add: bitfield_simps) (rule bit_word_eqI, auto simp: bitfield_simps bit_simps)

definition vidmem_dir_entry :: "u32 \<Rightarrow> u32 \<Rightarrow> u32" where
  "vidmem_dir_entry g a = put_bits 12 20 a (put_bits 1 1 1 (put_bits 2 1 1 (put_bits 0 1 1 g)))"

lemma dir_entry_bits: "bit (vidmem_dir_entry g a) 0" "bit (vidmem_dir_entry g a) 1" "bit (vidmem_dir_entry g a) 2"
  "bit (vidmem_dir_entry g a) 7 \<longleftrightarrow> bit g 7" "drop_bit 12 (vidmem_dir_entry g a) = take_bit 20 a"
  unfolding vidmem_dir_entry_def
  by (simp_all add: bitfield_simps) (rule bit_word_eqI, auto simp: bitfield_simps bit_simps)

lemma walk_user_video:
  assumes "pdt st 34 = vidmem_dir_entry g (drop_bit 12 (at_pt_vidmap st))" "\<not> bit g 7"
    and "pt_vidmap st 0 = user_vidmem_entry v n" "take_bit 12 (at_pt_vidmap st) = 0"
    and "at_pt_vidmap st \<noteq> at_pt0 st" "drop_bit 12 va = 0x8800" "take_bit 20 n = n"
  shows "page_walk st va = Some \<lparr>frame_addr = push_bit 12 n OR take_bit 12 va, user_ok = True, write_ok = True\<rparr>"
proof -
  have "drop_bit 22 va = drop_bit 10 (drop_bit 12 va)" by simp
  then have d: "unat (drop_bit 22 va) = 34" unfolding assms(6) by simp
  have i: "unat (take_bit 10 (drop_bit 12 va)) = 0" unfolding assms(6) by simp
  have "take_bit 20 (drop_bit 12 (at_pt_vidmap st)) = drop_bit 12 (at_pt_vidmap st)"
    by (rule bit_word_eqI) (auto simp: bit_simps dest: bit_imp_le_length)
  moreover have "push_bit 12 (drop_bit 12 (at_pt_vidmap st)) = at_pt_vidmap st"
    using assms(4) by (metis bits_ident add.right_neutral)
  ultimately have t: "table_at st (drop_bit 12 (pdt st 34)) = Some (pt_vidmap st)"
    using assms(5) unfolding assms(1) by (simp add: table_at_def dir_entry_bits)
  show ?thesis
    unfolding page_walk_def Let_def d t i using assms(1-3,7)
    by (simp add: dir_entry_bits user_entry_bits del: One_nat_def)
qed

lemma proc_inv_base:
  assumes "proc_inv threads st"
  shows "get_base_process_pcb (pcbs st) (current_pcb_addr st) = Some (pcb_at (cur_process st))"
    "process_id (pcbs st (pcb_at (cur_process st))) = cur_process st"
proof -
  let ?T = "threads (cur_process st)"
  note inv = proc_inv_parts [OF assms]
  note tc = threads_ok_booted [OF inv(1,3)]
  have c: "chain (pcbs st) ?T" and h: "hd ?T = cur_process st" using tc by simp_all
  have "length ?T - 1 < length ?T" "?T ! (length ?T - 1) = last ?T" using inv(10) by (simp_all add: last_conv_nth)
  with get_base_chain [OF c this(1)]
  show "get_base_process_pcb (pcbs st) (current_pcb_addr st) = Some (pcb_at (cur_process st))"
    unfolding inv(8) by (simp add: h)
  have "0 < length ?T" "?T ! 0 = cur_process st" using inv(10) h by (simp_all add: hd_conv_nth)
  then show "process_id (pcbs st (pcb_at (cur_process st))) = cur_process st"
    using c unfolding chain_def by metis
qed

lemma vidmap_ok:
  assumes "proc_inv threads st" "0x8000000 \<le> screen_start" "screen_start \<le> 0x8400000"
    and "\<not> bit vidmem 7" "at_pt_vidmap st < 0x80000000" "take_bit 12 (at_pt_vidmap st) = 0"
    and "at_pt_vidmap st \<noteq> at_pt0 st"
  obtains st' where "vidmap vidmem vidmem_pt screen_start st = Inr (st', Sys_return 0)"
    "read32 (vmem st') screen_start = 0x8800000" "tlb_fresh st'"
    "\<And>va. drop_bit 12 va = 0x8800 \<Longrightarrow> page_walk st' va = Some \<lparr>frame_addr =
       page_base (cur_terminal st = cur_process st) (cur_process st) OR take_bit 12 va, user_ok = True, write_ok = True\<rparr>"
proof -
  let ?t = "cur_process st"
  let ?n = "if cur_terminal st = ?t then 0xB8000 div 4096 else 0xB8000 div 4096 + of_int ?t :: u32"
  note b = proc_inv_base [OF assms(1)]
  have t: "?t = 1 \<or> ?t = 2 \<or> ?t = 3" using assms(1) booted_cases by (auto simp: proc_inv_def)
  define s1 where "s1 = flush_tlb (write_pt_vidmap 0 (user_vidmem_entry vidmem_pt ?n)
    (write_pdt 34 (vidmem_dir_entry vidmem (drop_bit 12 (at_pt_vidmap st))) st))"
  define st' where "st' = (set_vmem (write32 (vmem s1) screen_start 0x8800000) s1)\<lparr>esp := ebp st\<rparr>"
  have "screen_start \<noteq> 0" using assms(2) by auto
  then have "vidmap vidmem vidmem_pt screen_start st = Inr (st', Sys_return 0)"
    using assms(2,3) b
    by (simp add: vidmap_def Let_def table_frame [OF assms(5)] sys_return_def st'_def s1_def vidmem_dir_entry_def
        flush_tlb_def write_pt_vidmap_def write_pdt_def not_less)
  moreover have v: "vmem (s\<lparr>esp := x\<rparr>) = vmem s" for s :: "'a kernel_scheme" and x
    by (simp add: vmem_def remap_def user_mapped_def fun_eq_iff)
  then have "read32 (vmem st') screen_start = 0x8800000" by (simp add: st'_def read32_write32)
  moreover have "tlb_fresh st'" by (simp add: st'_def s1_def)
  moreover have "page_walk st' va = Some \<lparr>frame_addr = page_base (cur_terminal st = ?t) ?t OR take_bit 12 va,
      user_ok = True, write_ok = True\<rparr>" if "drop_bit 12 va = 0x8800" for va
  proof -
    have "take_bit 20 ?n = ?n" using t by (auto simp: take_bit_eq_mod)
    moreover have "push_bit 12 ?n = page_base (cur_terminal st = ?t) ?t"
      using t by (auto simp: page_base_def push_bit_eq_mult)
    moreover have "pdt st' 34 = vidmem_dir_entry vidmem (drop_bit 12 (at_pt_vidmap st'))"
      "pt_vidmap st' 0 = user_vidmem_entry vidmem_pt ?n" "at_pt_vidmap st' = at_pt_vidmap st" "at_pt0 st' = at_pt0 st"
      by (simp_all add: st'_def s1_def)
    ultimately show ?thesis
      using walk_user_video [of st' vidmem vidmem_pt ?n va] assms(4,6,7) that by simp
  qed
  ultimately show ?thesis by (rule that)
qed

section \<open>Properties\<close>

text \<open>C21: in a process whose descriptor table is well-formed, with the terminal on 0 and 1 and a driver's
  full table on every other open descriptor, no \<open>read\<close>, \<^verbatim>\<open>write\<close> or \<open>close\<close> with any arguments calls
  through a null function pointer.\<close>

theorem calls_not_null:
  assumes "fds_ok (current_pcb st)"
  shows "read wait fd buf n st \<noteq> Inl NullCall \<and> write_sys fd buf n st \<noteq> Inl NullCall \<and> close fd st \<noteq> Inl NullCall"
proof (intro conjI)
  let ?f = "files (current_pcb st) (nat fd)"
  note ops = fds_ok_ops [OF assms]
  have "call_read wait (read_op (operations_table ?f)) (nat fd) buf n st \<noteq> Inl NullCall"
    if "\<not> (fd < 0 \<or> 7 < fd)" "fd \<noteq> 1" "fd_flags ?f \<noteq> 0"
    by (rule drivers_null(1), rule ops(1)) (use that in auto)
  then show "read wait fd buf n st \<noteq> Inl NullCall"
    by (auto simp: read_def Let_def sys_return_def andthen_eq_Inl)
  have "call_write (write_op (operations_table ?f)) (nat fd) buf n st \<noteq> Inl NullCall"
    if "\<not> (fd < 0 \<or> 7 < fd)" "fd \<noteq> 0" "fd_flags ?f \<noteq> 0"
    by (rule drivers_null(2), rule ops(2)) (use that in auto)
  then show "write_sys fd buf n st \<noteq> Inl NullCall"
    by (auto simp: write_sys_def Let_def sys_return_def andthen_eq_Inl)
  have "close_op (operations_table ?f) \<noteq> None" if "\<not> (fd < 2 \<or> 7 < fd)" "fd_flags ?f \<noteq> 0"
    by (rule ops(3)) (use that in auto)
  then show "close fd st \<noteq> Inl NullCall"
    by (auto simp: close_def Let_def sys_return_def call_close_0)
qed

text \<open>C22: \<^verbatim>\<open>open\<close> and \<open>close\<close> keep the descriptor table of the process well-formed, whatever they are called
  with and whether they succeed or not.\<close>

theorem descriptors_kept:
  assumes "fds_ok (current_pcb st)"
  shows "(open_sys prev filename st = Inr (st1, out1) \<longrightarrow> fds_ok (pcbs st1 (current_pcb_addr st))) \<and>
    (close fd st = Inr (st2, out2) \<longrightarrow> fds_ok (pcbs st2 (current_pcb_addr st)))"
proof (intro conjI impI)
  have same: "pcbs st (current_pcb_addr st) = current_pcb st" by (simp add: current_pcb_def)
  assume "open_sys prev filename st = Inr (st1, out1)"
  from open_shape [OF this] show "fds_ok (pcbs st1 (current_pcb_addr st))"
  proof (elim disjE exE conjE)
    assume "pcbs st1 = pcbs st"
    then show ?thesis using assms same by simp
  next
    fix i t k
    assume i: "free_fd (current_pcb st) = Some i"
      and t: "t \<in> {rtc_operations_table, dir_operations_table, file_operations_table}"
      and st1: "pcbs st1 = (pcbs st)(current_pcb_addr st := (current_pcb st)\<lparr>files := (files (current_pcb st))(i :=
        (files (current_pcb st) i)\<lparr>operations_table := t, inode := k, file_position := 0, fd_flags := 1\<rparr>)\<rparr>)"
    show ?thesis
      unfolding st1 fun_upd_same using free_fd_facts [OF i] t by (intro fds_ok_update [OF assms]) auto
  qed
next
  have same: "pcbs st (current_pcb_addr st) = current_pcb st" by (simp add: current_pcb_def)
  assume c: "close fd st = Inr (st2, out2)"
  show "fds_ok (pcbs st2 (current_pcb_addr st))"
  proof (cases "fd < 2 \<or> 7 < fd \<or> fd_flags (files (current_pcb st) (nat fd)) = 0")
    case True
    then have "close fd st = sys_return (- 1) st" by (auto simp: close_def)
    then show ?thesis using c assms same by (auto simp: sys_return_def)
  next
    case False
    then have "close (int (nat fd)) st = sys_return 0 (set_fd (nat fd) (\<lambda>f. f\<lparr>fd_flags := 0\<rparr>) st)"
      by (intro close_open [OF assms]) auto
    then show ?thesis
      using c False assms by (auto simp: sys_return_def intro!: fds_ok_update)
  qed
qed

text \<open>C13: \<^verbatim>\<open>open\<close> of a name of 1 to 32 characters returns the lowest free descriptor from 2 to 7 and sets it
  up for the entry the directory has under that name: its driver by the type of the entry, its inode for a
  regular file, at position 0; no other descriptor changes.  Without a free descriptor, an entry of the
  name or a known type it returns -1 and changes no control block.\<close>

theorem open_lowest:
  assumes "cstring (vmem st) filename w" "w \<noteq> []" "length w \<le> 32" "filename \<noteq> 0"
  shows "\<exists>st' r. open_sys prev filename st = Inr (st', Sys_return r) \<and>
    (case (free_fd (current_pcb st), lookup_name (vmem st) (g_boot_block st) w) of
       (Some i, Some d) \<Rightarrow>
         (case ops_of_type (file_type d) of
            Some t \<Rightarrow> r = int i \<and> 2 \<le> i \<and> i < 8 \<and> list_all (\<lambda>j. fd_flags (files (current_pcb st) j) \<noteq> 0) [2..<i] \<and>
              pcbs st' = (pcbs st)(current_pcb_addr st := (current_pcb st)\<lparr>files :=
                (files (current_pcb st))(i := opened d t (files (current_pcb st) i))\<rparr>)
          | None \<Rightarrow> r = - 1 \<and> pcbs st' = pcbs st)
     | _ \<Rightarrow> r = - 1 \<and> pcbs st' = pcbs st)"
proof -
  obtain st' r where r: "open_sys prev filename st = Inr (st', Sys_return r)" "esp st' = ebp st"
    "case (free_fd (current_pcb st), lookup_name (vmem st) (g_boot_block st) w) of
       (Some i, Some d) \<Rightarrow>
         (case ops_of_type (file_type d) of
            Some t \<Rightarrow> r = int i \<and> pcbs st' = (pcbs st)(current_pcb_addr st := (current_pcb st)\<lparr>files :=
              (files (current_pcb st))(i := opened d t (files (current_pcb st) i))\<rparr>)
          | None \<Rightarrow> r = - 1 \<and> pcbs st' = pcbs st)
     | _ \<Rightarrow> r = - 1 \<and> pcbs st' = pcbs st"
    by (rule open_result [OF assms, of prev])
  have least: "list_all (\<lambda>j. fd_flags (files (current_pcb st) j) \<noteq> 0) [2..<i]"
    if "free_fd (current_pcb st) = Some i" for i
    using find_upt_least [OF that [unfolded free_fd_def]] by (auto simp: list_all_iff)
  show ?thesis
  proof (cases "free_fd (current_pcb st)")
    case None
    then show ?thesis using r by auto
  next
    case (Some i)
    note i = free_fd_facts [OF Some] least [OF Some]
    show ?thesis
    proof (cases "lookup_name (vmem st) (g_boot_block st) w")
      case None
      show ?thesis
        by (intro exI [of _ st'] exI [of _ r] conjI r(1)) (use r(3) Some None in simp)
    next
      case d: (Some d)
      show ?thesis
        by (intro exI [of _ st'] exI [of _ r] conjI r(1))
          (use r(3) Some d i in \<open>cases "ops_of_type (file_type d)"; simp\<close>)
    qed
  qed
qed

text \<open>C30: closing what \<^verbatim>\<open>open\<close> returned succeeds and leaves the same descriptors free as before the \<^verbatim>\<open>open\<close>,
  so the next \<^verbatim>\<open>open\<close> can return it again; closing it a second time returns -1 and changes nothing but the
  stack pointer, at once as well as in any later state with the same control block.\<close>

theorem open_then_close:
  fixes st :: "'a kernel_scheme"
  assumes "fds_ok (current_pcb st)" "cstring (vmem st) filename w" "w \<noteq> []" "length w \<le> 32" "filename \<noteq> 0"
    and "current_pcb_addr (st\<lparr>esp := ebp st\<rparr>) = current_pcb_addr st"
    and "open_sys prev filename st = Inr (st1, Sys_return r)" "r \<noteq> - 1"
  shows "\<exists>st2. close r st1 = Inr (st2, Sys_return 0) \<and> close r st2 = Inr (st2, Sys_return (- 1)) \<and>
    (\<forall>s :: 'a kernel_scheme. current_pcb s = current_pcb st2 \<longrightarrow> close r s = Inr (s\<lparr>esp := ebp s\<rparr>, Sys_return (- 1))) \<and> free_fd (pcbs st2 (current_pcb_addr st)) = Some (nat r) \<and>
    list_all (\<lambda>j. fd_flags (files (pcbs st2 (current_pcb_addr st)) j) = fd_flags (files (current_pcb st) j)) [0..<8]"
proof -
  obtain st' r' where r': "open_sys prev filename st = Inr (st', Sys_return r')" "esp st' = ebp st"
    "case (free_fd (current_pcb st), lookup_name (vmem st) (g_boot_block st) w) of
       (Some i, Some d) \<Rightarrow>
         (case ops_of_type (file_type d) of
            Some t \<Rightarrow> r' = int i \<and> pcbs st' = (pcbs st)(current_pcb_addr st := (current_pcb st)\<lparr>files :=
              (files (current_pcb st))(i := opened d t (files (current_pcb st) i))\<rparr>)
          | None \<Rightarrow> r' = - 1 \<and> pcbs st' = pcbs st)
     | _ \<Rightarrow> r' = - 1 \<and> pcbs st' = pcbs st"
    by (rule open_result [OF assms(2-5), of prev])
  have eq: "st' = st1" "r' = r" using r'(1) assms(7) by simp_all
  obtain i d t where i: "free_fd (current_pcb st) = Some i" "r = int i"
    "ops_of_type (file_type d) = Some t"
    "pcbs st1 = (pcbs st)(current_pcb_addr st := (current_pcb st)\<lparr>files :=
              (files (current_pcb st))(i := opened d t (files (current_pcb st) i))\<rparr>)"
    using r'(3) assms(8) unfolding eq
    by (cases "free_fd (current_pcb st)"; cases "lookup_name (vmem st) (g_boot_block st) w";
        cases "ops_of_type (file_type (the (lookup_name (vmem st) (g_boot_block st) w)))") simp_all
  have a: "current_pcb_addr st1 = current_pcb_addr st"
    using assms(6) r'(2) unfolding eq by (simp add: current_pcb_addr_def)
  have c: "current_pcb st1 = (current_pcb st)\<lparr>files := (files (current_pcb st))(i := opened d t (files (current_pcb st) i))\<rparr>"
    unfolding current_pcb_def [of st1] a i(4) by simp
  note fi = free_fd_facts [OF i(1)]
  have "operations_table (opened d t (files (current_pcb st) i)) \<in>
      {rtc_operations_table, dir_operations_table, file_operations_table}"
    using i(3) by (auto simp: opened_def ops_of_type_def split: if_splits)
  then have "fds_ok (current_pcb st1)" unfolding c using fi by (intro fds_ok_update [OF assms(1)]) auto
  then have cl: "close r st1 = sys_return 0 (set_fd i (\<lambda>f. f\<lparr>fd_flags := 0\<rparr>) st1)"
    unfolding i(2) using fi by (intro close_open) (simp_all add: c opened_def)
  define s2 where "s2 = (set_fd i (\<lambda>f. f\<lparr>fd_flags := 0\<rparr>) st1)\<lparr>esp := ebp st1\<rparr>"
  have s2: "close r st1 = Inr (s2, Sys_return 0)" unfolding cl by (simp add: sys_return_def s2_def)
  have fl: "fd_flags (files (pcbs s2 (current_pcb_addr st)) j) = fd_flags (files (current_pcb st) j)" for j
    using fi by (simp add: s2_def a [symmetric] c)
  have "free_fd (pcbs s2 (current_pcb_addr st)) = Some i"
    using i(1) unfolding free_fd_def fl .
  moreover have twice: "close r s = Inr (s\<lparr>esp := ebp s\<rparr>, Sys_return (- 1))" if "current_pcb s = current_pcb s2"
    for s :: "'a kernel_scheme"
  proof -
    have "current_pcb_addr s2 = current_pcb_addr st"
      using assms(6) open_sys_ebp [OF assms(7)] by (simp add: s2_def current_pcb_addr_def)
    then have "current_pcb s2 = pcbs s2 (current_pcb_addr st)" by (simp add: current_pcb_def)
    then have "fd_flags (files (current_pcb s) i) = 0" using that fl [of i] fi by simp
    then show ?thesis by (simp add: close_def i(2) sys_return_def)
  qed
  moreover have "close r s2 = Inr (s2, Sys_return (- 1))" using twice [of s2] by (simp add: s2_def)
  ultimately show ?thesis
    using s2 by (intro exI [of _ s2]) (simp add: i(2) fl list_all_iff)
qed

text \<open>C37: a descriptor outside 0 to 7, or one that is not open, makes \<open>read\<close>, \<^verbatim>\<open>write\<close> and \<open>close\<close> return -1
  and changes nothing but the stack pointer; no driver is called and no array is accessed out of range.\<close>

theorem bad_descriptor:
  assumes "fd < 0 \<or> 7 < fd \<or> fd_flags (files (current_pcb st) (nat fd)) = 0"
  shows "read wait fd buf n st = Inr (st\<lparr>esp := ebp st\<rparr>, Sys_return (- 1)) \<and>
    write_sys fd buf n st = Inr (st\<lparr>esp := ebp st\<rparr>, Sys_return (- 1)) \<and>
    close fd st = Inr (st\<lparr>esp := ebp st\<rparr>, Sys_return (- 1))"
  using assms by (auto simp: read_def write_sys_def close_def sys_return_def Let_def)

text \<open>C33: \<open>getargs\<close> stores the argument string of the process and its NUL, cut to the size given, and not a
  byte more; without arguments, or with a null buffer or a size outside 0 to 1024, it stores nothing and
  returns -1.\<close>

theorem getargs_bounded:
  assumes "list_all (\<lambda>j. args (current_pcb st) j = xs ! j \<and> xs ! j \<noteq> 0) [0..<length xs]"
    and "args (current_pcb st) (length xs) = 0"
  shows "getargs buf n st =
    (if buf = 0 \<or> n < 0 \<or> 1024 < n \<or> xs = [] then Inr (st\<lparr>esp := ebp st\<rparr>, Sys_return (- 1))
     else Inr ((set_vmem (write_bytes (vmem st) buf (take (nat n) (xs @ [0]))) st)\<lparr>esp := ebp st\<rparr>, Sys_return 0))"
proof (cases "buf = 0 \<or> n < 0 \<or> 1024 < n \<or> xs = []")
  case True
  then show ?thesis using assms(2) by (auto simp: getargs_def sys_return_def)
next
  case False
  then show ?thesis
    using getargs_string [of buf n xs st] assms by (auto simp: sys_return_def list_all_iff)
qed

text \<open>C26: the arguments make the round trip: what follows the first word of the command, less leading
  blanks, is what \<open>getargs\<close> gives the program that \<open>execute\<close> started.\<close>

theorem execute_getargs:
  assumes "can_execute threads l (bytes (vmem st) cu 128) d st" "length (secondaries threads) < 3"
    and "0 < n" "n \<le> 8192" "command_args (bytes (vmem st) cu 128) \<noteq> []" "buf \<noteq> 0"
  shows "\<exists>st1 frame st2. execute l cu st = Inr (st1, To_user frame) \<and>
    getargs buf 1024 (enter_kernel n st1) = Inr (st2, Sys_return 0) \<and>
    cstring (vmem st2) buf (command_args (bytes (vmem st) cu 128))"
proof -
  let ?xs = "command_args (bytes (vmem st) cu 128)"
  have cok: "command_ok (bytes (vmem st) cu 128)" using assms(1) by (simp add: can_execute_def can_load_def)
  note pr = command_parse(4,5) [OF cok]
  obtain q st1 frame where q: "4 \<le> q" "q \<le> 6" "execute l cu st = Inr (st1, To_user frame)"
    "pcbs st1 (pcb_at q) = new_block (pcbs st (pcb_at q)) q (pcb_at (last (threads (cur_process st))))
       (command_word (bytes (vmem st) cu 128)) ?xs"
    "process_mapped st1 q" "tss_esp0 st1 = kernel_stack_top q"
    using execute_starts [OF assms(1,2)] by (metis fun_upd_same)
  let ?s = "enter_kernel n st1"
  have "running ?s q"
    using q assms(3,4) by (intro running_enter_kernel) (simp_all add: new_block_def)
  moreover have "pcbs ?s = pcbs st1" by (simp add: enter_kernel_def)
  ultimately have "current_pcb ?s = pcbs st1 (pcb_at q)"
    by (simp add: running_def current_pcb_def)
  then have a: "args (current_pcb ?s) = new_args ?xs (args (pcbs st (pcb_at q)))" by (simp add: q(4) new_block_def)
  have "list_all (\<lambda>j. args (current_pcb ?s) j = ?xs ! j \<and> ?xs ! j \<noteq> 0) [0..<length ?xs]"
    "args (current_pcb ?s) (length ?xs) = 0"
    unfolding a using pr by (auto simp: new_args_def list_all_iff) (metis nth_mem)
  then have g: "getargs buf 1024 ?s = sys_return 0 (set_vmem (write_bytes (vmem ?s) buf (?xs @ [0])) ?s)"
    using getargs_string [of buf 1024 ?xs ?s] assms(5,6) pr(1) by (simp add: list_all_iff)
  have v: "vmem (s\<lparr>esp := x\<rparr>) = vmem s" for s :: "'a kernel_scheme" and x
    by (simp add: vmem_def remap_def user_mapped_def fun_eq_iff)
  show ?thesis
    using q(3) g pr by (auto simp: sys_return_def v intro!: cstring_write)
qed

text \<open>C25: \<open>vidmap\<close> with a pointer inside the user page maps the 4 KB at 0x8800000, for user mode and
  writable, to the page that \<open>putc\<close> prints on for this process - the screen when its terminal is displayed
  and its hidden page otherwise - and stores that address through the pointer.  The entry it fills must
  not have had its page-size bit set by chance.\<close>

theorem vidmap_maps:
  assumes "proc_inv threads st" "0x8000000 \<le> screen_start" "screen_start \<le> 0x8400000"
    and "\<not> bit vidmem 7" "at_pt_vidmap st < 0x80000000" "take_bit 12 (at_pt_vidmap st) = 0"
    and "at_pt_vidmap st \<noteq> at_pt0 st" "drop_bit 12 va = 0x8800"
  shows "\<exists>st'. vidmap vidmem vidmem_pt screen_start st = Inr (st', Sys_return 0) \<and>
    read32 (vmem st') screen_start = 0x8800000 \<and> tlb_fresh st' \<and>
    page_walk st' va = Some \<lparr>frame_addr =
      page_base (cur_terminal st = cur_process st) (cur_process st) OR take_bit 12 va, user_ok = True, write_ok = True\<rparr>"
  using vidmap_ok [OF assms(1-7), of vidmem_pt] assms(8) by metis

text \<open>\<open>vidmap\<close> rejects every pointer that is null, below 128 MB or above 132 MB: it returns -1 and
  changes neither tables nor memory.  The address 132 MB itself, the first one behind the user page, is
  not rejected.\<close>

theorem vidmap_range:
  assumes "proc_inv threads st"
  shows "vidmap vidmem vidmem_pt screen_start st = Inr (st\<lparr>esp := ebp st\<rparr>, Sys_return (- 1)) \<longleftrightarrow>
    screen_start < 0x8000000 \<or> 0x8400000 < screen_start"
proof -
  note b = proc_inv_base [OF assms]
  show ?thesis
    using b by (auto simp: vidmap_def Let_def sys_return_def not_less word_less_nat_alt split: if_splits)
qed

section \<open>Witnesses\<close>

lemma system_fds: "fds_ok (current_pcb (system_state 1))" "free_fd (current_pcb (system_state 1)) = Some 3"
  by (simp_all add: fds_ok_def free_fd_def system_current system_pcb_def stdin_fd_def stdout_fd_def upt_rec)

lemma system_rtc_name: "cstring system_image 0x500100 [114, 116, 99]"
  by (simp add: cstring_def bytes_def upt_rec system_image_def)

lemma system_rtc_entry:
  "\<exists>d. lookup_name system_image 0x400000 [114, 116, 99] = Some d \<and> file_type d = 0"
  by (simp add: lookup_name_def system_names upt_rec dentry_at_def dentry_addr_def read32_def system_image_def)

lemma system_rtc: "cstring (vmem (system_state 1)) 0x500100 [114, 116, 99]"
  "\<exists>d. lookup_name (vmem (system_state 1)) (g_boot_block (system_state 1)) [114, 116, 99] = Some d \<and> file_type d = 0"
  using system_rtc_name system_rtc_entry by (simp_all add: system_vmem system_fields)

lemma system_open:
  "\<exists>st'. open_sys 0 0x500100 (system_state 1) = Inr (st', Sys_return 3)"
proof -
  obtain d where d: "lookup_name (vmem (system_state 1)) (g_boot_block (system_state 1)) [114, 116, 99] = Some d"
    "file_type d = 0" using system_rtc(2) by blast
  show ?thesis
    by (rule open_result [OF system_rtc(1), of 0]) (use d in \<open>auto simp: system_fds ops_of_type_def\<close>)
qed

lemma calls_not_null_witness:
  "read (\<lambda>_ _. None) 2 0x600000 10 (system_state 1) \<noteq> Inl NullCall"
  using calls_not_null [OF system_fds(1), of "\<lambda>_ _. None" 2 "0x600000" 10] by (rule conjunct1)

lemma descriptors_kept_witness:
  "\<exists>st1. open_sys 0 0x500100 (system_state 1) = Inr (st1, Sys_return 3) \<and> fds_ok (pcbs st1 0x7F6000)"
proof -
  obtain st1 where "open_sys 0 0x500100 (system_state 1) = Inr (st1, Sys_return 3)" using system_open by blast
  then show ?thesis
    using descriptors_kept [OF system_fds(1), of 0 "0x500100" st1 "Sys_return 3"] by (auto simp: system_current)
qed

lemma open_lowest_witness:
  "\<exists>st'. open_sys 0 0x500100 (system_state 1) = Inr (st', Sys_return 3) \<and>
    fd_flags (files (pcbs st' 0x7F6000) 3) = 1"
proof -
  obtain d where d: "lookup_name (vmem (system_state 1)) (g_boot_block (system_state 1)) [114, 116, 99] = Some d"
    "file_type d = 0" using system_rtc(2) by blast
  show ?thesis
    using open_lowest [OF system_rtc(1), of 0, unfolded system_fds(2) d(1)] d(2)
    by (auto simp: ops_of_type_def system_current opened_def system_fields)
qed

lemma open_then_close_witness:
  "\<exists>st1 st2. open_sys 0 0x500100 (system_state 1) = Inr (st1, Sys_return 3) \<and> close 3 st1 = Inr (st2, Sys_return 0) \<and>
    close 3 st2 = Inr (st2, Sys_return (- 1))"
proof -
  obtain st1 where st1: "open_sys 0 0x500100 (system_state 1) = Inr (st1, Sys_return 3)" using system_open by blast
  have "current_pcb_addr ((system_state 1)\<lparr>esp := ebp (system_state 1)\<rparr>) = current_pcb_addr (system_state 1)"
    by (simp add: current_pcb_addr_def system_fields) (simp add: system_state_def set_vmem_def)
  then show ?thesis
    using open_then_close [OF system_fds(1) system_rtc(1) _ _ _ _ st1] st1 by auto
qed

lemma bad_descriptor_witness:
  "close 9 (system_state 1) = Inr ((system_state 1)\<lparr>esp := 0x7F7F20\<rparr>, Sys_return (- 1))"
  using bad_descriptor [of 9 "system_state 1"] by (simp add: system_fields)

lemma getargs_bounded_witness:
  "\<exists>st'. getargs 0x600000 10 (system_state 1) = Inr (st', Sys_return 0)"
  using getargs_bounded [of "system_state 1" "[102]" "0x600000" 10]
  by (simp add: system_current system_pcb_def)

lemma execute_getargs_witness:
  "\<exists>st1 frame st2. execute system_locals 0x500000 (system_state 1) = Inr (st1, To_user frame) \<and>
    getargs 0x600000 1024 (enter_kernel 40 st1) = Inr (st2, Sys_return 0) \<and> cstring (vmem st2) 0x600000 [102]"
proof -
  obtain d where "can_execute system_threads system_locals (bytes (vmem (system_state 1)) 0x500000 128) d (system_state 1)"
    using system_can_execute by blast
  from execute_getargs [OF this, of 40 "0x600000"] show ?thesis
    by (simp add: system_vmem system_command secondaries_def all_procs_def system_threads_def)
qed

lemma vidmap_maps_witness:
  "\<exists>st'. vidmap 0 0 0x8300000 (system_state 1) = Inr (st', Sys_return 0) \<and>
    page_walk st' 0x8800010 = Some \<lparr>frame_addr = 0xB8010, user_ok = True, write_ok = True\<rparr>"
proof -
  have "at_pt0 (system_state 1) = 0x411000" by (simp add: system_state_def)
  then show ?thesis
    using vidmap_maps [OF system_proc_inv, of "0x8300000" 0 "0x8800010" 0]
    by (auto simp: system_fields page_base_def take_bit_eq_mod)
qed

lemma vidmap_range_witness:
  "vidmap 0 0 0x8400001 (system_state 1) = Inr ((system_state 1)\<lparr>esp := 0x7F7F20\<rparr>, Sys_return (- 1))"
  using vidmap_range [OF system_proc_inv, of 0 0 "0x8400001"] by (simp add: system_fields)

end
