(* ===== verification/Keyboard.thy ===== *)
theory Keyboard imports Execute begin

text \<open>
  The keyboard's interrupt handler of \<^verbatim>\<open>src/src/keyboard.c\<close>: one function per block of the handler,
  in its order.  A byte of the displayed terminal's line is \<open>line_char\<close>; the index that \<^verbatim>\<open>keyboard.c\<close>
  keeps for that line is \<open>line_index\<close>.  The byte read from the keyboard's port is an argument.
\<close>

section \<open>Scan codes\<close>

abbreviation LEFT_SHIFT :: u8 where "LEFT_SHIFT \<equiv> 0x2A"
abbreviation RIGHT_SHIFT :: u8 where "RIGHT_SHIFT \<equiv> 0x36"
abbreviation LEFT_SHIFT_REL :: u8 where "LEFT_SHIFT_REL \<equiv> 0xAA"
abbreviation RIGHT_SHIFT_REL :: u8 where "RIGHT_SHIFT_REL \<equiv> 0xB6"
abbreviation CAPS_LOCK :: u8 where "CAPS_LOCK \<equiv> 0x3A"
abbreviation TAB :: u8 where "TAB \<equiv> 0x0F"
abbreviation CTRL :: u8 where "CTRL \<equiv> 0x1D"
abbreviation CTRL_REL :: u8 where "CTRL_REL \<equiv> 0x9D"
abbreviation KEY_L :: u8 where "KEY_L \<equiv> 0x26"
abbreviation ENTER :: u8 where "ENTER \<equiv> 0x1C"
abbreviation BACKSPACE :: u8 where "BACKSPACE \<equiv> 0x0E"
abbreviation ALT :: u8 where "ALT \<equiv> 0x38"
abbreviation ALT_REL :: u8 where "ALT_REL \<equiv> 0xB8"
abbreviation F1 :: u8 where "F1 \<equiv> 0x3B"
abbreviation F2 :: u8 where "F2 \<equiv> 0x3C"
abbreviation F3 :: u8 where "F3 \<equiv> 0x3D"

definition ascii :: "string \<Rightarrow> u8 list" where
  "ascii cs = map of_char cs"

definition scan_codes_table :: "u8 list" where
  "scan_codes_table =
     [0, 0] @ ascii ''1234567890-='' @ [0] @
     [0] @ ascii ''qwertyuiop[]'' @ [0] @
     [0] @ ascii ''asdfghjkl;'' @ [39, 96, 0, 92] @
     ascii ''zxcvbnm,./'' @ [0] @
     [0, 0, 32]"

definition scan_codes_table_shift :: "u8 list" where
  "scan_codes_table_shift =
     [0, 0] @ ascii ''!@#$%^&*()_+'' @ [0] @
     [0] @ ascii ''QWERTYUIOP{}'' @ [0] @
     [0] @ ascii ''ASDFGHJKL:'' @ [34, 126, 0, 124] @
     ascii ''ZXCVBNM<>?'' @ [0] @
     [0, 0, 32]"

definition scan_codes_table_caps :: "u8 list" where
  "scan_codes_table_caps =
     [0, 0] @ ascii ''1234567890-='' @ [0] @
     [0] @ ascii ''QWERTYUIOP[]'' @ [0] @
     [0] @ ascii ''ASDFGHJKL;'' @ [39, 96, 0, 92] @
     ascii ''ZXCVBNM,./'' @ [0] @
     [0, 0, 32]"

section \<open>The displayed terminal's line\<close>

definition line_index :: "'a kbd_scheme \<Rightarrow> int" where
  "line_index st = keyboard_index st (cur_terminal st - 1)"

definition set_index :: "int \<Rightarrow> 'a kbd_scheme \<Rightarrow> 'a kbd_scheme" where
  "set_index i st = st\<lparr>keyboard_index := (keyboard_index st)(cur_terminal st - 1 := i)\<rparr>"

definition line_char :: "'a kbd_scheme \<Rightarrow> int \<Rightarrow> u8" where
  "line_char st i = keyboard_buffer st (kb_at (cur_terminal st - 1) i)"

definition set_char :: "int \<Rightarrow> u8 \<Rightarrow> 'a kbd_scheme \<Rightarrow> 'a kbd_scheme" where
  "set_char i c st = st\<lparr>keyboard_buffer := (keyboard_buffer st)(kb_at (cur_terminal st - 1) i := c)\<rparr>"

definition move_cursor :: "int \<Rightarrow> 'a console_scheme \<Rightarrow> 'a console_scheme" where
  "move_cursor d st = st\<lparr>screen_x := (screen_x st)(cur_terminal st - 1 := screen_x st (cur_terminal st - 1) + d)\<rparr>"

section \<open>The blocks of the handler\<close>

definition modifier_keys :: "u8 \<Rightarrow> 'a kbd_scheme \<Rightarrow> 'a kbd_scheme" where
  "modifier_keys scan_code st =
     (let st = (if scan_code = LEFT_SHIFT \<or> scan_code = RIGHT_SHIFT then st\<lparr>shift_flag := 1\<rparr>
                else if scan_code = LEFT_SHIFT_REL \<or> scan_code = RIGHT_SHIFT_REL then st\<lparr>shift_flag := 0\<rparr>
                else st);
          st = (if scan_code = CAPS_LOCK \<and> caps_lock_flag st = 0 then st\<lparr>caps_lock_flag := 1\<rparr>
                else if scan_code = CAPS_LOCK \<and> caps_lock_flag st \<noteq> 0 then st\<lparr>caps_lock_flag := 0\<rparr>
                else st);
          st = (if scan_code = CTRL then st\<lparr>ctrl_flag := 1\<rparr>
                else if scan_code = CTRL_REL then st\<lparr>ctrl_flag := 0\<rparr> else st)
      in if scan_code = ALT then st\<lparr>alt_flag := 1\<rparr>
         else if scan_code = ALT_REL then st\<lparr>alt_flag := 0\<rparr> else st)"

definition enter_key :: "u8 \<Rightarrow> 'a kbd_scheme \<Rightarrow> 'a kbd_scheme res" where
  "enter_key scan_code st =
     (if scan_code = ENTER then
        (let st = st\<lparr>enter_flag := (enter_flag st)(cur_terminal st - 1 := 1)\<rparr>;
             st = set_char (line_index st) 10 st;
             st = set_index (line_index st + 1) st;
             st = set_char (line_index st) 0 st
         in andthen (putc_keyboard 10 st) (\<lambda>st. Inr (set_index 0 st)))
      else Inr st)"

definition wrap_line :: "'a kbd_scheme \<Rightarrow> 'a kbd_scheme res" where
  "wrap_line st =
     (if line_index st = 73 \<and> line_index st + 1 < 127 then
        (let st = set_char (line_index st) 10 st
         in andthen (putc_keyboard 10 st) (\<lambda>st.
              Inr ((set_index (line_index st + 1) st)\<lparr>newline_flag := 1\<rparr>)))
      else Inr st)"

definition clear_key :: "u8 \<Rightarrow> 'a kbd_scheme \<Rightarrow> 'a kbd_scheme res" where
  "clear_key scan_code st =
     (if ctrl_flag st \<noteq> 0 \<and> scan_code = KEY_L then
        (let st = fold (\<lambda>i st. set_char (int i) 0 st) [0..<127] st;
             st = set_index 0 st
         in clear st)
      else Inr st)"

definition tab_cell :: "'a kbd_scheme \<Rightarrow> 'a kbd_scheme res" where
  "tab_cell st =
     (if line_index st + 2 < 127 then
        andthen (putc_keyboard 32 (set_char (line_index st) 9 st)) (\<lambda>st.
          Inr (set_index (line_index st + 1) st))
      else Inr st)"

definition tab_key :: "u8 \<Rightarrow> 'a kbd_scheme \<Rightarrow> 'a kbd_scheme res" where
  "tab_key scan_code st =
     (if scan_code = TAB \<and> line_index st + 4 < 127 \<and> screen_x st (cur_terminal st - 1) + 4 < 73
      then andthen (tab_cell st) (\<lambda>st. andthen (tab_cell st) (\<lambda>st. andthen (tab_cell st) tab_cell))
      else Inr st)"

text \<open>The statements that remove one character, five times in the handler.\<close>

definition erase_last :: "'a kbd_scheme \<Rightarrow> 'a kbd_scheme res" where
  "erase_last st =
     (let st = set_char (line_index st - 1) 0 st;
          st = move_cursor (- 1) st
      in andthen (putc_keyboard (line_char st (line_index st - 1)) st) (\<lambda>st.
           let st = (if 0 < line_index st then move_cursor (- 1) st else st)
           in Inr (set_index (line_index st - 1) st)))"

definition erase_newline :: "'a kbd_scheme \<Rightarrow> 'a kbd_scheme res" where
  "erase_newline st =
     (let i = cur_terminal st - 1;
          st = set_char (line_index st - 1) 0 st;
          st = set_char (line_index st - 2) 0 st;
          st = st\<lparr>screen_y := (screen_y st)(i := screen_y st i - 1)\<rparr>;
          cur_y = screen_y st i;
          st = st\<lparr>screen_x := (screen_x st)(i := 73 - 1)\<rparr>
      in andthen (putc_keyboard (line_char st (line_index st - 2)) st) (\<lambda>st.
           let st = st\<lparr>screen_y := (screen_y st)(i := cur_y)\<rparr>;
               st = st\<lparr>screen_x := (screen_x st)(i := 73 - 1)\<rparr>;
               st = set_index (line_index st - 2) st
           in Inr (st\<lparr>newline_flag := 0\<rparr>)))"

definition backspace_key :: "u8 \<Rightarrow> 'a kbd_scheme \<Rightarrow> 'a kbd_scheme res" where
  "backspace_key scan_code st =
     (if 0 < line_index st \<and> line_index st \<le> 127 - 1 \<and> scan_code = BACKSPACE then
        (if newline_flag st \<noteq> 0 \<and> line_char st (line_index st - 1) = 10 then erase_newline st
         else if line_char st (line_index st - 1) = 9 then
           andthen (erase_last st) (\<lambda>st. andthen (erase_last st) (\<lambda>st. andthen (erase_last st) erase_last))
         else erase_last st)
      else Inr st)"

definition key_char :: "u8 \<Rightarrow> 'a kbd_scheme \<Rightarrow> u8" where
  "key_char scan_code st =
     (if shift_flag st \<noteq> 0 \<and> caps_lock_flag st = 0 then scan_codes_table_shift ! unat scan_code
      else if caps_lock_flag st \<noteq> 0 \<and> shift_flag st = 0 then scan_codes_table_caps ! unat scan_code
      else scan_codes_table ! unat scan_code)"

definition char_key :: "u8 \<Rightarrow> 'a kbd_scheme \<Rightarrow> 'a kbd_scheme res" where
  "char_key scan_code st =
     (if scan_code < 58 \<and> scan_codes_table ! unat scan_code \<noteq> 0 \<and> ctrl_flag st = 0 \<and> alt_flag st = 0 \<and>
         line_index st < 127 - 1
      then
        (let st = set_char (line_index st) (key_char scan_code st) st
         in andthen (putc_keyboard (line_char st (line_index st)) st) (\<lambda>st.
              Inr (set_index (line_index st + 1) st)))
      else Inr st)"

section \<open>Switching the displayed terminal\<close>

definition videomem_buffer :: "int \<Rightarrow> addr" where
  "videomem_buffer i = 0xB8000 + (of_int i + 1) * 4096"

text \<open>A new terminal's shell is entered from here; then the frame it starts with is the result.\<close>

definition switch_key ::
  "execute_locals \<Rightarrow> u8 \<Rightarrow> 'a kernel_scheme \<Rightarrow> ('a kernel_scheme \<times> user_frame option) res" where
  "switch_key l scan_code st =
     (if alt_flag st \<noteq> 0 \<and> (scan_code = F1 \<or> scan_code = F2 \<or> scan_code = F3) then
        (let selected_terminal = uint scan_code - 0x3A;
             st = set_vmem (memcpy (vmem st) (videomem_buffer (cur_terminal st - 1)) 0xB8000 4096) st;
             st = set_vmem (memcpy (vmem st) 0xB8000 (videomem_buffer (selected_terminal - 1)) 4096) st;
             st = st\<lparr>cur_terminal := selected_terminal\<rparr>;
             st = update_cursor (screen_x st (cur_terminal st - 1)) (screen_y st (cur_terminal st - 1)) st
         in if base_shell_booted_bitmask st AND push_bit (nat (selected_terminal - 1)) 1 = 0 then
              (let st = update_pcb (current_pcb_addr st) (\<lambda>p. p\<lparr>sched_ebp := ebp st\<rparr>) st;
                   st = st\<lparr>shell_init_boot := selected_terminal\<rparr>;
                   st = st\<lparr>cur_process := selected_terminal\<rparr>;
                   st = send_eoi 1 st
               in andthen (only_to_user (execute l (lit_shell st) st)) (\<lambda>(st, out).
                    Inr (st, case out of To_user f \<Rightarrow> Some f | _ \<Rightarrow> None)))
            else Inr (st, None))
      else Inr (st, None))"

section \<open>The handler\<close>

definition edit_line :: "u8 \<Rightarrow> 'a kbd_scheme \<Rightarrow> 'a kbd_scheme res" where
  "edit_line scan_code st =
     (let st = modifier_keys scan_code st in
      andthen (enter_key scan_code st) (\<lambda>st.
      andthen (wrap_line st) (\<lambda>st.
      andthen (clear_key scan_code st) (\<lambda>st.
      andthen (tab_key scan_code st) (\<lambda>st.
      andthen (backspace_key scan_code st) (\<lambda>st.
      let st = update_cursor (screen_x st (cur_terminal st - 1)) (screen_y st (cur_terminal st - 1)) st
      in char_key scan_code st))))))"

definition keyboard_handler ::
  "execute_locals \<Rightarrow> u8 \<Rightarrow> 'a kernel_scheme \<Rightarrow> ('a kernel_scheme \<times> user_frame option) res" where
  "keyboard_handler l scan_code st =
     (let st = cli st in
      andthen (edit_line scan_code st) (\<lambda>st.
      andthen (switch_key l scan_code st) (\<lambda>(st, started).
        case started of
          Some frame \<Rightarrow> Inr (st, Some frame)
        | None \<Rightarrow>
            (let st = st\<lparr>debug_regs := (debug_regs st)(0 := 0, 1 := 0, 2 := 0, 3 := 0, 7 := 0)\<rparr>;
                 st = outb 0x61 0x20 st
             in Inr (sti st, None)))))"

end
