(* ===== verification/LineEditor.thy ===== *)
theory LineEditor imports Keyboard begin

text \<open>
  What the keyboard's handler promises: seen as lists of characters, the three lines of
  \<^verbatim>\<open>src/src/keyboard.c\<close> change like in a small line editor (\<open>edit\<close>), and the index of a line stays
  within its row.  That the four removals of a tab never run below the start of the line rests on the
  shape of the lines the handler can build (\<open>tidy\<close>).
\<close>

section \<open>The editor\<close>

definition wrapped :: "u8 list \<Rightarrow> u8 list" where
  "wrapped xs = (if length xs = 73 then xs @ [10] else xs)"

definition tabbed :: "u8 list \<Rightarrow> u8 list" where
  "tabbed xs = xs @ replicate (min 4 (125 - length xs)) 9"

definition rubout :: "bool \<Rightarrow> u8 list \<Rightarrow> u8 list" where
  "rubout newline xs =
     (if xs = [] then []
      else if newline \<and> last xs = 10 then take (length xs - 2) xs
      else if last xs = 9 then take (length xs - 4) xs
      else butlast xs)"

definition prints :: "u8 \<Rightarrow> bool" where
  "prints code \<longleftrightarrow> code < 58 \<and> scan_codes_table ! unat code \<noteq> 0"

text \<open>\<open>ctrl\<close>, \<open>alt\<close> and \<open>newline\<close> are the handler's flags, \<open>room\<close> whether the cursor leaves room for a
  tab, and \<open>c\<close> the character of the key.\<close>

definition edit :: "u8 \<Rightarrow> bool \<Rightarrow> bool \<Rightarrow> bool \<Rightarrow> bool \<Rightarrow> u8 \<Rightarrow> u8 list \<Rightarrow> u8 list" where
  "edit code ctrl alt newline room c xs =
     (if code = ENTER then []
      else if ctrl \<and> code = KEY_L then []
      else if code = TAB then (if length (wrapped xs) + 4 < 127 \<and> room then tabbed (wrapped xs) else wrapped xs)
      else if code = BACKSPACE then rubout (newline \<or> length xs = 73) (wrapped xs)
      else if prints code \<and> \<not> ctrl \<and> \<not> alt \<and> length (wrapped xs) < 126 then wrapped xs @ [c]
      else wrapped xs)"

section \<open>Lines that can be rubbed out\<close>

text \<open>Rubbing out from length \<open>n\<close> on ends at the empty line, tabs by four.\<close>

function backs :: "u8 list \<Rightarrow> nat \<Rightarrow> bool" where
  "backs xs n =
     (if n = 0 then True
      else if n = 73 then backs xs 72
      else if xs ! (n - 1) = 9 then 4 \<le> n \<and> backs xs (n - 4)
      else if xs ! (n - 1) = 10 then (if n = 74 then backs xs 72 else False)
      else backs xs (n - 1))"
  by pat_completeness auto
termination by (relation "measure (\<lambda>(xs, n). n)") auto

declare backs.simps [simp del]

text \<open>The lengths a line can have been cut to: multiples of four up to 72, where a wrapped line
  continues, and from 73 on one more than a multiple.\<close>

definition stop :: "nat \<Rightarrow> bool" where
  "stop n \<longleftrightarrow> (n mod 4 = 0 \<and> n \<le> 72) \<or> (n mod 4 = 1 \<and> 73 \<le> n)"

definition tidy :: "u8 list \<Rightarrow> bool" where
  "tidy xs \<longleftrightarrow> length xs \<le> 126 \<and> backs xs (length xs) \<and> (\<forall>n \<le> length xs. stop n \<longrightarrow> backs xs n)"

lemma backs_prefix: "n \<le> length xs \<Longrightarrow> backs (xs @ ys) n = backs xs n"
proof (induction xs n rule: backs.induct)
  case (1 xs n)
  then show ?case by (subst (1 2) backs.simps) (auto simp: nth_append)
qed

lemma backs_take: "n \<le> k \<Longrightarrow> k \<le> length xs \<Longrightarrow> backs (take k xs) n = backs xs n"
  using backs_prefix [of n "take k xs" "drop k xs"] by simp

lemma tidy_Nil [simp]: "tidy []"
  by (simp add: tidy_def backs.simps)

lemma tidy_take: "tidy xs \<Longrightarrow> k \<le> length xs \<Longrightarrow> backs xs k \<Longrightarrow> tidy (take k xs)"
  by (auto simp: tidy_def backs_take)

text \<open>Growing a line: only the new lengths have to be looked at.\<close>

lemma tidy_append:
  assumes "tidy xs" "length xs + length ys \<le> 126"
    and "\<And>n. length xs < n \<Longrightarrow> n \<le> length xs + length ys \<Longrightarrow> n = length xs + length ys \<or> stop n \<Longrightarrow>
      backs (xs @ ys) n"
  shows "tidy (xs @ ys)"
  unfolding tidy_def
proof (intro conjI allI impI)
  show "backs (xs @ ys) (length (xs @ ys))"
    using assms by (cases "ys = []") (auto simp: tidy_def)
  fix n assume n: "n \<le> length (xs @ ys)" "stop n"
  show "backs (xs @ ys) n"
  proof (cases "n \<le> length xs")
    case True
    then show ?thesis using assms(1) n(2) by (simp add: tidy_def backs_prefix)
  next
    case False
    then show ?thesis using assms(3) n by simp
  qed
qed (use assms(2) in simp)

lemma tidy_char:
  assumes "tidy xs" "length xs < 126" "length xs \<noteq> 73" "c \<noteq> 9" "c \<noteq> 10"
  shows "tidy (xs @ [c])"
proof (rule tidy_append [OF assms(1)])
  fix n assume "length xs < n" "n \<le> length xs + length [c]"
  then have n: "n = Suc (length xs)" by simp
  have "backs (xs @ [c]) (length xs)" using assms(1) by (simp add: tidy_def backs_prefix)
  then show "backs (xs @ [c]) n"
    using assms(4,5) by (subst backs.simps) (auto simp: n)
qed (use assms(2) in simp)

lemma tidy_wrapped: "tidy xs \<Longrightarrow> tidy (wrapped xs)"
proof -
  assume t: "tidy xs"
  show ?thesis
  proof (cases "length xs = 73")
    case True
    have "backs xs 72" using t True by (simp add: tidy_def stop_def)
    then have "backs (xs @ [10]) 72" using True by (simp add: backs_prefix)
    then have "backs (xs @ [10]) 74" using True by (subst backs.simps) (simp add: nth_append)
    then have "tidy (xs @ [10])"
      using True by (intro tidy_append [OF t]) (auto simp: le_Suc_eq numeral_eq_Suc)
    then show ?thesis using True by (simp add: wrapped_def)
  qed (use t in \<open>simp add: wrapped_def\<close>)
qed

lemma tab_stop:
  assumes "tidy xs" "length xs < n" "n \<le> length xs + k" "k \<le> 4" "stop n"
  shows "backs (xs @ replicate k 9) n"
proof -
  have tab: "(xs @ replicate k 9) ! (m - 1) = 9" if "length xs < m" "m \<le> n" for m
  proof -
    have "\<not> m - 1 < length xs" "m - 1 - length xs < k" using that assms(3) by linarith+
    then show ?thesis by (simp add: nth_append)
  qed
  have four: "backs (xs @ replicate k 9) m"
    if "length xs < m" "m \<le> n" "m mod 4 = 0" "m \<le> 72" for m
  proof -
    have m: "4 \<le> m" using that(1,3) by (intro dvd_imp_le) auto
    moreover have "m - 4 \<le> length xs" using that(2) assms(3,4) by linarith
    ultimately have "stop (m - 4)" "m - 4 \<le> length xs"
      using le_mod_geq [of 4 m] that by (simp_all add: stop_def)
    then have "backs (xs @ replicate k 9) (m - 4)"
      using assms(1) by (simp add: tidy_def backs_prefix)
    then show ?thesis using m tab [OF that(1,2)] that by (subst backs.simps) simp
  qed
  show ?thesis
  proof (cases "n \<le> 73")
    case True
    then consider "n mod 4 = 0" "n \<le> 72" | "n = 73" using assms(5) by (auto simp: stop_def)
    then show ?thesis
    proof cases
      case 2
      have "backs (xs @ replicate k 9) 72"
      proof (cases "72 \<le> length xs")
        case True
        then show ?thesis using assms(1) by (simp add: tidy_def backs_prefix stop_def)
      qed (use 2 four [of 72] in simp)
      then show ?thesis using 2 by (subst backs.simps) simp
    qed (use four assms(2) in simp)
  next
    case False
    then have n: "n mod 4 = 1" using assms(5) by (simp add: stop_def)
    then have "n \<noteq> 74" "n \<noteq> 75" "n \<noteq> 76" by auto
    then have "73 \<le> n - 4" "n - 4 \<le> length xs" using False assms(3,4) by linarith+
    moreover have "(n - 4) mod 4 = 1" using le_mod_geq [of 4 n] n False by simp
    ultimately have "stop (n - 4)" "n - 4 \<le> length xs" by (simp_all add: stop_def)
    then have "backs (xs @ replicate k 9) (n - 4)"
      using assms(1) by (simp add: tidy_def backs_prefix)
    then show ?thesis using False tab [OF assms(2)] by (subst backs.simps) simp
  qed
qed

lemma tidy_tabbed:
  assumes "tidy xs" "length xs + 4 < 127"
  shows "tidy (tabbed xs)"
proof -
  define k where "k = min 4 (125 - length xs)"
  have k: "k \<le> 4" "k = 4 \<or> (length xs = 122 \<and> k = 3)" using assms(2) by (auto simp: k_def)
  have "tidy (xs @ replicate k 9)"
  proof (rule tidy_append [OF assms(1)])
    fix n assume n: "length xs < n" "n \<le> length xs + length (replicate k (9 :: u8))"
      "n = length xs + length (replicate k (9 :: u8)) \<or> stop n"
    show "backs (xs @ replicate k 9) n"
    proof (cases "stop n")
      case True
      then show ?thesis using tab_stop [OF assms(1) n(1) _ k(1)] n(2) by simp
    next
      case False
      then have "n = length xs + 4" "n \<noteq> 73" using n(3) k(2) by (auto simp: stop_def)
      moreover have "k = 4" using calculation n(2) k by auto
      moreover have "backs (xs @ replicate k 9) (length xs)"
        using assms(1) by (simp add: tidy_def backs_prefix)
      ultimately show ?thesis by (subst backs.simps) (simp add: nth_append)
    qed
  qed (use k assms(2) in auto)
  then show ?thesis by (simp add: tabbed_def k_def)
qed

text \<open>The one fact the handler's four removals rely on, and what a removal keeps.\<close>

lemma tidy_tab: "tidy xs \<Longrightarrow> xs \<noteq> [] \<Longrightarrow> length xs \<noteq> 73 \<Longrightarrow> last xs = 9 \<Longrightarrow> 4 \<le> length xs"
  by (auto simp: tidy_def last_conv_nth backs.simps [of xs "length xs"] split: if_splits)

lemma tidy_newline: "tidy xs \<Longrightarrow> xs \<noteq> [] \<Longrightarrow> length xs \<noteq> 73 \<Longrightarrow> last xs = 10 \<Longrightarrow> length xs = 74"
  by (auto simp: tidy_def last_conv_nth backs.simps [of xs "length xs"] split: if_splits)

lemma tidy_rubout:
  assumes "tidy xs" "length xs \<noteq> 73"
  shows "tidy (rubout b xs)"
proof (cases "xs = []")
  case False
  then have bk: "if last xs = 9 then backs xs (length xs - 4) else
      if last xs = 10 then length xs = 74 \<and> backs xs 72 else backs xs (length xs - 1)"
    using assms by (auto simp: tidy_def last_conv_nth backs.simps [of xs "length xs"] split: if_splits)
  have "backs xs 73" if "backs xs 72" using that by (subst backs.simps) simp
  then show ?thesis
    using bk False by (auto simp: rubout_def butlast_conv_take intro!: tidy_take [OF assms(1)] split: if_splits)
qed (simp add: rubout_def)

lemma length_wrapped: "length (wrapped xs) \<noteq> 73"
  by (simp add: wrapped_def)

lemma tidy_edit:
  assumes "tidy xs" "c \<noteq> 9" "c \<noteq> 10"
  shows "tidy (edit code ctrl alt newline room c xs)"
  using tidy_wrapped [OF assms(1)] length_wrapped [of xs] assms
  by (simp add: edit_def tidy_tabbed tidy_rubout tidy_char)

text \<open>ENTER on a full line writes the NUL over the first character of the next terminal's line.\<close>

lemma tidy_zero: "tidy xs \<Longrightarrow> xs \<noteq> [] \<Longrightarrow> tidy (0 # tl xs)"
proof -
  assume t: "tidy xs" and ne: "xs \<noteq> []"
  have "n \<le> length xs \<Longrightarrow> backs xs n \<Longrightarrow> backs (0 # tl xs) n" for n
  proof (induction xs n rule: backs.induct)
    case (1 xs n)
    have same: "(0 # tl xs) ! (n - 1) = xs ! (n - 1)" if "1 < n"
      using that 1(5) by (cases xs; cases "n - 1") auto
    show ?case
    proof (cases "n \<le> 1")
      case True
      then show ?thesis by (cases "n = 0") (auto simp: backs.simps)
    next
      case False
      then show ?thesis using 1 same by (subst backs.simps) (auto simp: backs.simps [of xs n] split: if_splits)
    qed
  qed
  then show ?thesis using t ne unfolding tidy_def by (cases xs) auto
qed

section \<open>The lines in memory\<close>

definition holds :: "int \<Rightarrow> u8 list \<Rightarrow> 'a kbd_scheme \<Rightarrow> bool" where
  "holds t xs st \<longleftrightarrow> keyboard_index st t = int (length xs) \<and>
     (\<forall>i < length xs. keyboard_buffer st (kb_at t (int i)) = xs ! i)"

definition rows :: "(int \<Rightarrow> u8 list) \<Rightarrow> 'a kbd_scheme \<Rightarrow> bool" where
  "rows ls st \<longleftrightarrow> (\<forall>t \<in> {0, 1, 2}. holds t (ls t) st \<and> length (ls t) \<le> 126)"

text \<open>The displayed line, and everything the handler does not touch while a line is edited.\<close>

definition shown :: "'a proc_scheme \<Rightarrow> int" where
  "shown st = cur_terminal st - 1"

definition types_only :: "'a kbd_scheme \<Rightarrow> 'a kbd_scheme \<Rightarrow> bool" where
  "types_only s t \<longleftrightarrow>
     t = s\<lparr>phys := phys t, out_log := out_log t, screen_x := screen_x t, screen_y := screen_y t,
       keyboard_buffer := keyboard_buffer t, keyboard_index := keyboard_index t,
       enter_flag := enter_flag t, newline_flag := newline_flag t\<rparr>"

lemma kb_at_eq:
  "0 \<le> i \<Longrightarrow> i < 127 \<Longrightarrow> 0 \<le> j \<Longrightarrow> j < 127 \<Longrightarrow> kb_at t i = kb_at u j \<longleftrightarrow> t = u \<and> i = j"
  unfolding kb_at_def by (cases t u rule: linorder_cases) linarith+

lemma kb_at_zero: "0 \<le> i \<Longrightarrow> i < 127 \<Longrightarrow> kb_at t 127 = kb_at u i \<longleftrightarrow> u = t + 1 \<and> i = 0"
  unfolding kb_at_def by (cases u "t + 1" rule: linorder_cases) linarith+

lemma same_kernel_keys:
  fixes s t :: "'a kbd_scheme"
  assumes "same_kernel s t"
  shows "keyboard_buffer t = keyboard_buffer s" "keyboard_index t = keyboard_index s"
    "enter_flag t = enter_flag s" "newline_flag t = newline_flag s" "cur_terminal t = cur_terminal s"
    "rows ls t = rows ls s" "types_only s t"
  unfolding rows_def holds_def types_only_def
  by (subst assms [unfolded same_kernel_def], simp)+

lemma types_only_refl [simp]: "types_only s s"
  by (simp add: types_only_def)

lemma types_only_trans: "types_only s t \<Longrightarrow> types_only t u \<Longrightarrow> types_only s u"
proof -
  assume st: "types_only s t" and tu: "types_only t u"
  define f where "f v w = v\<lparr>phys := phys w, out_log := out_log w, screen_x := screen_x w, screen_y := screen_y w,
       keyboard_buffer := keyboard_buffer w, keyboard_index := keyboard_index w,
       enter_flag := enter_flag w, newline_flag := newline_flag w\<rparr>" for v w :: "'a kbd_scheme"
  have "f (f s t) u = f s u" by (simp add: f_def)
  moreover have "u = f t u" "t = f s t"
    using st tu by (simp_all only: types_only_def f_def)
  ultimately show ?thesis unfolding types_only_def f_def [symmetric] by metis
qed

lemma types_only_eqs:
  assumes "types_only s t"
  shows "cur_terminal t = cur_terminal s" "shown t = shown s" "cur_process_local t = cur_process_local s"
    "shift_flag t = shift_flag s" "caps_lock_flag t = caps_lock_flag s" "ctrl_flag t = ctrl_flag s"
    "alt_flag t = alt_flag s" "key_char code t = key_char code s"
  unfolding shown_def cur_process_local_def current_pcb_addr_def key_char_def
  by (subst assms [unfolded types_only_def], simp)+

lemma types_only_steps [simp]:
  "types_only s (set_char i c s)" "types_only s (set_index i s)" "types_only s (s\<lparr>newline_flag := b\<rparr>)"
  "types_only s (s\<lparr>enter_flag := f\<rparr>)" "types_only s (move_cursor d s)" "types_only s (s\<lparr>screen_x := g\<rparr>)"
  "types_only s (s\<lparr>screen_y := g\<rparr>)"
  by (simp_all add: types_only_def set_char_def set_index_def move_cursor_def)

lemma rows_flags [simp]:
  "rows ls (s\<lparr>newline_flag := b\<rparr>) = rows ls s" "rows ls (s\<lparr>enter_flag := f\<rparr>) = rows ls s"
  "rows ls (move_cursor d s) = rows ls s" "rows ls (s\<lparr>screen_x := g\<rparr>) = rows ls s"
  "rows ls (s\<lparr>screen_y := g\<rparr>) = rows ls s"
  by (simp_all add: rows_def holds_def move_cursor_def)

lemma putc_types:
  fixes st :: "'a kbd_scheme"
  assumes "cur_process_local st = Inr p"
  shows "\<exists>s. putc c k st = Inr s \<and> same_kernel st s"
  using put_on_same_kernel assms by (auto simp: putc_def)


section \<open>Steps on a line\<close>

lemma rows_shown:
  assumes "rows ls st" "shown st \<in> {0, 1, 2}"
  shows "line_index st = int (length (ls (shown st)))" "length (ls (shown st)) \<le> 126"
    "i < length (ls (shown st)) \<Longrightarrow> line_char st (int i) = ls (shown st) ! i"
  using assms by (auto simp: rows_def holds_def line_index_def line_char_def shown_def)

text \<open>A byte behind the end of the displayed line belongs to no line.\<close>

lemma rows_set_char:
  assumes "rows ls st" "shown st \<in> {0, 1, 2}" "int (length (ls (shown st))) \<le> i" "i < 127"
  shows "rows ls (set_char i c st)"
  unfolding rows_def
proof
  fix t :: int assume t: "t \<in> {0, 1, 2}"
  have h: "holds t (ls t) st" "length (ls t) \<le> 126" using assms(1) t by (auto simp: rows_def)
  have "kb_at (shown st) i \<noteq> kb_at t (int j)" if "j < length (ls t)" for j
    using that h(2) assms(3,4) kb_at_eq [of i "int j" "shown st" t] by auto
  then show "holds t (ls t) (set_char i c st) \<and> length (ls t) \<le> 126"
    using h by (simp add: holds_def set_char_def shown_def) metis
qed

lemma line_char_set [simp]: "line_char (set_char i c st) i = c" "line_index (set_char i c st) = line_index st"
  by (simp_all add: set_char_def line_char_def line_index_def)

lemma rows_set_index:
  assumes "rows ls st" "k = length xs" "k \<le> 126"
    and "\<And>i. i < k \<Longrightarrow> line_char st (int i) = xs ! i"
  shows "rows (ls(shown st := xs)) (set_index (int k) st)"
  using assms by (auto simp: rows_def holds_def set_index_def line_char_def shown_def)

lemma rows_grow:
  assumes "rows ls st" "shown st \<in> {0, 1, 2}" "length (ls (shown st)) < 126"
    and "line_char st (line_index st) = x"
  shows "rows (ls(shown st := ls (shown st) @ [x])) (set_index (line_index st + 1) st)"
proof -
  note sh = rows_shown [OF assms(1,2)]
  have "rows (ls(shown st := ls (shown st) @ [x])) (set_index (int (Suc (length (ls (shown st))))) st)"
    using assms(1,3,4) sh by (intro rows_set_index) (auto simp: nth_append less_Suc_eq)
  then show ?thesis by (simp add: sh(1) add.commute)
qed

lemma rows_cut:
  assumes "rows ls st" "shown st \<in> {0, 1, 2}" "k \<le> length (ls (shown st))"
  shows "rows (ls(shown st := take k (ls (shown st)))) (set_index (int k) st)"
  using assms rows_shown [OF assms(1,2)] by (intro rows_set_index) auto

lemma type_step:
  fixes st :: "'a kbd_scheme"
  assumes "rows ls st" "shown st \<in> {0, 1, 2}" "length (ls (shown st)) < 126" "cur_process_local st = Inr p"
  shows "\<exists>s. putc_keyboard y (set_char (line_index st) x st) = Inr s \<and>
    rows (ls(shown st := ls (shown st) @ [x])) (set_index (line_index s + 1) s) \<and>
    types_only st (set_index (line_index s + 1) s)"
proof -
  define st1 where "st1 = set_char (line_index st) x st"
  note sh = rows_shown [OF assms(1,2)]
  have r: "rows ls st1" "line_char st1 (line_index st1) = x"
    using rows_set_char [OF assms(1,2)] sh(1) assms(3) by (auto simp: st1_def)
  have ty: "types_only st st1" by (simp add: st1_def)
  obtain s where s: "putc y 1 st1 = Inr s" "same_kernel st1 s"
    using putc_types [of st1 p] types_only_eqs(3) [OF ty] assms(4) by auto
  note k = same_kernel_keys [OF s(2)]
  have "rows ls s" "line_char s (line_index s) = x" "shown s = shown st"
    using r k types_only_eqs(2) [OF ty] by (simp_all add: line_char_def line_index_def shown_def)
  then have "rows (ls(shown st := ls (shown st) @ [x])) (set_index (line_index s + 1) s)"
    using rows_grow [of ls s x] assms(2,3) by simp
  moreover have "types_only st s" by (rule types_only_trans [OF ty k(7)])
  then have "types_only st (set_index (line_index s + 1) s)"
    by (rule types_only_trans) simp
  ultimately show ?thesis using s(1) by (simp add: putc_keyboard_def st1_def)
qed


text \<open>\<open>edits r st ls newline\<close>: the block ends, with these lines and this flag.\<close>

definition edits :: "'a kbd_scheme res \<Rightarrow> 'a kbd_scheme \<Rightarrow> (int \<Rightarrow> u8 list) \<Rightarrow> bool \<Rightarrow> bool" where
  "edits r st ls newline \<longleftrightarrow>
     (\<exists>s. r = Inr s \<and> rows ls s \<and> types_only st s \<and> (newline_flag s \<noteq> 0 \<longleftrightarrow> newline))"

definition ready :: "(int \<Rightarrow> u8 list) \<Rightarrow> 'a kbd_scheme \<Rightarrow> bool" where
  "ready ls st \<longleftrightarrow> rows ls st \<and> shown st \<in> {0, 1, 2} \<and> (\<exists>p. cur_process_local st = Inr p)"

lemma ready_parts:
  assumes "ready ls st"
  shows "rows ls st" "shown st \<in> {0, 1, 2}" "line_index st = int (length (ls (shown st)))"
    "length (ls (shown st)) \<le> 126" "\<exists>p. cur_process_local st = Inr p"
  using assms rows_shown [of ls st] by (simp_all add: ready_def)

lemma edits_andthen:
  assumes "edits r st ls b" "ready ls' st"
    and "\<And>s. ready ls s \<Longrightarrow> types_only st s \<Longrightarrow> shown s = shown st \<Longrightarrow> (newline_flag s \<noteq> 0 \<longleftrightarrow> b) \<Longrightarrow>
      edits (f s) s ls'' b'"
  shows "edits (andthen r f) st ls'' b'"
proof -
  obtain s where s: "r = Inr s" "rows ls s" "types_only st s" "newline_flag s \<noteq> 0 \<longleftrightarrow> b"
    using assms(1) by (auto simp: edits_def)
  then have "ready ls s" using assms(2) types_only_eqs [OF s(3)] by (auto simp: ready_def)
  then have "edits (f s) s ls'' b'"
    using assms(3) s types_only_eqs(2) [OF s(3)] by blast
  then show ?thesis using s(1) types_only_trans [OF s(3)] by (auto simp: edits_def)
qed

lemma edits_same: "rows ls st \<Longrightarrow> edits (Inr st) st ls (newline_flag st \<noteq> 0)"
  by (simp add: edits_def)

lemma type_newline:
  "putc_keyboard y (set_char i x st) = Inr s \<Longrightarrow> newline_flag s = newline_flag (st :: 'a kbd_scheme)"
  unfolding putc_keyboard_def putc_def
  using same_kernel_keys(4) [OF put_on_same_kernel [of "set_char i x st"]]
  by (auto simp: andthen_eq_Inr set_char_def split: if_splits)

lemma edits_type:
  assumes "ready ls st" "length (ls (shown st)) < 126"
  shows "edits (andthen (putc_keyboard y (set_char (line_index st) x st)) (\<lambda>st. Inr (set_index (line_index st + 1) st)))
    st (ls(shown st := ls (shown st) @ [x])) (newline_flag st \<noteq> 0)"
proof -
  obtain p where a: "rows ls st" "shown st \<in> {0, 1, 2}" "cur_process_local st = Inr p"
    using assms(1) by (auto simp: ready_def)
  obtain s where s: "putc_keyboard y (set_char (line_index st) x st) = Inr s"
    "rows (ls(shown st := ls (shown st) @ [x])) (set_index (line_index s + 1) s)"
    "types_only st (set_index (line_index s + 1) s)"
    using type_step [OF a(1,2) assms(2) a(3)] by blast
  then show ?thesis using type_newline [OF s(1)] by (simp add: edits_def set_index_def)
qed

lemma wrap_edits:
  assumes "ready ls st"
  shows "edits (wrap_line st) st (ls(shown st := wrapped (ls (shown st))))
    (newline_flag st \<noteq> 0 \<or> length (ls (shown st)) = 73)"
proof (cases "length (ls (shown st)) = 73")
  case True
  have "line_index st = 73" using ready_parts(3) [OF assms] True by simp
  moreover obtain s where s: "putc_keyboard 10 (set_char (line_index st) 10 st) = Inr s"
    "rows (ls(shown st := ls (shown st) @ [10])) (set_index (line_index s + 1) s)"
    "types_only st (set_index (line_index s + 1) s)"
    using ready_parts [OF assms] type_step [of ls st _ 10 10] True by auto
  moreover have "types_only st ((set_index (line_index s + 1) s)\<lparr>newline_flag := 1\<rparr>)"
    by (rule types_only_trans [OF s(3)]) simp
  ultimately show ?thesis using True by (simp add: edits_def wrap_line_def wrapped_def Let_def)
next
  case False
  then have "line_index st \<noteq> 73" using ready_parts(3) [OF assms] by simp
  then show ?thesis using False assms by (simp add: wrap_line_def wrapped_def edits_same ready_def)
qed

lemma tab_cell_edits:
  assumes "ready ls st"
  shows "edits (tab_cell st) st
    (ls(shown st := if length (ls (shown st)) < 125 then ls (shown st) @ [9] else ls (shown st))) (newline_flag st \<noteq> 0)"
  using edits_type [OF assms, of 32 9] edits_same [of ls st] ready_parts [OF assms]
  by (auto simp: tab_cell_def)

lemma tab_edits:
  assumes "ready ls st"
  shows "\<exists>room. edits (tab_key code st) st
    (ls(shown st := if code = TAB \<and> length (ls (shown st)) + 4 < 127 \<and> room then tabbed (ls (shown st))
       else ls (shown st))) (newline_flag st \<noteq> 0)"
proof -
  let ?xs = "ls (shown st)" and ?room = "screen_x st (cur_terminal st - 1) + 4 < 73"
  note li = ready_parts(3) [OF assms]
  have ext: "edits (andthen r tab_cell) st
      (ls(shown st := if length ys < 125 then ys @ [9] else ys)) (newline_flag st \<noteq> 0)"
    if "edits r st (ls(shown st := ys)) (newline_flag st \<noteq> 0)" for r ys
  proof (rule edits_andthen [OF that assms])
    fix s assume "ready (ls(shown st := ys)) s" "shown s = shown st" "newline_flag s \<noteq> 0 \<longleftrightarrow> newline_flag st \<noteq> 0"
    then show "edits (tab_cell s) s (ls(shown st := if length ys < 125 then ys @ [9] else ys)) (newline_flag st \<noteq> 0)"
      using tab_cell_edits [of "ls(shown st := ys)" s] by (cases "length ys < 125") simp_all
  qed
  show ?thesis
  proof (cases "code = TAB \<and> length ?xs + 4 < 127 \<and> ?room")
    case True
    have assoc: "tab_key code st = andthen (andthen (andthen (tab_cell st) tab_cell) tab_cell) tab_cell"
      using True by (simp add: tab_key_def li andthen_assoc)
    have "min 4 (125 - length ?xs) = (if length ?xs = 122 then 3 else 4)" using True by auto
    then show ?thesis
      using True ext [OF ext [OF ext [OF tab_cell_edits [OF assms]]]] unfolding assoc
      by (intro exI [of _ ?room]) (auto simp: tabbed_def numeral_eq_Suc split: if_splits)
  next
    case False
    then show ?thesis
      using edits_same [of ls st] assms by (intro exI [of _ ?room]) (auto simp: tab_key_def li ready_def)
  qed
qed

lemma char_edits:
  assumes "ready ls st"
  shows "edits (char_key code st) st
    (ls(shown st := if prints code \<and> ctrl_flag st = 0 \<and> alt_flag st = 0 \<and> length (ls (shown st)) < 126
       then ls (shown st) @ [key_char code st] else ls (shown st))) (newline_flag st \<noteq> 0)"
  using edits_type [OF assms] edits_same [of ls st] ready_parts [OF assms]
  by (auto simp: char_key_def prints_def Let_def)


section \<open>Removing characters\<close>

text \<open>Cutting the displayed line, when only bytes of its removed part were written.\<close>

lemma cut_step:
  assumes "ready ls st" "k \<le> length (ls (shown st))" "keyboard_index s = keyboard_index st" "shown s = shown st"
    and "\<And>u i. 0 \<le> i \<Longrightarrow> i < 127 \<Longrightarrow> (u = shown st \<Longrightarrow> i < int k) \<Longrightarrow>
      keyboard_buffer s (kb_at u i) = keyboard_buffer st (kb_at u i)"
  shows "rows (ls(shown st := take k (ls (shown st)))) (set_index (int k) s)"
  unfolding rows_def
proof
  fix u :: int assume u: "u \<in> {0, 1, 2}"
  let ?ls = "ls(shown st := take k (ls (shown st)))"
  have h: "keyboard_index st u = int (length (ls u))" "length (ls u) \<le> 126"
    "\<And>i. i < length (ls u) \<Longrightarrow> keyboard_buffer st (kb_at u (int i)) = ls u ! i"
    using ready_parts(1) [OF assms(1)] u by (auto simp: rows_def holds_def)
  have "keyboard_buffer s (kb_at u (int i)) = ?ls u ! i" if "i < length (?ls u)" for i
    using that h assms(2) assms(5) [of "int i" u] by (auto split: if_splits)
  then show "holds u (?ls u) (set_index (int k) s) \<and> length (?ls u) \<le> 126"
    using h assms(2,3,4) by (auto simp: holds_def set_index_def shown_def)
qed

lemma erase_last_edits:
  assumes "ready ls st" "ls (shown st) \<noteq> []"
  shows "edits (erase_last st) st (ls(shown st := butlast (ls (shown st)))) (newline_flag st \<noteq> 0)"
proof -
  let ?n = "length (ls (shown st)) - 1"
  define st1 where "st1 = move_cursor (- 1) (set_char (line_index st - 1) 0 st)"
  have n: "line_index st - 1 = int ?n" using ready_parts(3) [OF assms(1)] assms(2) by (cases "ls (shown st)") auto
  have ty: "types_only st st1" unfolding st1_def by (rule types_only_trans [OF types_only_steps(1,5)])
  obtain s where s: "putc_keyboard (line_char st1 (line_index st1 - 1)) st1 = Inr s" "same_kernel st1 s"
    using ready_parts(5) [OF assms(1)] types_only_eqs(3) [OF ty] putc_types [of st1] unfolding putc_keyboard_def by fastforce
  note k = same_kernel_keys [OF s(2)]
  define s1 where "s1 = (if 0 < line_index s then move_cursor (- 1) s else s)"
  have e: "keyboard_index s1 = keyboard_index st" "shown s1 = shown st" "newline_flag s1 = newline_flag st"
    "keyboard_buffer s1 = (keyboard_buffer st)(kb_at (shown st) (line_index st - 1) := 0)"
    by (simp_all add: s1_def k move_cursor_def st1_def set_char_def shown_def)
  then have "line_index s1 = line_index st" by (simp add: line_index_def shown_def)
  then have eq: "erase_last st = Inr (set_index (int ?n) s1)"
    unfolding erase_last_def Let_def st1_def [symmetric] s(1) by (simp add: s1_def [symmetric] n)
  have "types_only st s1"
    using types_only_trans [OF types_only_trans [OF ty k(7)] types_only_steps(5)] types_only_trans [OF ty k(7)]
    by (simp add: s1_def)
  then have "types_only st (set_index (int ?n) s1)" by (rule types_only_trans) simp
  moreover have "rows (ls(shown st := take ?n (ls (shown st)))) (set_index (int ?n) s1)"
  proof (rule cut_step [OF assms(1) _ e(1,2)])
    have "int ?n < 127" using ready_parts(4) [OF assms(1)] by linarith
    then show "keyboard_buffer s1 (kb_at u i) = keyboard_buffer st (kb_at u i)"
      if "0 \<le> i" "i < 127" "u = shown st \<Longrightarrow> i < int ?n" for u i
      using that kb_at_eq [of i "int ?n" u "shown st"] by (auto simp: e(4) n)
  qed simp
  ultimately show ?thesis
    unfolding eq by (simp add: edits_def butlast_conv_take e(3) set_index_def)
qed

lemma erase_newline_edits:
  assumes "ready ls st" "length (ls (shown st)) = 74"
  shows "edits (erase_newline st) st (ls(shown st := take 72 (ls (shown st)))) False"
proof -
  let ?i = "cur_terminal st - 1"
  have li: "line_index st = 74" using ready_parts(3) [OF assms(1)] assms(2) by simp
  define st1 where "st1 = set_char 72 0 (set_char 73 0 st)"
  define st2 where "st2 = st1\<lparr>screen_y := (screen_y st1)(?i := screen_y st1 ?i - 1)\<rparr>"
  define st3 where "st3 = st2\<lparr>screen_x := (screen_x st2)(?i := 73 - 1)\<rparr>"
  have ty: "types_only st st3"
    unfolding st3_def st2_def st1_def
    by (rule types_only_trans [OF types_only_trans [OF types_only_trans [OF types_only_steps(1,1)] types_only_steps(7)]
          types_only_steps(6)])
  obtain s where s: "putc_keyboard (line_char st3 72) st3 = Inr s" "same_kernel st3 s"
    using ready_parts(5) [OF assms(1)] types_only_eqs(3) [OF ty] putc_types [of st3] unfolding putc_keyboard_def by fastforce
  note k = same_kernel_keys [OF s(2)]
  define s1 where "s1 = s\<lparr>screen_y := (screen_y s)(?i := screen_y st2 ?i)\<rparr>"
  define s2 where "s2 = s1\<lparr>screen_x := (screen_x s1)(?i := 73 - 1)\<rparr>"
  have e: "keyboard_index s2 = keyboard_index st" "shown s2 = shown st"
    "keyboard_buffer s2 = (keyboard_buffer st)(kb_at (shown st) 73 := 0, kb_at (shown st) 72 := 0)"
    by (simp_all add: s2_def s1_def k st3_def st2_def st1_def set_char_def shown_def)
  have idx: "line_index s2 = 74" using e li by (simp add: line_index_def shown_def)
  have i3: "line_index st3 = 74" using li by (simp add: st3_def st2_def st1_def set_char_def line_index_def)
  have eq: "erase_newline st = Inr ((set_index 72 s2)\<lparr>newline_flag := 0\<rparr>)"
  proof -
    have "set_char (line_index (set_char 73 0 st) - 2) 0 (set_char 73 0 st) = st1"
      using li by (simp add: st1_def)
    then show ?thesis
      unfolding erase_newline_def Let_def using li s(1) i3 idx
      by (simp add: st2_def [symmetric] st3_def [symmetric] s1_def [symmetric] s2_def [symmetric])
        (simp add: st3_def [simplified] s1_def [simplified] s2_def [simplified] st2_def)
  qed
  have "types_only st s" by (rule types_only_trans [OF ty k(7)])
  then have "types_only st s2" unfolding s2_def s1_def
    by (rule types_only_trans [OF types_only_trans [OF _ types_only_steps(7)] types_only_steps(6)])
  then have "types_only st ((set_index 72 s2)\<lparr>newline_flag := 0\<rparr>)"
    by (rule types_only_trans [OF types_only_trans [OF _ types_only_steps(2)] types_only_steps(3)])
  moreover have "rows (ls(shown st := take 72 (ls (shown st)))) (set_index (int 72) s2)"
  proof (rule cut_step [OF assms(1) _ e(1,2)])
    show "keyboard_buffer s2 (kb_at u i) = keyboard_buffer st (kb_at u i)"
      if "0 \<le> i" "i < 127" "u = shown st \<Longrightarrow> i < int 72" for u i
      using that kb_at_eq [of i 72 u "shown st"] kb_at_eq [of i 73 u "shown st"] by (auto simp: e(3))
  qed (use assms(2) in simp)
  ultimately show ?thesis unfolding eq by (simp add: edits_def)
qed


lemma erase_tab_edits:
  assumes "ready ls st" "4 \<le> length (ls (shown st))"
  shows "edits (andthen (erase_last st) (\<lambda>st. andthen (erase_last st) (\<lambda>st. andthen (erase_last st) erase_last)))
    st (ls(shown st := take (length (ls (shown st)) - 4) (ls (shown st)))) (newline_flag st \<noteq> 0)"
proof -
  let ?xs = "ls (shown st)"
  have ext: "edits (andthen r erase_last) st (ls(shown st := butlast ys)) (newline_flag st \<noteq> 0)"
    if "edits r st (ls(shown st := ys)) (newline_flag st \<noteq> 0)" "ys \<noteq> []" for r ys
  proof (rule edits_andthen [OF that(1) assms(1)])
    fix s assume "ready (ls(shown st := ys)) s" "shown s = shown st" "newline_flag s \<noteq> 0 \<longleftrightarrow> newline_flag st \<noteq> 0"
    then show "edits (erase_last s) s (ls(shown st := butlast ys)) (newline_flag st \<noteq> 0)"
      using erase_last_edits [of "ls(shown st := ys)" s] that(2) by simp
  qed
  have "?xs \<noteq> []" "butlast ?xs \<noteq> []" "butlast (butlast ?xs) \<noteq> []" "butlast (butlast (butlast ?xs)) \<noteq> []"
    using assms(2) by (auto simp: butlast_conv_take)
  then have "edits (andthen (andthen (andthen (erase_last st) erase_last) erase_last) erase_last) st
      (ls(shown st := butlast (butlast (butlast (butlast ?xs))))) (newline_flag st \<noteq> 0)"
    by (intro ext erase_last_edits assms(1))
  moreover have "butlast (butlast (butlast (butlast ?xs))) = take (length ?xs - 4) ?xs"
  proof -
    have "butlast ys = take (length ys - 1) ys" for ys :: "u8 list" by (rule butlast_conv_take)
    then have "butlast ?xs = take (length ?xs - 1) ?xs" .
    moreover have "butlast (take k ?xs) = take (k - 1) ?xs" if "k \<le> length ?xs" for k using that by (rule butlast_take)
    ultimately show ?thesis using assms(2) by (simp add: numeral_eq_Suc)
  qed
  ultimately show ?thesis by (simp only: andthen_assoc)
qed

lemma backspace_edits:
  assumes "ready ls st" "code = BACKSPACE \<Longrightarrow> tidy (ls (shown st)) \<and> length (ls (shown st)) \<noteq> 73"
  shows "\<exists>b. edits (backspace_key code st) st
    (ls(shown st := if code = BACKSPACE then rubout (newline_flag st \<noteq> 0) (ls (shown st)) else ls (shown st))) b"
proof (cases "code = BACKSPACE \<and> ls (shown st) \<noteq> []")
  case True
  let ?xs = "ls (shown st)"
  note rp = ready_parts [OF assms(1)]
  have n: "line_index st - 1 = int (length ?xs - 1)" "0 < line_index st" "line_index st \<le> 126"
    using True rp(3,4) by (cases ?xs; simp)+
  have lc: "line_char st (line_index st - 1) = last ?xs"
    using True rows_shown(3) [OF rp(1,2), of "length ?xs - 1"] by (simp add: n(1) last_conv_nth)
  show ?thesis
    using True n(2,3) assms(2) tidy_tab [of ?xs] tidy_newline [of ?xs]
      erase_newline_edits [OF assms(1)] erase_tab_edits [OF assms(1)] erase_last_edits [OF assms(1)]
    by (auto simp: backspace_key_def lc rubout_def)
next
  case False
  have "line_index st = 0" if "ls (shown st) = []" using ready_parts(3) [OF assms(1)] that by simp
  then have "backspace_key code st = Inr st" using False by (auto simp: backspace_key_def)
  moreover have "(if code = BACKSPACE then rubout (newline_flag st \<noteq> 0) (ls (shown st)) else ls (shown st)) =
      ls (shown st)"
    using False by (auto simp: rubout_def)
  ultimately show ?thesis
    using edits_same [OF ready_parts(1) [OF assms(1)]] by (intro exI [of _ "newline_flag st \<noteq> 0"]) simp
qed

section \<open>Ending and clearing the line\<close>

text \<open>ENTER on a full line writes its NUL over the first byte of the next terminal's line.\<close>

definition entered :: "int \<Rightarrow> (int \<Rightarrow> u8 list) \<Rightarrow> int \<Rightarrow> u8 list" where
  "entered t ls u =
     (if u = t then []
      else if u = t + 1 \<and> length (ls t) = 126 \<and> ls u \<noteq> [] then 0 # tl (ls u) else ls u)"

lemma enter_run:
  assumes "ready ls st"
  defines "n \<equiv> int (length (ls (shown st)))"
  shows "\<exists>s. enter_key ENTER st = Inr s \<and> types_only st s \<and> newline_flag s = newline_flag st \<and>
    keyboard_buffer s = (keyboard_buffer st)(kb_at (shown st) n := 10, kb_at (shown st) (n + 1) := 0) \<and>
    keyboard_index s = (keyboard_index st)(shown st := 0) \<and> enter_flag s = (enter_flag st)(shown st := 1)"
proof -
  note rp = ready_parts [OF assms(1)]
  define st1 where "st1 = st\<lparr>enter_flag := (enter_flag st)(cur_terminal st - 1 := 1)\<rparr>"
  define st2 where "st2 = set_char (n + 1) 0 (set_index (n + 1) (set_char n 10 st1))"
  have ty: "types_only st st2" unfolding st2_def st1_def
    by (intro types_only_trans [OF types_only_trans [OF types_only_trans [OF types_only_steps(4,1)] types_only_steps(2)]
          types_only_steps(1)])
  obtain s where s: "putc_keyboard 10 st2 = Inr s" "same_kernel st2 s"
    using rp(5) types_only_eqs(3) [OF ty] putc_types [of st2] unfolding putc_keyboard_def by fastforce
  note k = same_kernel_keys [OF s(2)]
  have li: "line_index st1 = n" "line_index (set_index i st') = i" for i and st' :: "'a kbd_scheme"
    using rp(3) by (simp_all add: st1_def line_index_def set_index_def n_def)
  have "enter_key ENTER st = Inr (set_index 0 s)"
    unfolding enter_key_def Let_def st1_def [symmetric] li line_char_set using s(1)
    by (simp add: st2_def [symmetric])
  moreover have "types_only st (set_index 0 s)"
    by (rule types_only_trans [OF types_only_trans [OF ty k(7)] types_only_steps(2)])
  ultimately show ?thesis
    by (intro exI [of _ "set_index 0 s"])
      (simp add: set_index_def k st2_def st1_def set_char_def shown_def)
qed

lemma enter_edits:
  assumes "ready ls st"
  shows "edits (enter_key code st) st (if code = ENTER then entered (shown st) ls else ls) (newline_flag st \<noteq> 0)"
proof (cases "code = ENTER")
  case True
  let ?n = "length (ls (shown st))"
  note rp = ready_parts [OF assms]
  obtain s where s: "enter_key ENTER st = Inr s" "types_only st s" "newline_flag s = newline_flag st"
    and buf: "keyboard_buffer s = (keyboard_buffer st)(kb_at (shown st) (int ?n) := 10, kb_at (shown st) (int ?n + 1) := 0)"
    and idx: "keyboard_index s = (keyboard_index st)(shown st := 0)"
    using enter_run [OF assms] by blast
  have "rows (entered (shown st) ls) s"
    unfolding rows_def
  proof
    fix u :: int assume u: "u \<in> {0, 1, 2}"
    have h: "keyboard_index st u = int (length (ls u))" "length (ls u) \<le> 126"
      "\<And>i. i < length (ls u) \<Longrightarrow> keyboard_buffer st (kb_at u (int i)) = ls u ! i"
      using rp(1) u by (auto simp: rows_def holds_def)
    have buf_u: "keyboard_buffer s (kb_at u (int i)) = entered (shown st) ls u ! i"
      if "u \<noteq> shown st" "i < length (ls u)" for i
    proof -
      have "kb_at u (int i) \<noteq> kb_at (shown st) (int ?n)"
        using that rp(4) h(2) by (subst kb_at_eq) auto
      moreover have "kb_at u (int i) = kb_at (shown st) (int ?n + 1) \<longleftrightarrow>
          ?n = 126 \<and> u = shown st + 1 \<and> i = 0"
        using that rp(4) h(2) kb_at_eq [of "int i" "int ?n + 1" u "shown st"] kb_at_zero [of "int i" "shown st" u]
        by (cases "?n = 126") auto
      ultimately show ?thesis
        unfolding buf using h(3) [OF that(2)] that by (cases "ls u"; cases i) (auto simp: entered_def)
    qed
    have len: "length (entered (shown st) ls u) = (if u = shown st then 0 else length (ls u))"
      by (cases "ls u") (auto simp: entered_def)
    then show "holds u (entered (shown st) ls u) s \<and> length (entered (shown st) ls u) \<le> 126"
      using h(1,2) buf_u by (simp add: holds_def idx)
  qed
  then show ?thesis using True s by (simp add: edits_def)
qed (use edits_same [of ls st] ready_parts [OF assms] in \<open>simp add: enter_key_def\<close>)

lemma putc_all_types:
  fixes st :: "'a kbd_scheme"
  shows "cur_process_local st = Inr p \<Longrightarrow> \<exists>s. putc_all cs k st = Inr s \<and> same_kernel st s"
proof (induction cs arbitrary: st)
  case (Cons c cs)
  obtain s1 where s1: "putc c k st = Inr s1" "same_kernel st s1" using putc_types [OF Cons.prems] by blast
  then obtain s2 where "putc_all cs k s1 = Inr s2" "same_kernel s1 s2"
    using Cons.IH [of s1] Cons.prems cur_process_local_same [OF s1(2)] by auto
  then show ?case using s1 same_kernel_trans by auto
qed simp

lemma clear_types:
  fixes st :: "'a kbd_scheme"
  assumes "cur_process_local st = Inr p"
  shows "\<exists>s. clear st = Inr s \<and> same_kernel st s"
proof -
  define m where "m = fold (\<lambda>i m. clear_cell 0xB8000 i m) [0..<25 * 80] (vmem st)"
  define i where "i = cur_terminal st - 1"
  define s1 where "s1 = (set_vmem m st)\<lparr>screen_y := (screen_y (set_vmem m st))(i := 0)\<rparr>"
  define s2 where "s2 = update_cursor 0 0 (s1\<lparr>screen_x := (screen_x s1)(i := 0)\<rparr>)"
  have sk: "same_kernel st s2" unfolding s2_def s1_def
    by (intro update_cursor_same_kernel same_kernel_steps same_kernel_refl)
  have "clear st = (if process_id (current_pcb s2) = 1 \<or> process_id (current_pcb s2) = 2 \<or> process_id (current_pcb s2) = 3
      then putc_all [51, 57, 49, 79, 83, 62, 32] 1 s2 else Inr s2)"
    unfolding clear_def m_def [symmetric] Let_def
    by (simp add: s2_def s1_def i_def)
  moreover obtain s3 where "putc_all [51, 57, 49, 79, 83, 62, 32] 1 s2 = Inr s3" "same_kernel s2 s3"
    using putc_all_types [of s2 p] cur_process_local_same [OF sk] assms by metis
  ultimately show ?thesis using same_kernel_trans [OF sk] sk by (auto simp del: putc_all.simps)
qed

lemma fold_set_char:
  "fold (\<lambda>i st. set_char (int i) 0 st) is st =
    st\<lparr>keyboard_buffer := (\<lambda>j. if \<exists>i \<in> set is. j = kb_at (shown st) (int i) then 0 else keyboard_buffer st j)\<rparr>"
  by (induction "is" arbitrary: st) (auto simp: set_char_def shown_def fun_eq_iff)

lemma clear_edits:
  assumes "ready ls st"
  shows "edits (clear_key code st) st
    (ls(shown st := if ctrl_flag st \<noteq> 0 \<and> code = KEY_L then [] else ls (shown st))) (newline_flag st \<noteq> 0)"
proof (cases "ctrl_flag st \<noteq> 0 \<and> code = KEY_L")
  case True
  define st1 where "st1 = fold (\<lambda>i st. set_char (int i) 0 st) [0..<127] st"
  have buf: "keyboard_buffer st1 (kb_at u i) = keyboard_buffer st (kb_at u i)"
    if "0 \<le> i" "i < 127" "u \<noteq> shown st" for u i
    using that kb_at_eq [of i _ u "shown st"] by (auto simp: st1_def fold_set_char)
  have e: "keyboard_index st1 = keyboard_index st" "shown st1 = shown st" "newline_flag st1 = newline_flag st"
    "types_only st st1"
    by (simp_all add: st1_def fold_set_char shown_def types_only_def)
  have r: "rows (ls(shown st := take 0 (ls (shown st)))) (set_index (int 0) st1)"
    by (rule cut_step [OF assms _ e(1,2)]) (use buf in auto)
  have ty: "types_only st (set_index 0 st1)" by (rule types_only_trans [OF e(4) types_only_steps(2)])
  obtain p where "cur_process_local (set_index 0 st1) = Inr p"
    using ready_parts(5) [OF assms] types_only_eqs(3) [OF ty] by auto
  then obtain s where s: "clear (set_index 0 st1) = Inr s" "same_kernel (set_index 0 st1) s"
    using clear_types by blast
  note k = same_kernel_keys [OF s(2)]
  then show ?thesis
    using True s(1) r e(3) types_only_trans [OF ty k(7)]
    by (simp add: edits_def clear_key_def st1_def [symmetric] set_index_def)
qed (use edits_same [of ls st] ready_parts [OF assms] in \<open>auto simp: clear_key_def\<close>)

section \<open>One scan code\<close>

text \<open>What \<open>edit\<close> is told about the state the modifier keys leave.\<close>

definition edited :: "u8 \<Rightarrow> bool \<Rightarrow> 'a kbd_scheme \<Rightarrow> u8 list \<Rightarrow> u8 list" where
  "edited code room st =
     edit code (ctrl_flag st \<noteq> 0) (alt_flag st \<noteq> 0) (newline_flag st \<noteq> 0) room (key_char code st)"

definition lines_after :: "u8 \<Rightarrow> bool \<Rightarrow> 'a kbd_scheme \<Rightarrow> (int \<Rightarrow> u8 list) \<Rightarrow> int \<Rightarrow> u8 list" where
  "lines_after code room st ls =
     (if code = ENTER then entered (shown st) ls
      else ls(shown st := edited code room st (ls (shown st))))"

lemma modifier_frames [simp]:
  "rows ls (modifier_keys code st) = rows ls st" "shown (modifier_keys code st) = shown st"
  "cur_process_local (modifier_keys code st) = cur_process_local st"
  "newline_flag (modifier_keys code st) = newline_flag st"
  by (simp_all add: modifier_keys_def Let_def rows_def holds_def shown_def cur_process_local_def current_pcb_addr_def)

lemma update_cursor_types [simp]:
  "types_only st (update_cursor x y st)" "rows ls (update_cursor x y st) = rows ls st"
  "newline_flag (update_cursor x y st) = newline_flag st" "ready ls (update_cursor x y st) = ready ls st"
proof -
  have sk: "same_kernel st (update_cursor x y st)" by (rule update_cursor_same_kernel) simp
  note k = same_kernel_keys [OF sk]
  show "types_only st (update_cursor x y st)" "rows ls (update_cursor x y st) = rows ls st"
    "newline_flag (update_cursor x y st) = newline_flag st"
    by (rule k)+
  show "ready ls (update_cursor x y st) = ready ls st"
    using cur_process_local_same [OF sk] k by (simp add: ready_def shown_def)
qed

lemma edits_elim:
  assumes "edits r st ls b" "ready ls' st"
  shows "\<exists>s. r = Inr s \<and> types_only st s \<and> (newline_flag s \<noteq> 0 \<longleftrightarrow> b) \<and> ready ls s \<and> shown s = shown st"
proof -
  obtain s where s: "r = Inr s" "rows ls s" "types_only st s" "newline_flag s \<noteq> 0 \<longleftrightarrow> b"
    using assms(1) by (auto simp: edits_def)
  then show ?thesis using assms(2) types_only_eqs(2,3) [OF s(3)] by (simp add: ready_def)
qed

text \<open>The blocks one after the other are \<open>edit\<close>.\<close>

definition block_edit :: "u8 \<Rightarrow> bool \<Rightarrow> bool \<Rightarrow> bool \<Rightarrow> bool \<Rightarrow> u8 \<Rightarrow> u8 list \<Rightarrow> u8 list" where
  "block_edit code ctrl alt newline room c xs =
     (let b = (newline \<or> length xs = 73);
          xs = wrapped xs;
          xs = (if ctrl \<and> code = KEY_L then [] else xs);
          xs = (if code = TAB \<and> length xs + 4 < 127 \<and> room then tabbed xs else xs);
          xs = (if code = BACKSPACE then rubout b xs else xs)
      in if prints code \<and> \<not> ctrl \<and> \<not> alt \<and> length xs < 126 then xs @ [c] else xs)"

lemma not_prints: "\<not> prints ENTER" "\<not> prints TAB" "\<not> prints BACKSPACE"
  by (simp_all add: prints_def scan_codes_table_def ascii_def)

lemma block_edit_eq: "code \<noteq> ENTER \<Longrightarrow> block_edit code ctrl alt newline room c xs = edit code ctrl alt newline room c xs"
  using not_prints by (simp add: block_edit_def edit_def Let_def)

lemma block_edit_ENTER: "block_edit ENTER ctrl alt newline room c [] = []"
  using not_prints(1) by (simp add: block_edit_def wrapped_def)

lemma edit_line_blocks:
  fixes code :: u8
  assumes "ready ls st" "tidy (ls (shown st))"
  defines "c \<equiv> shown st"
  defines "l1 \<equiv> (if code = ENTER then entered c ls else ls)"
  shows "\<exists>room s. edit_line code st = Inr s \<and> types_only (modifier_keys code st) s \<and>
    rows (l1(c := block_edit code (ctrl_flag (modifier_keys code st) \<noteq> 0) (alt_flag (modifier_keys code st) \<noteq> 0)
      (newline_flag st \<noteq> 0) room (key_char code (modifier_keys code st)) (l1 c))) s"
proof -
  define s0 where "s0 = modifier_keys code st"
  define ctrl where "ctrl \<longleftrightarrow> ctrl_flag s0 \<noteq> 0"
  have r0: "ready ls s0" "shown s0 = c" using assms(1) by (simp_all add: ready_def s0_def c_def)
  obtain s1 where s1: "enter_key code s0 = Inr s1" "types_only s0 s1" "newline_flag s1 \<noteq> 0 \<longleftrightarrow> newline_flag st \<noteq> 0"
    "ready l1 s1" "shown s1 = c"
    using edits_elim [OF enter_edits [OF r0(1), of code] r0(1), unfolded r0(2), folded l1_def]
    by (auto simp: s0_def)
  define b where "b \<longleftrightarrow> newline_flag st \<noteq> 0 \<or> length (l1 c) = 73"
  obtain s2 where s2: "wrap_line s1 = Inr s2" "types_only s1 s2" "newline_flag s2 \<noteq> 0 \<longleftrightarrow> b"
    "ready (l1(c := wrapped (l1 c))) s2" "shown s2 = c"
    using edits_elim [OF wrap_edits [OF s1(4)] s1(4)] s1(3,5) by (auto simp: b_def)
  define x3 where "x3 = (if ctrl \<and> code = KEY_L then [] else wrapped (l1 c))"
  have ctrl2: "ctrl_flag s2 \<noteq> 0 \<longleftrightarrow> ctrl"
    using types_only_eqs(6) [OF types_only_trans [OF s1(2) s2(2)]] by (simp add: ctrl_def)
  obtain s3 where s3: "clear_key code s2 = Inr s3" "types_only s2 s3" "newline_flag s3 \<noteq> 0 \<longleftrightarrow> b"
    "ready (l1(c := x3)) s3" "shown s3 = c"
    using edits_elim [OF clear_edits [OF s2(4), of code] s2(4), unfolded ctrl2 s2(3,5) fun_upd_same fun_upd_upd,
        folded x3_def] by blast
  obtain room where tab: "edits (tab_key code s3) s3 ((l1(c := x3))(shown s3 :=
      if code = TAB \<and> length ((l1(c := x3)) (shown s3)) + 4 < 127 \<and> room then tabbed ((l1(c := x3)) (shown s3))
      else (l1(c := x3)) (shown s3))) (newline_flag s3 \<noteq> 0)"
    using tab_edits [OF s3(4)] by blast
  define x4 where "x4 = (if code = TAB \<and> length x3 + 4 < 127 \<and> room then tabbed x3 else x3)"
  obtain s4 where s4: "tab_key code s3 = Inr s4" "types_only s3 s4" "newline_flag s4 \<noteq> 0 \<longleftrightarrow> b"
    "ready (l1(c := x4)) s4" "shown s4 = c"
    using edits_elim [OF tab s3(4), unfolded s3(3,5) fun_upd_same fun_upd_upd, folded x4_def] by blast
  have td: "tidy x4 \<and> length x4 \<noteq> 73" if "code = BACKSPACE"
    using that assms(2) tidy_wrapped [of "ls c"] length_wrapped [of "ls c"]
    by (simp add: x4_def x3_def l1_def c_def)
  obtain b' where bs: "edits (backspace_key code s4) s4 ((l1(c := x4))(shown s4 :=
      if code = BACKSPACE then rubout (newline_flag s4 \<noteq> 0) ((l1(c := x4)) (shown s4)) else (l1(c := x4)) (shown s4))) b'"
    using backspace_edits [OF s4(4), of code] td s4(5) by auto
  define x5 where "x5 = (if code = BACKSPACE then rubout b x4 else x4)"
  obtain s5 where s5: "backspace_key code s4 = Inr s5" "types_only s4 s5" "ready (l1(c := x5)) s5" "shown s5 = c"
    using edits_elim [OF bs s4(4), unfolded s4(3,5) fun_upd_same fun_upd_upd, folded x5_def] by blast
  define s6 where "s6 = update_cursor (screen_x s5 (cur_terminal s5 - 1)) (screen_y s5 (cur_terminal s5 - 1)) s5"
  have s6: "types_only s5 s6" "ready (l1(c := x5)) s6" "shown s6 = c"
    using s5(3,4) types_only_eqs(2) [of s5 s6] by (simp_all add: s6_def)
  have ty: "types_only s0 s6"
    by (rule types_only_trans [OF types_only_trans [OF types_only_trans [OF types_only_trans [OF
          types_only_trans [OF s1(2) s2(2)] s3(2)] s4(2)] s5(2)] s6(1)])
  note flags = types_only_eqs(6-8) [OF ty]
  obtain s where s: "char_key code s6 = Inr s" "types_only s6 s"
    "rows ((l1(c := x5))(c := if prints code \<and> ctrl_flag s0 = 0 \<and> alt_flag s0 = 0 \<and> length x5 < 126
       then x5 @ [key_char code s0] else x5)) s"
    using char_edits [OF s6(2), of code] unfolding edits_def flags s6(3) fun_upd_same by blast
  have "edit_line code st = Inr s"
    using s1(1) s2(1) s3(1) s4(1) s5(1) s(1) by (simp add: edit_line_def Let_def s0_def [symmetric] s6_def)
  moreover have "block_edit code (ctrl_flag s0 \<noteq> 0) (alt_flag s0 \<noteq> 0) (newline_flag st \<noteq> 0) room (key_char code s0) (l1 c) =
      (if prints code \<and> ctrl_flag s0 = 0 \<and> alt_flag s0 = 0 \<and> length x5 < 126 then x5 @ [key_char code s0] else x5)"
    by (simp only: block_edit_def Let_def x5_def x4_def x3_def b_def ctrl_def not_not)
  ultimately show ?thesis
    using s(3) types_only_trans [OF ty s(2)]
    by (intro exI [of _ room] exI [of _ s]) (simp only: s0_def [symmetric] fun_upd_upd simp_thms)
qed

lemma edit_line_lines:
  assumes "ready ls st" "tidy (ls (shown st))"
  shows "\<exists>room s. edit_line code st = Inr s \<and> types_only (modifier_keys code st) s \<and>
    rows (lines_after code room (modifier_keys code st) ls) s"
proof (cases "code = ENTER")
  case True
  have "entered c ls c = []" "(entered c ls)(c := []) = entered c ls" for c
    by (auto simp: entered_def fun_eq_iff)
  then show ?thesis
    using edit_line_blocks [OF assms, of code] unfolding True if_True block_edit_ENTER
    by (simp add: lines_after_def block_edit_ENTER)
next
  case False
  then show ?thesis
    using edit_line_blocks [OF assms, of code] block_edit_eq [OF False]
    by (simp add: lines_after_def edited_def)
qed

end
