(* ===== verification/DeviceProps.thy ===== *)
theory DeviceProps imports Example begin

text \<open>
  What the screen, the terminal, the real-time clock and the timer promise.
\<close>

section \<open>The screen as text\<close>

definition text_at :: "mem \<Rightarrow> addr \<Rightarrow> nat \<Rightarrow> u8" where
  "text_at m base i = m (base + of_nat (2 * i))"

definition screen_rows :: "mem \<Rightarrow> addr \<Rightarrow> u8 list list" where
  "screen_rows m base = map (\<lambda>y. map (\<lambda>x. text_at m base (80 * y + x)) [0..<80]) [0..<25]"

text \<open>The abstract terminal: a line feed moves on or scrolls, another character replaces one.\<close>

definition type_char :: "u8 \<Rightarrow> nat \<Rightarrow> nat \<Rightarrow> u8 list list \<Rightarrow> u8 list list" where
  "type_char c x y rows =
     (if c = 10 \<or> c = 13 then (if y = 24 then tl rows @ [replicate 80 32] else rows)
      else rows[y := (rows ! y)[x := c]])"

lemma rows_nth: "y < 25 \<Longrightarrow> x < 80 \<Longrightarrow> screen_rows m base ! y ! x = text_at m base (80 * y + x)"
  by (simp add: screen_rows_def)

lemma rows_eqI:
  assumes "length rows = 25" "\<And>y. y < 25 \<Longrightarrow> length (rows ! y) = 80"
    and "\<And>x y. y < 25 \<Longrightarrow> x < 80 \<Longrightarrow> text_at m base (80 * y + x) = rows ! y ! x"
  shows "screen_rows m base = rows"
  using assms by (intro nth_equalityI) (auto simp: screen_rows_def intro!: nth_equalityI)

lemma cell_index:
  assumes "x < 80" "y < 25" "x' < 80" "y' < (25 :: nat)"
  shows "80 * y + x = 80 * y' + x' \<longleftrightarrow> x = x' \<and> y = y'"
proof -
  have dm: "(80 * y + x) div 80 = y" "(80 * y + x) mod 80 = x" if "x < 80" for x y :: nat
    using that by simp_all
  show ?thesis using dm [OF assms(1), of y] dm [OF assms(3), of y'] by metis
qed

lemma text_at_store:
  fixes base :: addr
  assumes "i < 2000" "k < 2000"
  defines "cell \<equiv> base + of_nat (2 * k)"
  shows "text_at (m(cell := c, cell + 1 := a)) base i = (if i = k then c else text_at m base i)"
proof -
  have "base + of_nat (2 * i) = cell \<longleftrightarrow> i = k"
    using assms(1,2) of_nat_eq_u32 [of "2 * i" "2 * k"] by (simp add: cell_def)
  moreover have "base + of_nat (2 * i) \<noteq> cell + 1"
  proof -
    have "2 * i \<noteq> 2 * k + 1" by presburger
    then have "(of_nat (2 * i) :: u32) \<noteq> of_nat (2 * k + 1)"
      using assms(1,2) of_nat_eq_u32 [of "2 * i" "2 * k + 1"] by simp
    then show ?thesis by (simp add: cell_def algebra_simps)
  qed
  ultimately show ?thesis by (simp add: text_at_def)
qed

lemma nth_pairs: "j < n \<Longrightarrow> concat (replicate n [a, b]) ! (2 * j) = a"
proof (induction n arbitrary: j)
  case (Suc n)
  then show ?case by (cases j) simp_all
qed simp

lemma text_at_scrolled:
  assumes "i < 2000"
  shows "text_at (scrolled base m) base i = (if i < 1920 then text_at m base (i + 80) else 32)"
proof -
  let ?B = "bytes m (base + 160) 3840 @ concat (replicate 80 [32, 7])"
  have len: "length ?B = 4000" by (simp add: length_concat sum_list_replicate)
  have "text_at (scrolled base m) base i = ?B ! (2 * i)"
    unfolding text_at_def scrolled_def using assms len by (intro write_bytes_nth) simp_all
  also have "\<dots> = (if i < 1920 then text_at m base (i + 80) else 32)"
  proof (cases "i < 1920")
    case True
    then show ?thesis by (simp add: nth_append text_at_def algebra_simps)
  next
    case False
    then have "2 * i - 3840 = 2 * (i - 1920)" "i - 1920 < 80" using assms by auto
    then show ?thesis using False nth_pairs [of "i - 1920" 80] by (simp add: nth_append)
  qed
  finally show ?thesis .
qed

lemma put_on_text:
  assumes "on_screen i st"
  defines "x \<equiv> nat (screen_x st i)" and "y \<equiv> nat (screen_y st i)"
  shows "screen_rows (vmem (put_on base i shown c st)) base = type_char c x y (screen_rows (vmem st) base)"
proof -
  have xy: "x < 80" "y < 25" "screen_x st i = int x" "screen_y st i = int y"
    using assms(1) by (auto simp: on_screen_def x_def y_def)
  show ?thesis
  proof (cases "c = 10 \<or> c = 13")
    case True
    show ?thesis
    proof (cases "y = 24")
      case scroll: True
      have "vmem (put_on base i shown c st) = scrolled base (vmem st)"
        using put_on_newline(1) [OF True assms(1)] xy(4) scroll by simp
      moreover have "screen_rows (scrolled base (vmem st)) base =
          tl (screen_rows (vmem st) base) @ [replicate 80 32]"
      proof (rule rows_eqI)
        fix x y :: nat assume b: "y < 25" "x < 80"
        then have "80 * y + x < 1920 \<longleftrightarrow> y < 24" by linarith
        then show "text_at (scrolled base (vmem st)) base (80 * y + x) =
            (tl (screen_rows (vmem st) base) @ [replicate 80 32]) ! y ! x"
          using b text_at_scrolled [of "80 * y + x" base "vmem st"]
          by (auto simp: nth_append nth_tl screen_rows_def less_Suc_eq algebra_simps)
      qed (auto simp: screen_rows_def nth_append nth_tl less_Suc_eq)
      ultimately show ?thesis using True scroll by (simp add: type_char_def)
    next
      case False
      then show ?thesis
        using put_on_newline(1) [OF True assms(1)] xy(4) True by (simp add: type_char_def)
    qed
  next
    case False
    have cell: "of_int ((80 * int y + int x) * 2) = (of_nat (2 * (80 * y + x)) :: u32)" by simp
    have v: "vmem (put_on base i shown c st) =
        (vmem st)(base + of_nat (2 * (80 * y + x)) := c, base + of_nat (2 * (80 * y + x)) + 1 := 7)"
      using put_on_char(1) [OF _ _ assms(1), of c base shown] False unfolding xy(3,4) cell by simp
    have "screen_rows (vmem (put_on base i shown c st)) base =
        (screen_rows (vmem st) base)[y := (screen_rows (vmem st) base ! y)[x := c]]"
    proof (rule rows_eqI)
      fix x' y' :: nat assume b: "y' < 25" "x' < 80"
      have "text_at (vmem (put_on base i shown c st)) base (80 * y' + x') =
          (if 80 * y' + x' = 80 * y + x then c else text_at (vmem st) base (80 * y' + x'))"
        unfolding v using b xy(1,2) by (intro text_at_store) linarith+
      then show "text_at (vmem (put_on base i shown c st)) base (80 * y' + x') =
          (screen_rows (vmem st) base)[y := (screen_rows (vmem st) base ! y)[x := c]] ! y' ! x'"
        using b xy(1,2) cell_index [OF b(2,1) xy(1,2)]
        by (auto simp: rows_nth nth_list_update screen_rows_def)
    qed (use xy(1,2) in \<open>auto simp: screen_rows_def nth_list_update\<close>)
    then show ?thesis using False by (simp add: type_char_def)
  qed
qed

section \<open>Releasing readers of the clock\<close>

lemma window_mono: "\<exists>i < n. P i \<Longrightarrow> n \<le> (k :: nat) \<Longrightarrow> \<exists>i < k. P i"
  by (meson order_less_le_trans)

lemma rtc_ticks_release:
  assumes "rtc_rate_ok st" "unat (rtc_period st) \<le> n"
  shows "\<exists>st'. rtc_ticks n st = Inr st' \<and> rtc_flag st' (get_current_process st) = 0"
proof -
  let ?p = "get_current_process st"
  have "rtc_period st \<noteq> 0" using assms(1) by (simp add: rtc_rate_ok_def)
  then have "\<exists>i < n. (rtc_counter st ?p + of_nat i) mod rtc_period st = 0"
    using multiple_in_window assms(2) by (intro window_mono [OF _ assms(2)]) blast
  moreover obtain st' where st': "rtc_ticks n st = Inr st'"
    "rtc_flag st' ?p = (if \<exists>i < n. (rtc_counter st ?p + of_nat i) mod rtc_period st = 0 then 0 else rtc_flag st ?p)"
    using rtc_ticks_flag [OF assms(1) refl, of n] by blast
  ultimately have "rtc_flag st' ?p = 0" by (simp only: if_True)
  then show ?thesis using st'(1) by blast
qed

lemma rtc_write_cases:
  "rtc_write buf st =
    (if rtc_accepts (read32 (vmem st) buf)
     then (sti ((cli st)\<lparr>rtc_freq := (rtc_freq st)(get_current_process st := read32 (vmem st) buf)\<rparr>), 0)
     else (cli st, - 1))"
proof -
  define freq where "freq = read32 (vmem st) buf"
  let ?pow = "0 < freq \<and> freq AND (freq - 1) = 0"
  have "?pow \<and> 3 \<le> rtc_rate 32768 freq 1 \<and> rtc_rate 32768 freq 1 \<le> 15 \<longleftrightarrow> rtc_accepts freq"
  proof
    assume a: "?pow \<and> 3 \<le> rtc_rate 32768 freq 1 \<and> rtc_rate 32768 freq 1 \<le> 15"
    then obtain j where "j < 32" "unat freq = 2 ^ j" using power_of_two_test [of freq] by blast
    then show "rtc_accepts freq" using a rtc_rate_accepts rtc_accepts_power by blast
  next
    assume "rtc_accepts freq"
    then obtain j where j: "1 \<le> j" "j \<le> 13" "unat freq = 2 ^ j" using rtc_accepts_power by blast
    then have "j < 32" by simp
    then show "?pow \<and> 3 \<le> rtc_rate 32768 freq 1 \<and> rtc_rate 32768 freq 1 \<le> 15"
      using power_of_two_test [of freq] rtc_rate_accepts [OF j(3)] j by blast
  qed
  then show ?thesis
    unfolding rtc_write_def freq_def [symmetric] Let_def flag_frames freq_def [symmetric]
    by (auto simp: not_less)
qed

section \<open>Writing to the terminal\<close>

lemma consoles_ok_cli [simp]: "consoles_ok (cli st) = consoles_ok st"
  "cur_process_local (cli st) = cur_process_local st" "output_page k (cli st) p = output_page k st p"
  by (simp_all add: consoles_ok_def on_screen_def cli_def cur_process_local_def output_page_def
      current_pcb_addr_def)

lemma terminal_write_ok:
  assumes "consoles_ok st" "cur_process_local st = Inr p" "1 \<le> p" "p \<le> 3"
    and "0 < n" "n < 2147483648" "buffer \<noteq> 0" "apart (output_page 0 st p) 4000 buffer n"
  obtains st' where "terminal_write buffer (int n) st = Inr (sti st', int n)"
    "putc_all (expand_tabs (bytes (vmem st) buffer n)) 0 (cli st) = Inr st'" "consoles_ok st'"
    "same_kernel (cli st) st'" "\<And>a. \<not> inside (output_page 0 st p) 4000 a \<Longrightarrow> vmem st' a = vmem st a"
proof -
  let ?s = "cli st" and ?cs = "expand_tabs (bytes (vmem st) buffer n)"
  obtain st' where st': "putc_all ?cs 0 ?s = Inr st'" "consoles_ok st'" "same_kernel ?s st'"
    "\<forall>a. \<not> inside (output_page 0 ?s p) 4000 a \<longrightarrow> vmem st' a = vmem ?s a"
    using putc_all_confined [of ?s p ?cs 0] assms(1-4) by auto
  have "terminal_write_loop buffer (int n) 0 ?s = Inr (st', int n)"
    using terminal_write_loop_bytes [of ?s p 0 n n buffer] assms st'(1) by simp
  then have "terminal_write buffer (int n) st = Inr (sti st', int n)"
    using assms(5,7) by (simp add: terminal_write_def Let_def)
  then show ?thesis using that st' by simp
qed

section \<open>Properties\<close>

text \<open>C14: \<open>putc\<close> refines typing on a text screen.  Seen as 25 rows of 80 characters, the page of the
  terminal the process belongs to, displayed or hidden, changes in exactly one way: a line feed or
  carriage return moves to the next row and scrolls from the last one, any other character replaces the
  one under the cursor, which then moves right and wraps to the start of the same row; nothing outside
  the page changes.\<close>

theorem putc_text:
  assumes "consoles_ok st" "cur_process_local st = Inr p" "1 \<le> p" "p \<le> 3"
  shows "\<exists>st'. putc c 0 st = Inr st' \<and>
    screen_rows (vmem st') (output_page 0 st p) =
      type_char c (nat (screen_x st (p - 1))) (nat (screen_y st (p - 1))) (screen_rows (vmem st) (output_page 0 st p)) \<and>
    (screen_x st' (p - 1), screen_y st' (p - 1)) =
      (if c = 10 \<or> c = 13 then (0, min 24 (screen_y st (p - 1) + 1))
       else (if screen_x st (p - 1) = 79 then 0 else screen_x st (p - 1) + 1, screen_y st (p - 1))) \<and>
    (\<forall>a. \<not> inside (output_page 0 st p) 4000 a \<longrightarrow> vmem st' a = vmem st a)"
proof -
  let ?sh = "cur_terminal st = p" and ?base = "output_page 0 st p"
  have i: "on_screen (p - 1) st" by (rule consoles_ok_screen [OF assms(1,3,4)])
  have eq: "putc c 0 st = Inr (put_on ?base (p - 1) ?sh c st)"
    by (simp add: putc_def assms(2) output_page_def page_base_def)
  show ?thesis
    unfolding eq
    using put_on_text [OF i] put_on_outside [OF i] put_on_newline(2,3) [OF _ i] put_on_char(2,3) [OF _ _ i]
    by (intro exI conjI refl allI impI) (cases "c = 10 \<or> c = 13"; auto)+
qed

text \<open>C31: \<open>terminal_write\<close> prints every byte of the buffer on the page of the process's own terminal, a
  tab as one blank, changes no memory outside that page and nothing else of the kernel but cursors, and
  returns the number of bytes.\<close>

theorem terminal_write_prints:
  assumes "consoles_ok st" "cur_process_local st = Inr p" "1 \<le> p" "p \<le> 3"
    and "0 < n" "n < 2147483648" "buffer \<noteq> 0" "apart (output_page 0 st p) 4000 buffer n"
  shows "\<exists>st'. terminal_write buffer (int n) st = Inr (sti st', int n) \<and>
    putc_all (expand_tabs (bytes (vmem st) buffer n)) 0 (cli st) = Inr st' \<and> same_kernel (cli st) st' \<and>
    consoles_ok st' \<and> (\<forall>a. \<not> inside (output_page 0 st p) 4000 a \<longrightarrow> vmem st' a = vmem st a)"
  using terminal_write_ok [OF assms] by metis

text \<open>C32: when the wait for ENTER is over and the displayed terminal's line buffer holds a line, with its
  line feed and a NUL behind it, \<open>terminal_read\<close> stores the line in the caller's buffer, cut to its size,
  and returns the length of the line, or one less than the size of a buffer too small for line and NUL,
  unless the byte at index 127, which is the first of the next terminal's line, is a line feed: then the
  result is one more and this byte is cleared.\<close>

theorem terminal_read_line:
  assumes "wait (st\<lparr>enter_flag := (enter_flag st)(cur_process st - 1 := 0)\<rparr>) = Some s"
    and "enter_flag s (cur_process s - 1) \<noteq> 0" "0 < nb"
    and "list_all (\<lambda>j. keyboard_buffer s (kb_at (cur_terminal s - 1) (int j)) = str ! j \<and> str ! j \<noteq> 0) [0..<length str]"
    and "keyboard_buffer s (kb_at (cur_terminal s - 1) (int (length str))) = 0"
  shows "terminal_read wait buffer nb st =
    (let s' = set_vmem (write_bytes (vmem s) buffer (take (nat nb) (str @ [0]))) s;
         next = kb_at (cur_terminal s - 1) 127;
         n = min nb (int (length str) + 1) - 1
     in if keyboard_buffer s next = 10
        then Inr (s'\<lparr>keyboard_buffer := (keyboard_buffer s)(next := 0)\<rparr>, n + 1) else Inr (s', n))"
  using assms terminal_copy_line [of 0 nb str "keyboard_buffer s" "cur_terminal s - 1" buffer "vmem s"]
  by (simp add: terminal_read_def list_all_iff Let_def set_vmem_def)

text \<open>\<open>rtc_write\<close> accepts exactly the powers of two from 2 to 8192 as frequency of the terminal whose
  process runs; anything else leaves every frequency as it was, returns -1 and leaves interrupts off.\<close>

theorem rtc_write_accepts:
  "(let freq = read32 (vmem st) buf; (st', r) = rtc_write buf st in
    r = (if rtc_accepts freq then 0 else - 1) \<and> int_flag st' = rtc_accepts freq \<and>
    rtc_freq st' = (if rtc_accepts freq then (rtc_freq st)(get_current_process st := freq) else rtc_freq st))"
  by (simp add: rtc_write_cases Let_def sti_def)

text \<open>The clock's interrupt handler divides by zero exactly when the frequency of the terminal whose
  process runs, times the number of booted terminals, is 0 or more than the 1024 interrupts per second:
  three of the frequencies \<open>rtc_write\<close> accepts are more than that with one terminal already.\<close>

theorem rtc_handler_faults:
  "RTC_handler st = Inl DivideError \<longleftrightarrow>
    (let rate = rtc_freq st (get_current_process st) * processes_active (base_shell_booted_bitmask st)
     in rate = 0 \<or> 1024 < rate)"
proof -
  have "1024 div rate = 0 \<longleftrightarrow> 1024 < rate" if "rate \<noteq> 0" for rate :: u32
  proof -
    have "1024 div rate = 0 \<longleftrightarrow> unat (1024 div rate) = 0" by (metis unat_0 unat_eq_0)
    also have "\<dots> \<longleftrightarrow> 1024 div unat rate = 0" by (simp add: unat_div)
    also have "\<dots> \<longleftrightarrow> 1024 < unat rate" using that by (simp add: div_eq_0_iff unat_eq_0)
    finally show ?thesis by (simp add: word_less_nat_alt)
  qed
  then show ?thesis by (simp add: RTC_handler_def Let_def)
qed

text \<open>C27: a reader of the clock is released: as soon as there are as many interrupts, while its terminal
  has the processor, as one period of its frequency is long, the flag its wait loop spins on is clear,
  wherever the counter starts and also when it wraps around.\<close>

theorem rtc_reader_released:
  assumes "rtc_rate_ok st" "unat (rtc_period st) \<le> n"
  shows "\<exists>st'. rtc_ticks n st = Inr st' \<and> rtc_flag st' (get_current_process st) = 0"
  by (rule rtc_ticks_release [OF assms])

text \<open>C7: the timer keeps the scheduler's invariant.  Taken while the running process is on its own
  kernel stack, an interrupt passes the processor to the next booted terminal in turn: the process on top
  of its stack runs, on its own kernel stack and with its own user page, the interrupted process can be
  resumed, the control blocks change in nothing but the frame saved in the interrupted process's, and
  only when the terminal changes, and the interrupt is acknowledged once.\<close>

theorem scheduler_switches:
  assumes "sched_inv threads st" "on_stack_of (last (threads (cur_process st))) (ebp st + 8)"
  shows "\<exists>st'. pit_handler g v st = Inr st' \<and> sched_inv threads st' \<and>
    cur_process st' = next_process (base_shell_booted_bitmask st) (cur_process st) \<and>
    running st' (last (threads (cur_process st'))) \<and> out_log st' = out_log st @ [(0x20, 0x60)] \<and>
    pcbs st' = (if cur_process st' = cur_process st then pcbs st
      else (let p = pcb_at (last (threads (cur_process st)))
            in (pcbs st)(p := (pcbs st p)\<lparr>sched_ebp := ebp st\<rparr>)))"
proof -
  obtain st' where st': "pit_handler g v st = Inr st'" "sched_inv threads st'"
    "cur_process st' = next_process (base_shell_booted_bitmask st) (cur_process st)"
    "out_log st' = out_log st @ [(0x20, 0x60)]"
    using pit_keeps_inv [OF assms, of g v] by blast
  then have "running st' (last (threads (cur_process st')))" by (simp add: sched_inv_def)
  then show ?thesis
    unfolding Let_def using st' pit_keeps_blocks [OF assms(1) st'(1)] by (intro exI [of _ st'] conjI)
qed

text \<open>The user video page the timer maps at a switch: frame 0xB8, the screen, for the displayed
  terminal; for another terminal \<open>t\<close> frame 0xB8000 + \<open>t\<close>, the byte address of the screen taken for a
  frame number, and not frame 0xB8 + \<open>t\<close>, the hidden page \<open>putc\<close> writes.\<close>

theorem switch_video_page:
  assumes "sched_inv threads st" "on_stack_of (last (threads (cur_process st))) (ebp st + 8)"
    and "pit_handler g v st = Inr st'" "cur_process st' \<noteq> cur_process st"
  shows "drop_bit 12 (pt_vidmap st' 0) =
    (if cur_terminal st = cur_process st' then 0xB8 else 0xB8000 + of_int (cur_process st')) \<and>
    (cur_terminal st \<noteq> cur_process st' \<longrightarrow> drop_bit 12 (pt_vidmap st' 0) \<noteq> 0xB8 + of_int (cur_process st'))"
proof -
  let ?t = "cur_process st'"
  have k: "sched_inv threads st'" "pt_vidmap st' 0 =
      user_vidmem_entry v (if cur_terminal st = ?t then 0xB8000 div 4096 else 0xB8000 + of_int ?t)"
    using pit_keeps_inv [OF assms(1,2), of g v] assms(3,4) by auto
  have "?t = 1 \<or> ?t = 2 \<or> ?t = 3" using k(1) booted_cases by (auto simp: sched_inv_def)
  moreover have "drop_bit 12 (user_vidmem_entry v n) = take_bit 20 n" for n
    unfolding user_vidmem_entry_def Let_def by (rule bit_word_eqI) (auto simp: bitfield_simps bit_simps)
  ultimately show ?thesis
    unfolding k(2) by (auto simp: take_bit_eq_mod)
qed

section \<open>Witnesses\<close>

lemma system_console: "consoles_ok (system_state t)" "cur_process_local (system_state 1) = Inr 1"
proof -
  show "consoles_ok (system_state t)" by (simp add: consoles_ok_def on_screen_def system_fields)
  have "get_base_process_pcb (pcbs (system_state 1)) 0x7F6000 = Some 0x7FC000"
    using get_base_chain [OF system_chains(1) [of 1], of 1] by (simp add: pcb_at_numerals)
  then show "cur_process_local (system_state 1) = Inr 1"
    by (simp add: cur_process_local_def system_fields system_current system_pcbs system_pcb_def)
qed

lemma system_page: "output_page 0 (system_state t) 1 = 0xB8000"
  by (simp add: output_page_def page_base_def system_fields)

lemma system_stacks:
  "on_stack_of (last (system_threads (cur_process (system_state 1)))) (ebp (system_state 1) + 8)"
  "on_stack_of (last (system_threads (cur_process (system_state 2)))) (ebp (system_state 2) + 8)"
  by (simp_all add: system_fields system_threads_def on_stack_of_def pcb_at_numerals)

lemma screen_size: "length (screen_rows m base) = 25" "y < 25 \<Longrightarrow> length (screen_rows m base ! y) = 80"
  by (simp_all add: screen_rows_def)

lemma system_tops: "last (system_threads 1) = 4" "last (system_threads 2) = 2"
  by (simp_all add: system_threads_def)

lemma system_next: "next_process 3 1 = 2" "next_process 3 2 = 1"
  by (simp_all add: next_process_def)

lemma putc_text_witness:
  "\<exists>st'. putc 65 0 (system_state 1) = Inr st' \<and> screen_rows (vmem st') 0xB8000 ! 0 ! 0 = 65 \<and> screen_x st' 0 = 1"
  using putc_text [OF system_console, of 65]
  by (auto simp: system_page system_fields type_char_def screen_size)

lemma terminal_write_prints_witness:
  "\<exists>st'. terminal_write 0x500000 3 (system_state 1) = Inr (sti st', 3) \<and> consoles_ok st'"
  using terminal_write_prints [OF system_console, of 3 "0x500000"]
  by (auto simp: system_page apart_def)

lemma terminal_read_line_witness:
  "terminal_read (\<lambda>s. Some (s\<lparr>enter_flag := \<lambda>_. 1\<rparr>)) 0x600000 10 (system_state 1) =
    Inr (set_vmem (write_bytes system_image 0x600000 [104, 105, 10, 0]) ((system_state 1)\<lparr>enter_flag := \<lambda>_. 1\<rparr>), 3)"
proof -
  have v: "vmem (s\<lparr>enter_flag := f\<rparr>) = vmem s" for s :: kernel and f
    by (simp add: vmem_def remap_def user_mapped_def fun_eq_iff)
  have k: "keyboard_buffer (system_state 1) = (\<lambda>_. 0)(0 := 104, 1 := 105, 2 := 10)"
    by (simp add: system_state_def set_vmem_def)
  show ?thesis
    using terminal_read_line [of "\<lambda>s. Some (s\<lparr>enter_flag := \<lambda>_. 1\<rparr>)" "system_state 1"
        "(system_state 1)\<lparr>enter_flag := \<lambda>_. 1\<rparr>" 10 "[104, 105, 10]" "0x600000"]
    by (simp add: v k system_vmem system_fields kb_at_def upt_rec)
qed

lemma rtc_reader_released_witness:
  "\<exists>st'. rtc_ticks 256 (system_state 1) = Inr st' \<and> rtc_flag st' 0 = 0"
proof -
  have p: "rtc_period (system_state 1) = 256"
    by (simp add: rtc_period_def system_fields processes_active_def upt_rec)
  have "rtc_rate_ok (system_state 1)"
    unfolding rtc_rate_ok_def p by (simp add: system_fields processes_active_def upt_rec)
  from rtc_reader_released [OF this, of 256] show ?thesis
    by (simp add: p get_current_process_def system_fields)
qed

lemma scheduler_switches_witness:
  "\<exists>st'. pit_handler 0 0 (system_state 1) = Inr st' \<and> sched_inv system_threads st' \<and> running st' 2 \<and>
    files (pcbs st' (pcb_at 4)) = files (pcbs (system_state 1) (pcb_at 4))"
  using scheduler_switches [OF system_inv(1) system_stacks(1), of 0 0]
  by (auto simp: system_fields system_next system_tops Let_def)

lemma switch_video_page_witness:
  "\<exists>st'. pit_handler 0 0 (system_state 1) = Inr st' \<and> drop_bit 12 (pt_vidmap st' 0) = 0xB8002"
proof -
  obtain st' where "pit_handler 0 0 (system_state 1) = Inr st'" "cur_process st' = 2"
    using pit_keeps_inv [OF system_inv(1) system_stacks(1), of 0 0] by (auto simp: system_fields system_next)
  then show ?thesis
    using switch_video_page [OF system_inv(1) system_stacks(1), of 0 0 st'] by (simp add: system_fields)
qed

end
