(* ===== verification/KeyboardProps.thy ===== *)
theory KeyboardProps imports LineEditor DeviceProps begin

text \<open>
  The keyboard's invariant, that the handler keeps it, and its properties; and what a process reads
  when a line was typed.
\<close>

section \<open>The state of the keyboard\<close>

definition line_of :: "'a kbd_scheme \<Rightarrow> int \<Rightarrow> u8 list" where
  "line_of st t = map (\<lambda>i. keyboard_buffer st (kb_at t (int i))) [0..<nat (keyboard_index st t)]"

definition lines_ok :: "'a kbd_scheme \<Rightarrow> bool" where
  "lines_ok st \<longleftrightarrow> 1 \<le> cur_terminal st \<and> cur_terminal st \<le> 3 \<and>
     list_all (\<lambda>t. 0 \<le> keyboard_index st t \<and> tidy (line_of st t)) [0, 1, 2]"

lemma shown_range: "1 \<le> cur_terminal st \<Longrightarrow> cur_terminal st \<le> 3 \<Longrightarrow> shown st \<in> {0, 1, 2}"
  by (auto simp: shown_def)

lemma rows_line_of: "rows ls st \<Longrightarrow> t \<in> {0, 1, 2} \<Longrightarrow> line_of st t = ls t"
  by (auto simp: rows_def holds_def line_of_def intro!: nth_equalityI)

lemma lines_ok_rows: "lines_ok st \<Longrightarrow> rows (line_of st) st"
  by (auto simp: lines_ok_def rows_def holds_def line_of_def tidy_def)

lemma rows_lines_ok:
  "rows ls st \<Longrightarrow> 1 \<le> cur_terminal st \<Longrightarrow> cur_terminal st \<le> 3 \<Longrightarrow> (\<And>t. t \<in> {0, 1, 2} \<Longrightarrow> tidy (ls t)) \<Longrightarrow> lines_ok st"
  using rows_line_of [of ls st] by (auto simp: lines_ok_def rows_def holds_def)

lemma tables_print:
  "9 \<notin> set scan_codes_table" "10 \<notin> set scan_codes_table" "9 \<notin> set scan_codes_table_shift"
  "10 \<notin> set scan_codes_table_shift" "9 \<notin> set scan_codes_table_caps" "10 \<notin> set scan_codes_table_caps"
  "length scan_codes_table = 58" "length scan_codes_table_shift = 58" "length scan_codes_table_caps = 58"
  by (simp_all add: scan_codes_table_def scan_codes_table_shift_def scan_codes_table_caps_def ascii_def)

lemma key_char_prints: "code < 58 \<Longrightarrow> key_char code st \<noteq> 9 \<and> key_char code st \<noteq> 10"
proof -
  assume "code < 58"
  then have "unat code < 58" by (simp add: word_less_nat_alt)
  then have "scan_codes_table ! unat code \<in> set scan_codes_table"
    "scan_codes_table_shift ! unat code \<in> set scan_codes_table_shift"
    "scan_codes_table_caps ! unat code \<in> set scan_codes_table_caps"
    by (simp_all add: tables_print)
  then show ?thesis unfolding key_char_def using tables_print(1-6) by metis
qed

lemma edit_no_char: "\<not> prints code \<Longrightarrow> edit code ctrl alt newline room c xs = edit code ctrl alt newline room 0 xs"
  by (simp add: edit_def)

lemma tidy_edited:
  assumes "tidy xs"
  shows "tidy (edited code room st xs)"
proof (cases "prints code")
  case True
  then show ?thesis
    using key_char_prints [of code st] tidy_edit [OF assms] by (simp add: edited_def prints_def)
next
  case False
  then show ?thesis
    unfolding edited_def by (subst edit_no_char) (simp_all add: tidy_edit [OF assms])
qed

lemma tidy_entered: "tidy (ls u) \<Longrightarrow> tidy (entered t ls u)"
  by (auto simp: entered_def tidy_zero)

lemma edit_line_ok:
  assumes "lines_ok st" "cur_process_local st = Inr p"
  shows "\<exists>room s. edit_line code st = Inr s \<and> types_only (modifier_keys code st) s \<and> lines_ok s \<and>
    list_all (\<lambda>t. line_of s t = lines_after code room (modifier_keys code st) (line_of st) t) [0, 1, 2]"
proof -
  have ct: "1 \<le> cur_terminal st" "cur_terminal st \<le> 3" and td: "\<And>t. t \<in> {0, 1, 2} \<Longrightarrow> tidy (line_of st t)"
    using assms(1) by (auto simp: lines_ok_def)
  have "ready (line_of st) st"
    using lines_ok_rows [OF assms(1)] shown_range [OF ct] assms(2) by (simp add: ready_def)
  moreover have "tidy (line_of st (shown st))" using td shown_range [OF ct] by blast
  ultimately obtain room s where s: "edit_line code st = Inr s" "types_only (modifier_keys code st) s"
    "rows (lines_after code room (modifier_keys code st) (line_of st)) s"
    using edit_line_lines by blast
  have "cur_terminal s = cur_terminal st"
    using types_only_eqs(1) [OF s(2)] by (simp add: modifier_keys_def Let_def)
  moreover have "tidy (lines_after code room (modifier_keys code st) (line_of st) t)" if "t \<in> {0, 1, 2}" for t
    using td that shown_range [OF ct] by (auto simp: lines_after_def tidy_edited tidy_entered)
  ultimately have "lines_ok s" using rows_lines_ok [OF s(3)] ct by simp
  then show ?thesis using s rows_line_of [OF s(3)] by (intro exI [of _ room] exI [of _ s]) simp
qed


section \<open>Starting a program leaves the lines alone\<close>

definition same_lines :: "'a kbd_scheme \<Rightarrow> 'a kbd_scheme \<Rightarrow> bool" where
  "same_lines s t \<longleftrightarrow> keyboard_buffer t = keyboard_buffer s \<and> keyboard_index t = keyboard_index s \<and>
     cur_terminal t = cur_terminal s"

lemma same_lines_ok: "same_lines s t \<Longrightarrow> lines_ok t = lines_ok s"
  by (simp add: same_lines_def lines_ok_def line_of_def)

lemma same_lines_trans: "same_lines s t \<Longrightarrow> same_lines t u \<Longrightarrow> same_lines s u"
  by (simp add: same_lines_def)

lemma set_vmem_lines [simp]:
  "keyboard_buffer (set_vmem m s) = keyboard_buffer s" "keyboard_index (set_vmem m s) = keyboard_index s"
  by (simp_all add: set_vmem_def)

lemma find_executable_lines:
  assumes "find_executable l cu st = Inr (s, r)"
  shows "same_lines st s"
proof -
  obtain m i q where q: "copy_file_name (bytes (vmem st) cu 128) (at_file_name l) 0 (vmem st) = Inr (m, i)"
    "read_dentry_by_name m (g_boot_block st) (at_file_name l) = Inr q"
    using assms by (auto simp: find_executable_def Let_def andthen_eq_Inr)
  show ?thesis
  proof (cases q)
    case None
    then show ?thesis
      using assms by (auto simp: find_executable_def Let_def q same_lines_def)
  next
    case (Some kd)
    obtain m' n where "read_data (fs_ptrs st) (inode_num (snd kd)) 0 (at_file_metadata l) 28 m = (m', n)"
      by fastforce
    then show ?thesis
      using assms Some by (cases kd) (auto simp: find_executable_def Let_def q same_lines_def split: if_split_asm)
  qed
qed

lemma choose_process_lines: "choose_process b n st = (s, r) \<Longrightarrow> same_lines st s"
  by (auto simp: choose_process_def secondary_process_def Let_def same_lines_def
      split: option.splits prod.splits if_splits)

lemma load_program_lines: "same_lines st (load_program g n k st)"
  by (simp add: load_program_def Let_def same_lines_def set_vmem_def map_process_def flush_tlb_def write_pdt_def
      split: prod.split)

lemma setup_pcb_lines: "setup_pcb a n b c i f st = Inr s \<Longrightarrow> same_lines st s"
  by (auto simp: setup_pcb_def Let_def andthen_eq_Inr same_lines_def update_pcb_def of_loop_eq_Inr split: if_splits)

lemma execute_lines: "execute l cu st = Inr (s, To_user f) \<Longrightarrow> same_lines st s"
proof -
  assume run: "execute l cu st = Inr (s, To_user f)"
  define s0 where "s0 = cli (st\<lparr>ebp := frame_pointer l\<rparr>)"
  obtain s1 c i k where f: "find_executable l cu s0 = Inr (s1, Some (c, i, k))"
    using run by (auto simp: execute_def Let_def andthen_eq_Inr s0_def sys_return_def split: option.splits)
  obtain s2 n b where ch: "choose_process (strncmp (vmem s1) (at_file_name l) (lit_shell s1) 5 = 0) (junk_pid l) s1 = (s2, n, b)"
    by (metis prod_cases3)
  obtain s3 where s3: "setup_pcb (current_pcb_addr s0) n b c i (at_file_name l) (load_program (junk_page l) n k s2) = Inr s3"
    "same_lines s3 s"
    using run f ch by (auto simp: execute_def Let_def andthen_eq_Inr s0_def [symmetric] sys_return_def
        same_lines_def update_pcb_def split: if_splits prod.splits)
  have "same_lines st s0" by (simp add: s0_def cli_def same_lines_def)
  then show ?thesis
    using find_executable_lines [OF f] choose_process_lines [OF ch] load_program_lines setup_pcb_lines [OF s3(1)] s3(2)
      same_lines_trans by metis
qed


section \<open>The whole handler\<close>

text \<open>The key asks for a terminal that has not been booted.\<close>

definition new_terminal :: "u8 \<Rightarrow> 'a kbd_scheme \<Rightarrow> bool" where
  "new_terminal code st \<longleftrightarrow> alt_flag st \<noteq> 0 \<and> (code = F1 \<or> code = F2 \<or> code = F3) \<and>
     base_shell_booted_bitmask st AND push_bit (nat (uint code - 0x3B)) 1 = 0"

lemma lines_ok_cong:
  "keyboard_buffer t = keyboard_buffer s \<Longrightarrow> keyboard_index t = keyboard_index s \<Longrightarrow>
    1 \<le> cur_terminal t \<Longrightarrow> cur_terminal t \<le> 3 \<Longrightarrow> lines_ok s \<Longrightarrow> lines_ok t"
  by (simp add: lines_ok_def line_of_def)

lemma update_cursor_lines [simp]:
  "keyboard_buffer (update_cursor x y st) = keyboard_buffer st"
  "keyboard_index (update_cursor x y st) = keyboard_index st"
  "lit_shell (update_cursor x y st') = lit_shell st'"
  by (simp_all add: update_cursor_def outb_def Let_def)

lemma F_keys: "code = F1 \<or> code = F2 \<or> code = F3 \<Longrightarrow> uint code - 0x3A \<in> {1, 2, 3}"
  by auto

lemma only_to_user_Inr: "only_to_user r = Inr (s, out) \<longleftrightarrow> (\<exists>f. out = To_user f \<and> r = Inr (s, To_user f))"
  by (cases r) (auto simp: only_to_user_def split: outcome.split_asm)

lemma switch_key_lines:
  assumes "lines_ok st"
  shows "switch_key l code st = Inr (s, f) \<Longrightarrow> lines_ok s"
    "\<not> new_terminal code st \<Longrightarrow> \<exists>s. switch_key l code st = Inr (s, None)"
proof -
  let ?t = "uint code - 0x3A"
  define s1 where "s1 = set_vmem (memcpy (vmem st) (videomem_buffer (cur_terminal st - 1)) 0xB8000 4096) st"
  define s2 where "s2 = (set_vmem (memcpy (vmem s1) 0xB8000 (videomem_buffer (?t - 1)) 4096) s1)\<lparr>cur_terminal := ?t\<rparr>"
  define s3 where "s3 = update_cursor (screen_x s2 (?t - 1)) (screen_y s2 (?t - 1)) s2"
  define s4 where "s4 = send_eoi 1 ((update_pcb (current_pcb_addr s3) (\<lambda>p. p\<lparr>sched_ebp := ebp s3\<rparr>) s3)
    \<lparr>shell_init_boot := ?t, cur_process := ?t\<rparr>)"
  have eq: "switch_key l code st = (if alt_flag st \<noteq> 0 \<and> (code = F1 \<or> code = F2 \<or> code = F3)
      then if base_shell_booted_bitmask s3 AND push_bit (nat (?t - 1)) 1 = 0
        then andthen (only_to_user (execute l (lit_shell s4) s4)) (\<lambda>(st, out). Inr (st, case out of To_user f \<Rightarrow> Some f | _ \<Rightarrow> None))
        else Inr (s3, None)
      else Inr (st, None))"
    by (simp add: switch_key_def Let_def s1_def [symmetric] s2_def s3_def s4_def)
  have same: "keyboard_buffer s3 = keyboard_buffer st" "keyboard_index s3 = keyboard_index st" "cur_terminal s3 = ?t"
    "base_shell_booted_bitmask s3 = base_shell_booted_bitmask st" "same_lines s3 s4"
    by (simp_all add: s4_def s3_def s2_def s1_def update_cursor_def send_eoi_def outb_def Let_def same_lines_def
        update_pcb_def)
  have F: "1 \<le> ?t" "?t \<le> 3" if "code = F1 \<or> code = F2 \<or> code = F3" using F_keys [OF that] by auto
  then have ok3: "lines_ok s3" if "code = F1 \<or> code = F2 \<or> code = F3"
    using that lines_ok_cong [OF same(1,2) _ _ assms] by (simp add: same(3))
  show "lines_ok s" if "switch_key l code st = Inr (s, f)"
  proof -
    have "lines_ok s" if "execute l (lit_shell s4) s4 = Inr (s, To_user g)" "lines_ok s3" for g
      using execute_lines [OF that(1)] same_lines_ok same(5) that(2) by blast
    then show ?thesis
      using that assms ok3 unfolding eq by (auto simp: andthen_eq_Inr only_to_user_Inr split: if_split_asm)
  qed
  show "\<exists>s. switch_key l code st = Inr (s, None)" if "\<not> new_terminal code st"
    using that by (auto simp: eq new_terminal_def same(4) algebra_simps)
qed

lemma modifier_new_terminal: "types_only (modifier_keys code st) s \<Longrightarrow> new_terminal code s = new_terminal code st"
proof -
  assume ty: "types_only (modifier_keys code st) s"
  have "base_shell_booted_bitmask s = base_shell_booted_bitmask st"
    by (subst ty [unfolded types_only_def]) (simp add: modifier_keys_def Let_def)
  moreover have "alt_flag s = alt_flag st" if "code = F1 \<or> code = F2 \<or> code = F3"
    using types_only_eqs(7) [OF ty] that by (auto simp: modifier_keys_def Let_def)
  ultimately show ?thesis by (auto simp: new_terminal_def)
qed

lemma cli_lines [simp]:
  "keyboard_buffer (cli s) = keyboard_buffer s" "keyboard_index (cli s) = keyboard_index s"
  "keyboard_buffer (sti s) = keyboard_buffer s" "keyboard_index (sti s) = keyboard_index s"
  "keyboard_buffer (outb d p s) = keyboard_buffer s" "keyboard_index (outb d p s) = keyboard_index s"
  by (simp_all add: cli_def sti_def outb_def)

lemma keyboard_handler_lines:
  assumes "lines_ok st" "cur_process_local st = Inr p"
  shows "keyboard_handler l code st = Inr (s, f) \<Longrightarrow> lines_ok s"
    "\<not> new_terminal code st \<Longrightarrow> \<exists>s. keyboard_handler l code st = Inr (s, None)"
proof -
  have c: "lines_ok (cli st)" "cur_process_local (cli st) = Inr p"
    using assms lines_ok_cong [of "cli st" st] by (auto simp: cur_process_local_def lines_ok_def)
  obtain s1 where s1: "edit_line code (cli st) = Inr s1" "types_only (modifier_keys code (cli st)) s1" "lines_ok s1"
    using edit_line_ok [OF c] by blast
  show "lines_ok s" if run: "keyboard_handler l code st = Inr (s, f)"
  proof -
    obtain s2 g where s2: "switch_key l code s1 = Inr (s2, g)" "same_lines s2 s"
      using run s1(1) by (auto simp: keyboard_handler_def Let_def andthen_eq_Inr same_lines_def sti_def outb_def
          split: option.split_asm)
    then show ?thesis using switch_key_lines(1) [OF s1(3) s2(1)] same_lines_ok by blast
  qed
  show "\<exists>s. keyboard_handler l code st = Inr (s, None)" if "\<not> new_terminal code st"
  proof -
    have "\<not> new_terminal code s1"
      using that modifier_new_terminal [OF s1(2)] by (simp add: new_terminal_def cli_def)
    then show ?thesis
      using switch_key_lines(2) [OF s1(3), of code l] s1(1) by (auto simp: keyboard_handler_def Let_def)
  qed
qed

section \<open>Typing a line\<close>

text \<open>Keys pressed one after the other, each handled before the next.\<close>

primrec press :: "execute_locals \<Rightarrow> u8 list \<Rightarrow> 'a kernel_scheme \<Rightarrow> 'a kernel_scheme res" where
  "press l [] st = Inr st"
| "press l (code # codes) st = andthen (keyboard_handler l code st) (\<lambda>(st, started). press l codes st)"

definition same_modes :: "'a kbd_scheme \<Rightarrow> 'a kbd_scheme \<Rightarrow> bool" where
  "same_modes s t \<longleftrightarrow> cur_terminal t = cur_terminal s \<and> cur_process t = cur_process s \<and>
     cur_process_local t = cur_process_local s \<and> shift_flag t = shift_flag s \<and>
     caps_lock_flag t = caps_lock_flag s \<and> ctrl_flag t = ctrl_flag s \<and> alt_flag t = alt_flag s"

definition store :: "(int \<Rightarrow> u8) \<Rightarrow> int \<Rightarrow> u8 list \<Rightarrow> int \<Rightarrow> u8" where
  "store kb a cs j = (if a \<le> j \<and> j < a + int (length cs) then cs ! nat (j - a) else kb j)"

lemma store_Nil [simp]: "store kb a [] = kb"
  by (auto simp: store_def fun_eq_iff)

lemma store_Cons: "store kb a (c # cs) = store (kb(a := c)) (a + 1) cs"
proof
  fix j show "store kb a (c # cs) j = store (kb(a := c)) (a + 1) cs j"
  proof (cases "a < j")
    case True
    then have "nat (j - a) = Suc (nat (j - (a + 1)))" by simp
    then show ?thesis using True by (simp add: store_def)
  qed (auto simp: store_def)
qed

lemma store_append: "store kb a (cs @ ds) = store (store kb a cs) (a + int (length cs)) ds"
proof (induction cs arbitrary: kb a)
  case (Cons c cs)
  have "a + 1 + int (length cs) = a + int (length (c # cs))" by simp
  then show ?case using Cons.IH [of "kb(a := c)" "a + 1"] by (simp only: append_Cons store_Cons)
qed simp

lemma cur_process_local_frames [simp]:
  "cur_process_local (cli s) = cur_process_local s" "cur_process_local (sti s) = cur_process_local s"
  "cur_process_local (outb d q s) = cur_process_local s"
  "cur_process_local (s\<lparr>debug_regs := r\<rparr>) = cur_process_local s"
  by (simp_all add: cur_process_local_def current_pcb_addr_def cli_def sti_def outb_def)

lemma types_only_modes: "types_only s t \<Longrightarrow> same_modes s t"
proof -
  assume ty: "types_only s t"
  have "cur_process t = cur_process s" by (subst ty [unfolded types_only_def]) simp
  then show ?thesis using types_only_eqs [OF ty] by (simp add: same_modes_def)
qed

lemma same_modes_trans: "same_modes s t \<Longrightarrow> same_modes t u \<Longrightarrow> same_modes s u"
  by (simp add: same_modes_def)

text \<open>The handler around a key that only edits the line.\<close>

lemma handler_frame:
  assumes "edit_line code (cli st) = Inr s1" "alt_flag s1 = 0" "same_modes (cli st) s1"
  shows "\<exists>s. keyboard_handler l code st = Inr (s, None) \<and> keyboard_buffer s = keyboard_buffer s1 \<and>
    keyboard_index s = keyboard_index s1 \<and> enter_flag s = enter_flag s1 \<and> same_modes st s"
proof -
  have eq: "keyboard_handler l code st =
      Inr (sti (outb 0x61 0x20 (s1\<lparr>debug_regs := (debug_regs s1)(0 := 0, 1 := 0, 2 := 0, 3 := 0, 7 := 0)\<rparr>)), None)"
    using assms(1,2) by (simp add: keyboard_handler_def switch_key_def)
  show ?thesis
    unfolding eq using assms(3)
    by (simp add: same_modes_def) (simp add: cli_def sti_def outb_def)
qed

lemma prints_codes:
  assumes "prints code"
  shows "modifier_keys code st = st" "code \<noteq> ENTER" "code \<noteq> TAB" "code \<noteq> BACKSPACE"
proof -
  have "scan_codes_table ! 0x2A = 0" "scan_codes_table ! 0x36 = 0" "scan_codes_table ! 0x1D = 0" "scan_codes_table ! 0x38 = 0"
    "scan_codes_table ! 0x1C = 0" "scan_codes_table ! 0x0F = 0" "scan_codes_table ! 0x0E = 0"
    by (simp_all add: scan_codes_table_def ascii_def)
  then have n: "\<not> prints LEFT_SHIFT" "\<not> prints RIGHT_SHIFT" "\<not> prints CTRL" "\<not> prints ALT"
    "\<not> prints ENTER" "\<not> prints TAB" "\<not> prints BACKSPACE" "\<not> prints CAPS_LOCK" "\<not> prints LEFT_SHIFT_REL"
    "\<not> prints RIGHT_SHIFT_REL" "\<not> prints CTRL_REL" "\<not> prints ALT_REL"
    by (simp_all add: prints_def)
  then show "code \<noteq> ENTER" "code \<noteq> TAB" "code \<noteq> BACKSPACE" using assms by auto
  have "code \<noteq> LEFT_SHIFT" "code \<noteq> RIGHT_SHIFT" "code \<noteq> CTRL" "code \<noteq> ALT" "code \<noteq> CAPS_LOCK" "code \<noteq> LEFT_SHIFT_REL"
    "code \<noteq> RIGHT_SHIFT_REL" "code \<noteq> CTRL_REL" "code \<noteq> ALT_REL"
    using assms n by auto
  then show "modifier_keys code st = st" by (simp add: modifier_keys_def)
qed

lemma typed_key:
  fixes st :: "'a kernel_scheme"
  assumes "cur_process_local st = Inr p" "prints code" "ctrl_flag st = 0" "alt_flag st = 0"
    and "keyboard_index st (shown st) = int n" "n < 73"
  shows "\<exists>s. keyboard_handler l code st = Inr (s, None) \<and> same_modes st s \<and> enter_flag s = enter_flag st \<and>
    keyboard_buffer s = (keyboard_buffer st)(kb_at (shown st) (int n) := key_char code st) \<and>
    keyboard_index s = (keyboard_index st)(shown st := int n + 1)"
proof -
  define s0 where "s0 = update_cursor (screen_x st (shown st)) (screen_y st (shown st)) (cli st)"
  define s1 where "s1 = set_char (int n) (key_char code st) s0"
  have sk: "same_kernel (cli st) s0" unfolding s0_def by (rule update_cursor_same_kernel) simp
  note k = same_kernel_keys [OF sk]
  have ty: "types_only (cli st) s1" unfolding s1_def by (rule types_only_trans [OF k(7) types_only_steps(1)])
  have li: "line_index s0 = int n" "line_index (cli st) = int n"
    using assms(5) k by (simp_all add: line_index_def shown_def cli_def)
  obtain s2 where s2: "putc (key_char code st) 1 s1 = Inr s2" "same_kernel s1 s2"
    using putc_types [of s1 p] types_only_eqs(3) [OF ty] assms(1) by auto
  note k2 = same_kernel_keys [OF s2(2)]
  have c: "ctrl_flag (cli st) = 0" "screen_x (cli st) = screen_x st" "screen_y (cli st) = screen_y st"
    "cur_terminal (cli st) - 1 = shown st"
    using assms(3) by (simp_all add: cli_def shown_def)
  have eq: "edit_line code (cli st) = char_key code s0"
    using assms(6) li(2) prints_codes(2-4) [OF assms(2)]
    by (simp add: prints_codes(1) [OF assms(2)] edit_line_def enter_key_def wrap_line_def clear_key_def tab_key_def backspace_key_def s0_def c Let_def
        del: flag_frames)
  have fl: "ctrl_flag s0 = 0" "alt_flag s0 = 0" "key_char code s0 = key_char code st"
    using types_only_eqs [OF k(7)] assms(3,4) by (simp_all add: cli_def key_char_def)
  have run: "edit_line code (cli st) = Inr (set_index (line_index s2 + 1) s2)"
    unfolding eq using assms(2,6) fl li(1) s2(1)
    by (simp add: char_key_def prints_def s1_def putc_keyboard_def)
  have ty2: "types_only (cli st) (set_index (line_index s2 + 1) s2)"
    by (rule types_only_trans [OF types_only_trans [OF ty k2(7)] types_only_steps(2)])
  then have "alt_flag (set_index (line_index s2 + 1) s2) = 0" using types_only_eqs(7) [OF ty2] assms(4) by (simp add: cli_def)
  moreover have "line_index s2 = int n" using li(1) k2 by (simp add: line_index_def s1_def set_char_def)
  ultimately show ?thesis
    using handler_frame [OF run _ types_only_modes [OF ty2], of l] k2 k
    by (auto simp: set_index_def s1_def set_char_def shown_def cli_def)
qed

lemma press_text:
  fixes st :: "'a kernel_scheme"
  assumes "cur_process_local st = Inr p" "list_all prints codes" "ctrl_flag st = 0" "alt_flag st = 0"
    and "keyboard_index st (shown st) = int n" "n + length codes \<le> 73" "lines_ok st"
  shows "\<exists>s. press l codes st = Inr s \<and> lines_ok s \<and> same_modes st s \<and> enter_flag s = enter_flag st \<and>
    keyboard_buffer s = store (keyboard_buffer st) (kb_at (shown st) (int n)) (map (\<lambda>c. key_char c st) codes) \<and>
    keyboard_index s = (keyboard_index st)(shown st := int (n + length codes))"
  using assms
proof (induction codes arbitrary: st n)
  case Nil
  then show ?case by (auto simp: same_modes_def fun_eq_iff)
next
  case (Cons code codes)
  have "prints code" "list_all prints codes" "n < 73" using Cons.prems by auto
  then obtain s where s: "keyboard_handler l code st = Inr (s, None)" "same_modes st s" "enter_flag s = enter_flag st"
    "keyboard_buffer s = (keyboard_buffer st)(kb_at (shown st) (int n) := key_char code st)"
    "keyboard_index s = (keyboard_index st)(shown st := int n + 1)"
    using typed_key [OF Cons.prems(1) _ Cons.prems(3,4,5), of code l] by blast
  have m: "cur_process_local s = Inr p" "ctrl_flag s = 0" "alt_flag s = 0" "shown s = shown st"
    "(\<lambda>c. key_char c s) = (\<lambda>c. key_char c st)"
    using s(2) Cons.prems by (simp_all add: same_modes_def shown_def key_char_def fun_eq_iff)
  have ok: "lines_ok s" by (rule keyboard_handler_lines(1) [OF Cons.prems(7,1) s(1)])
  obtain s' where s': "press l codes s = Inr s'" "lines_ok s'" "same_modes s s'" "enter_flag s' = enter_flag s"
    "keyboard_buffer s' = store (keyboard_buffer s) (kb_at (shown s) (int (Suc n))) (map (\<lambda>c. key_char c s) codes)"
    "keyboard_index s' = (keyboard_index s)(shown s := int (Suc n + length codes))"
    using Cons.IH [OF m(1) \<open>list_all prints codes\<close> m(2,3), of "Suc n"] m(4) Cons.prems(6) s(5) ok by fastforce
  have "kb_at (shown st) (int n) + 1 = kb_at (shown st) (int (Suc n))" by (simp add: kb_at_def)
  then show ?case
    using s(1,3) s' same_modes_trans [OF s(2) s'(3)]
    by (intro exI [of _ s']) (simp add: store_Cons s(4,5) m(4,5))
qed

lemma press_append: "press l (cs @ ds) st = andthen (press l cs st) (press l ds)"
  by (induction cs arbitrary: st) (simp_all add: andthen_assoc case_prod_unfold)

lemma pressed_enter:
  fixes st :: "'a kernel_scheme"
  assumes "lines_ok st" "cur_process_local st = Inr p" "alt_flag st = 0"
  defines "n \<equiv> keyboard_index st (shown st)"
  shows "\<exists>s. keyboard_handler l ENTER st = Inr (s, None) \<and> same_modes st s \<and>
    keyboard_buffer s = store (keyboard_buffer st) (kb_at (shown st) n) [10, 0] \<and>
    enter_flag s = (enter_flag st)(shown st := 1)"
proof -
  define s0 where "s0 = cli st"
  have s0: "lines_ok s0" "cur_process_local s0 = Inr p" "shown s0 = shown st" "1 \<le> cur_terminal st" "cur_terminal st \<le> 3"
    using assms(1,2) lines_ok_cong [of s0 st] by (auto simp: s0_def shown_def cli_def lines_ok_def cur_process_local_def
        current_pcb_addr_def)
  have rdy: "ready (line_of s0) s0"
    using lines_ok_rows [OF s0(1)] s0(2) shown_range [OF s0(4,5)] by (simp add: ready_def s0(3))
  have n: "int (length (line_of s0 (shown s0))) = n"
    using ready_parts(3) [OF rdy] by (simp add: line_index_def s0_def shown_def cli_def n_def)
  obtain s1 where s1: "enter_key ENTER s0 = Inr s1" "types_only s0 s1"
    "keyboard_buffer s1 = (keyboard_buffer s0)(kb_at (shown s0) n := 10, kb_at (shown s0) (n + 1) := 0)"
    "keyboard_index s1 = (keyboard_index s0)(shown s0 := 0)" "enter_flag s1 = (enter_flag s0)(shown s0 := 1)"
    using enter_run [OF rdy] unfolding n by blast
  define s2 where "s2 = update_cursor (screen_x s1 (cur_terminal s1 - 1)) (screen_y s1 (cur_terminal s1 - 1)) s1"
  have li: "line_index s1 = 0" using s1(4) types_only_eqs(2) [OF s1(2)] by (simp add: line_index_def shown_def)
  have md: "modifier_keys ENTER s0 = s0" by (simp add: modifier_keys_def)
  have np: "scan_codes_table ! 28 = 0" by (simp add: scan_codes_table_def ascii_def)
  have run: "edit_line ENTER s0 = Inr s2"
    using li np by (simp add: edit_line_def md s1(1) wrap_line_def clear_key_def tab_key_def backspace_key_def char_key_def
        s2_def Let_def)
  have ty: "types_only s0 s2" unfolding s2_def by (rule types_only_trans [OF s1(2) update_cursor_types(1)])
  have "keyboard_buffer s2 = keyboard_buffer s1" "enter_flag s2 = enter_flag s1"
    using same_kernel_keys [OF update_cursor_same_kernel [OF same_kernel_refl, of s1]] by (simp_all add: s2_def)
  moreover have "alt_flag s2 = 0" using types_only_eqs(7) [OF ty] assms(3) by (simp add: s0_def cli_def)
  ultimately show ?thesis
    using handler_frame [OF run [unfolded s0_def] _ types_only_modes [OF ty [unfolded s0_def]], of l] s1(3,5) s0(3)
    by (auto simp: store_Cons kb_at_def s0_def cli_def algebra_simps)
qed

text \<open>What a user who types does to a process that waits.\<close>

definition typing :: "execute_locals \<Rightarrow> u8 list \<Rightarrow> 'a kernel_scheme \<Rightarrow> 'a kernel_scheme option" where
  "typing l codes st = (case press l codes st of Inl e \<Rightarrow> None | Inr s \<Rightarrow> Some s)"

lemma tables_agree:
  "list_all (\<lambda>i. scan_codes_table ! i \<noteq> 0 \<longrightarrow> scan_codes_table_shift ! i \<noteq> 0 \<and> scan_codes_table_caps ! i \<noteq> 0) [0..<58]"
  by (simp add: scan_codes_table_def scan_codes_table_shift_def scan_codes_table_caps_def ascii_def upt_rec)

lemma key_char_nonzero: "prints code \<Longrightarrow> key_char code st \<noteq> 0"
  using tables_agree by (auto simp: prints_def key_char_def list_all_iff word_less_nat_alt)

text \<open>What \<open>terminal_read\<close> returns once the line it waits for is stored.\<close>

lemma terminal_read_stored:
  assumes "wait (st\<lparr>enter_flag := (enter_flag st)(cur_process st - 1 := 0)\<rparr>) = Some s"
    and "enter_flag s (cur_process s - 1) \<noteq> 0" "0 < nb" "0 \<notin> set str"
    and "keyboard_buffer s = store kb (kb_at (shown s) 0) (str @ [0])" "length str < 127"
    and "kb (kb_at (shown s) 127) \<noteq> 10"
  shows "terminal_read wait buffer nb st =
    Inr (set_vmem (write_bytes (vmem s) buffer (take (nat nb) (str @ [0]))) s, min nb (int (length str) + 1) - 1)"
proof -
  have "kb_at (shown s) 0 + int j = kb_at (shown s) (int j)" for j by (simp add: kb_at_def)
  then have kb: "keyboard_buffer s (kb_at (shown s) (int j)) = (if j \<le> length str then (str @ [0]) ! j else kb (kb_at (shown s) (int j)))"
    for j unfolding assms(5) by (auto simp: store_def kb_at_def)
  have "\<forall>j < length str. keyboard_buffer s (kb_at (shown s) (0 + int j)) = str ! j \<and> str ! j \<noteq> 0"
    using kb assms(4) by (auto simp: nth_append) (metis nth_mem)
  moreover have "keyboard_buffer s (kb_at (shown s) (0 + int (length str))) = 0" using kb by simp
  ultimately have "terminal_copy (keyboard_buffer s) (shown s) buffer nb 0 (vmem s) =
      (write_bytes (vmem s) buffer (take (nat nb) (str @ [0])), min nb (int (length str) + 1))"
    using terminal_copy_line [of 0 nb str "keyboard_buffer s" "shown s" buffer "vmem s"] assms(3) by simp
  moreover have "keyboard_buffer s (kb_at (shown s) 127) \<noteq> 10"
    using kb [of 127] assms(6,7) by simp
  ultimately show ?thesis
    using assms(1,2,3) by (simp add: terminal_read_def Let_def shown_def set_vmem_def)
qed

section \<open>Properties\<close>

text \<open>C8: the keyboard handler refines a line editor on the three terminals' lines.  Every scan code
  changes the displayed terminal's line as \<open>edit\<close> says, with the flags the modifier keys leave, and no
  other: ENTER and control-L empty it, a full row is wrapped, backspace takes one character, the four of a
  tab or a wrap; only ENTER on a full line also zeroes the first character of the next terminal's line.\<close>

theorem keyboard_edits:
  assumes "lines_ok st" "cur_process_local st = Inr p"
  shows "\<exists>room s. edit_line code st = Inr s \<and> types_only (modifier_keys code st) s \<and>
    list_all (\<lambda>t. line_of s t = lines_after code room (modifier_keys code st) (line_of st) t) [0, 1, 2]"
  using edit_line_ok [OF assms] by blast

text \<open>C18: the keyboard's lines stay within their rows.  Whatever keys are pressed, on whichever terminal
  is shown, after each interrupt every line index is between 0 and 126 and every line can be rubbed out to
  its start without running below it; and the handler returns, unless it is asked for a new terminal.\<close>

theorem keyboard_keeps_lines:
  assumes "lines_ok st" "cur_process_local st = Inr p"
  shows "(\<forall>s f. keyboard_handler l code st = Inr (s, f) \<longrightarrow> lines_ok s) \<and>
    (new_terminal code st \<or> (\<exists>s. keyboard_handler l code st = Inr (s, None)))"
  using keyboard_handler_lines [OF assms] by blast

text \<open>C19: what is typed is what is read.  A process of the displayed terminal that reads, and whose user
  types a line of at most 73 characters on the empty line and presses ENTER, gets exactly the characters
  of the keys, with the case the shift and caps-lock state gives them, and the line feed, cut to the size
  of its buffer.  The byte \<open>terminal_read\<close> looks at behind its row must not be a line feed.\<close>

theorem typed_line_read:
  fixes st :: "'a kernel_scheme" and codes :: "u8 list"
  assumes "lines_ok st" "cur_process_local st = Inr p" "cur_process st = cur_terminal st"
    and "ctrl_flag st = 0" "alt_flag st = 0" "keyboard_index st (shown st) = 0"
    and "list_all prints codes" "length codes \<le> 73" "keyboard_buffer st (kb_at (shown st) 127) \<noteq> 10" "0 < nb"
  shows "\<exists>s. terminal_read (typing l (codes @ [ENTER])) buffer nb st =
    Inr (set_vmem (write_bytes (vmem s) buffer (take (nat nb) (map (\<lambda>c. key_char c st) codes @ [10, 0]))) s,
      min nb (int (length codes) + 2) - 1)"
proof -
  define s0 where "s0 = st\<lparr>enter_flag := (enter_flag st)(cur_process st - 1 := 0)\<rparr>"
  have e0: "types_only st s0" by (simp add: s0_def)
  note f = types_only_eqs [OF e0]
  have i0: "keyboard_index s0 (shown s0) = 0" "keyboard_buffer s0 = keyboard_buffer st" "cur_process s0 = cur_process st"
    using assms(6) f(2) by (simp_all add: s0_def)
  have "lines_ok s0" using assms(1) by (simp add: lines_ok_def line_of_def s0_def)
  then obtain s1 where s1: "press l codes s0 = Inr s1" "same_modes s0 s1"
    "keyboard_buffer s1 = store (keyboard_buffer s0) (kb_at (shown s0) (int 0)) (map (\<lambda>c. key_char c s0) codes)"
    "keyboard_index s1 = (keyboard_index s0)(shown s0 := int (0 + length codes))" "lines_ok s1"
    using press_text [of s0 p codes 0 l] assms f i0 by auto
  have m: "shown s1 = shown st" "cur_process_local s1 = Inr p" "alt_flag s1 = 0" "cur_process s1 = cur_process st"
    using s1(2) f assms i0 by (simp_all add: same_modes_def shown_def)
  obtain s where s: "keyboard_handler l ENTER s1 = Inr (s, None)" "same_modes s1 s"
    "keyboard_buffer s = store (keyboard_buffer s1) (kb_at (shown st) (int (length codes))) [10, 0]"
    "enter_flag s = (enter_flag s1)(shown st := 1)"
    using pressed_enter [OF s1(5) m(2,3), of l] m(1) s1(4) f(2) by auto
  have run: "typing l (codes @ [ENTER]) s0 = Some s"
    using s1(1) s(1) by (simp add: typing_def press_append)
  have sh: "shown s = shown st" "cur_process s - 1 = shown st"
    using s(2) m assms(3) by (simp_all add: same_modes_def shown_def)
  let ?text = "map (\<lambda>c. key_char c st) codes"
  have "keyboard_buffer s = store (keyboard_buffer st) (kb_at (shown s) 0) ((?text @ [10]) @ [0])"
    unfolding s(3) s1(3) sh(1) f i0(2) append_assoc store_append by (simp add: kb_at_def store_Cons)
  moreover have "0 \<notin> set (?text @ [10])"
    using assms(7) key_char_nonzero [of _ st] by (auto simp: list_all_iff)
  ultimately have "terminal_read (typing l (codes @ [ENTER])) buffer nb st =
      Inr (set_vmem (write_bytes (vmem s) buffer (take (nat nb) ((?text @ [10]) @ [0]))) s,
        min nb (int (length (?text @ [10])) + 1) - 1)"
    using run [unfolded s0_def] assms(8-10)
    by (intro terminal_read_stored) (auto simp: s(4) sh)
  then show ?thesis by (intro exI [of _ s]) (simp add: add.commute)
qed

section \<open>Witnesses\<close>

lemma system_keys:
  "lines_ok (system_state t)" "shown (system_state t) = 0" "ctrl_flag (system_state t) = 0"
  "alt_flag (system_state t) = 0" "keyboard_index (system_state t) = (\<lambda>_. 0)" "shift_flag (system_state t) = 0"
  "caps_lock_flag (system_state t) = 0" "keyboard_buffer (system_state t) 127 = 0"
  by (simp_all add: lines_ok_def line_of_def shown_def system_state_def set_vmem_def)

lemma keyboard_edits_witness:
  "\<exists>s. edit_line 0x1E (system_state 1) = Inr s \<and> line_of s 0 = [97]"
proof -
  have k: "modifier_keys 0x1E (system_state 1) = system_state 1" by (simp add: modifier_keys_def)
  have e: "edited 0x1E room (system_state 1) [] = [97]" for room
    by (simp add: edited_def edit_def prints_def wrapped_def scan_codes_table_def ascii_def system_keys key_char_def)
  have "line_of (system_state 1) 0 = []" by (simp add: line_of_def system_keys)
  then show ?thesis
    using keyboard_edits [OF system_keys(1) system_console(2), of "0x1E"] e
    by (auto simp: k lines_after_def system_keys)
qed

lemma keyboard_keeps_lines_witness:
  "\<exists>s. keyboard_handler system_locals ENTER (system_state 1) = Inr (s, None) \<and> lines_ok s"
  using keyboard_keeps_lines [OF system_keys(1) system_console(2), of system_locals ENTER]
  by (auto simp: new_terminal_def)

lemma typed_line_read_witness:
  "\<exists>s. terminal_read (typing system_locals [0x26, 0x1F, ENTER]) 0x600000 9 (system_state 1) =
    Inr (set_vmem (write_bytes (vmem s) 0x600000 [108, 115, 10, 0]) s, 3)"
  using typed_line_read [OF system_keys(1) system_console(2), of "[0x26, 0x1F]" 9 system_locals "0x600000"]
  by (simp add: system_keys system_fields kb_at_def key_char_def prints_def scan_codes_table_def ascii_def)

end
