(* ===== verification/Idt.thy ===== *)
theory Idt imports Keyboard begin

text \<open>
  The interrupt descriptor table and the common handler of exceptions and interrupts, from
  \<^verbatim>\<open>src/src/interrupts.c\<close> and \<^verbatim>\<open>src/src/x86_desc.h\<close>.  A gate is a record with the bit fields of
  \<open>idt_desc_t\<close> at their widths; \<open>desc_bytes\<close> is its packed layout, the eight bytes the processor
  reads, and \<open>decode_gate\<close> is the processor's reading of them.
\<close>

section \<open>Gates\<close>

record idt_desc =
  offset_15_00 :: u16
  seg_selector :: u16
  reserved4 :: u8
  reserved3 :: "1 word"
  reserved2 :: "1 word"
  reserved1 :: "1 word"
  gate_size :: "1 word"
  reserved0 :: "1 word"
  gate_dpl :: "2 word"
  gate_present :: "1 word"
  offset_31_16 :: u16

record entry = kernel +
  idt :: "nat \<Rightarrow> idt_desc"
  cr2 :: u32

text \<open>The linkage routines of \<^verbatim>\<open>x86_desc.S\<close>, in the order the table is filled.\<close>

datatype stub =
    division_error_linkage | debug_linkage | NMI_linkage | breakpoint_linkage | overflow_linkage
  | bound_range_interrupt_linkage | invalid_opcode_linkage | device_not_avalible_linkage
  | double_fault_linkage | coprocessor_overrun_linkage | invalid_tss_linkage
  | segment_not_present_linkage | stack_segfault_linkage | general_protection_fault_linkage
  | page_fault_linkage | assert_fault_linkage | x87_floating_point_linkage
  | alignment_check_linkage | machine_check_linkage | SIMD_floating_point_linkage
  | keyboard_linkage | RTC_linkage | PIT_linkage | system_call_linkage

definition SET_IDT_ENTRY :: "u32 \<Rightarrow> idt_desc \<Rightarrow> idt_desc" where
  "SET_IDT_ENTRY handler str =
     (let str = str\<lparr>offset_31_16 := ucast (drop_bit 16 (handler AND 0xFFFF0000))\<rparr>
      in str\<lparr>offset_15_00 := ucast (handler AND 0xFFFF)\<rparr>)"

abbreviation interrupt :: u32 where "interrupt \<equiv> 0xE"
abbreviation trap :: u32 where "trap \<equiv> 0xF"

definition set_IDT_entry_metadata :: "u32 \<Rightarrow> idt_desc \<Rightarrow> idt_desc" where
  "set_IDT_entry_metadata ty e =
     (let e = e\<lparr>seg_selector := 0x10\<rparr>;
          e = e\<lparr>reserved3 := ucast (ty AND 1)\<rparr>;
          e = e\<lparr>reserved2 := ucast (drop_bit 1 ty AND 1)\<rparr>;
          e = e\<lparr>reserved1 := ucast (drop_bit 2 ty AND 1)\<rparr>;
          e = e\<lparr>gate_size := ucast (drop_bit 3 ty AND 1)\<rparr>;
          e = e\<lparr>reserved0 := 0\<rparr>;
          e = e\<lparr>gate_dpl := 0\<rparr>
      in e\<lparr>gate_present := 1\<rparr>)"

text \<open>
  The three statements \<open>setup_IDT\<close> repeats for every interrupt; the local \<open>entry\<close> keeps what the
  previous repetition left in it.
\<close>

definition set_gate ::
  "(stub \<Rightarrow> addr) \<Rightarrow> stub \<times> nat \<Rightarrow> idt_desc \<times> 'a entry_scheme \<Rightarrow> idt_desc \<times> 'a entry_scheme" where
  "set_gate linkage sv es =
     (let (s, v) = sv;
          (e, st) = es;
          e = SET_IDT_ENTRY (linkage s) e;
          e = set_IDT_entry_metadata interrupt e
      in (e, st\<lparr>idt := (idt st)(v := e)\<rparr>))"

definition interrupt_gates :: "(stub \<times> nat) list" where
  "interrupt_gates =
     [(division_error_linkage, 0x0), (debug_linkage, 0x1), (NMI_linkage, 0x2), (breakpoint_linkage, 0x3),
      (overflow_linkage, 0x4), (bound_range_interrupt_linkage, 0x5), (invalid_opcode_linkage, 0x6),
      (device_not_avalible_linkage, 0x7), (double_fault_linkage, 0x8), (coprocessor_overrun_linkage, 0x9),
      (invalid_tss_linkage, 0xA), (segment_not_present_linkage, 0xB), (stack_segfault_linkage, 0xC),
      (general_protection_fault_linkage, 0xD), (page_fault_linkage, 0xE), (assert_fault_linkage, 0xF),
      (x87_floating_point_linkage, 0x10), (alignment_check_linkage, 0x11), (machine_check_linkage, 0x12),
      (SIMD_floating_point_linkage, 0x13), (keyboard_linkage, 0x21), (RTC_linkage, 0x28), (PIT_linkage, 0x20)]"

definition setup_IDT :: "(stub \<Rightarrow> addr) \<Rightarrow> idt_desc \<Rightarrow> 'a entry_scheme \<Rightarrow> 'a entry_scheme" where
  "setup_IDT linkage entry0 st =
     (let (e, st) = fold (set_gate linkage) interrupt_gates (entry0, st);
          e = SET_IDT_ENTRY (linkage system_call_linkage) e;
          e = set_IDT_entry_metadata trap e;
          e = e\<lparr>gate_dpl := 3\<rparr>
      in st\<lparr>idt := (idt st)(0x80 := e)\<rparr>)"

section \<open>What the processor reads\<close>

definition desc_bytes :: "idt_desc \<Rightarrow> u8 list" where
  "desc_bytes e =
     [ucast (offset_15_00 e), ucast (drop_bit 8 (offset_15_00 e)),
      ucast (seg_selector e), ucast (drop_bit 8 (seg_selector e)), reserved4 e,
      ucast (reserved3 e) OR push_bit 1 (ucast (reserved2 e)) OR push_bit 2 (ucast (reserved1 e)) OR
        push_bit 3 (ucast (gate_size e)) OR push_bit 4 (ucast (reserved0 e)) OR
        push_bit 5 (ucast (gate_dpl e)) OR push_bit 7 (ucast (gate_present e)),
      ucast (offset_31_16 e), ucast (drop_bit 8 (offset_31_16 e))]"

record gate =
  g_offset :: u32
  g_selector :: u32
  g_type :: u8
  g_dpl :: u8

text \<open>A gate is used only when its present bit is set and its storage bit is clear.\<close>

definition decode_gate :: "u8 list \<Rightarrow> gate option" where
  "decode_gate bs =
     (if bit (bs ! 5) 7 \<and> \<not> bit (bs ! 5) 4 then
        Some \<lparr>g_offset = ucast (bs ! 0) OR push_bit 8 (ucast (bs ! 1)) OR push_bit 16 (ucast (bs ! 6)) OR
                push_bit 24 (ucast (bs ! 7)),
              g_selector = ucast (bs ! 2) OR push_bit 8 (ucast (bs ! 3)),
              g_type = bs ! 5 AND 0xF,
              g_dpl = drop_bit 5 (bs ! 5) AND 3\<rparr>
      else None)"

section \<open>The common handler\<close>

text \<open>
  Addresses of the handler's array of messages, of the buffer of the \<open>printf\<close> it calls and of its
  three format strings; the other components are the indeterminate locals of the handlers it calls.
\<close>

record exc_locals =
  at_exceptions :: addr
  at_conv_buf :: addr
  lit_exception :: addr
  lit_type :: addr
  lit_address :: addr
  locals_execute :: execute_locals
  junk_new_page :: u32
  junk_vidmem_pt :: u32

definition exception_names :: "string list" where
  "exception_names =
     [''Division Error'', ''Debug'', ''Non-maskable Interrupt'', ''Breakpoint'', ''Overflow'',
      ''Bound Range Exceeded'', ''Invalid Opcode'', ''Device Not Avalable'', ''Double Fault'',
      ''Coprocessor Segment Overrun'', ''Invalid TSS'', ''Segment Not Present'', ''Stack-Segment Fault'',
      ''General Protection Fault'', ''Page Fault'', ''Test Assertion'', ''x87 Floating-Point Exception'',
      ''Alignment Check'', ''Machine Check'', ''SIMD Floating-Point Exception'']"

text \<open>A row of the array: the characters and zeros up to 30 bytes.\<close>

definition exception_row :: "string \<Rightarrow> u8 list" where
  "exception_row cs = ascii cs @ replicate (30 - length cs) 0"

definition exceptions :: "u8 list" where
  "exceptions = concat (map exception_row exception_names)"

text \<open>The report, up to the endless loop with interrupts off.\<close>

definition report_exception :: "exc_locals \<Rightarrow> int \<Rightarrow> 'a entry_scheme \<Rightarrow> 'a entry_scheme res" where
  "report_exception l vector st =
     andthen (printf (at_conv_buf l) (lit_exception l) [of_int vector] st) (\<lambda>(st, n).
       (let st = set_vmem (write_bytes (vmem st) (at_exceptions l) exceptions) st
        in andthen (printf (at_conv_buf l) (lit_type l) [at_exceptions l + 30 * of_int vector] st) (\<lambda>(st, n).
           andthen (if vector = 0x0E
                    then andthen (printf (at_conv_buf l) (lit_address l) [cr2 st] st) (\<lambda>(st, n). Inr st)
                    else Inr st)
             (\<lambda>st. Inr (cli st)))))"

text \<open>
  \<open>exc_handler\<close>.  \<open>scan_code\<close> is the byte a keyboard interrupt reads.  The result holds the frame of a
  shell the keyboard handler started instead of returning.
\<close>

definition exc_handler ::
  "exc_locals \<Rightarrow> u8 \<Rightarrow> int \<Rightarrow> 'a entry_scheme \<Rightarrow> ('a entry_scheme \<times> user_frame option) res" where
  "exc_handler l scan_code vector st =
     (if 0 \<le> vector \<and> vector \<le> 0x13 then andthen (report_exception l vector st) (\<lambda>st. Inl Diverges)
      else if vector = 0x28 then andthen (RTC_handler st) (\<lambda>st. Inr (st, None))
      else if vector = 0x21 then keyboard_handler (locals_execute l) scan_code st
      else if vector = 0x20 then andthen (pit_handler (junk_new_page l) (junk_vidmem_pt l) st) (\<lambda>st. Inr (st, None))
      else Inr (st, None))"

section \<open>The table\<close>

lemma and_masks: "x AND 1 = take_bit 1 x" "x AND 0xF = take_bit 4 x" "x AND 0xFFFF = take_bit 16 x"
  "x AND 0xFFFF0000 = push_bit 16 (drop_bit 16 x)" "y AND 3 = take_bit 2 y" "y AND 0xF = take_bit 4 y"
  for x :: u32 and y :: u8
proof -
  show "x AND 0xFFFF0000 = push_bit 16 (drop_bit 16 x)"
  proof (rule bit_word_eqI)
    fix n assume "n < LENGTH(32)"
    have "(0xFFFF0000 :: u32) = push_bit 16 (mask 16)" by (simp add: mask_eq_exp_minus_1)
    then show "bit (x AND 0xFFFF0000) n = bit (push_bit 16 (drop_bit 16 x)) n"
      using \<open>n < LENGTH(32)\<close> by (simp only: bit_simps) auto
  qed
qed (simp_all add: take_bit_eq_mask mask_eq_exp_minus_1)

lemma drop_push_drop: "drop_bit n (push_bit n (drop_bit n x)) = drop_bit n (x :: u32)"
  by (rule bit_word_eqI) (auto simp: bit_simps dest: bit_imp_le_length)

lemma nat_less_8: "n < 8 \<Longrightarrow> n = 0 \<or> n = 1 \<or> n = 2 \<or> n = 3 \<or> n = 4 \<or> n = 5 \<or> n = 6 \<or> (n :: nat) = 7"
  by arith

lemma type_bits:
  "(ucast (ucast (take_bit 1 ty) :: 1 word) OR push_bit 1 (ucast (ucast (take_bit 1 (drop_bit 1 ty)) :: 1 word)) OR
     push_bit 2 (ucast (ucast (take_bit 1 (drop_bit 2 ty)) :: 1 word)) OR
     push_bit 3 (ucast (ucast (take_bit 1 (drop_bit 3 ty)) :: 1 word)) :: u8) = ucast (take_bit 4 (ty :: u32))"
proof (rule bit_word_eqI, goal_cases)
  case (1 n)
  then show ?case using nat_less_8 [of n] by (auto simp: bit_simps numeral_2_eq_2 simp del: One_nat_def push_bit_Suc take_bit_Suc_from_most)
qed

lemma handler_bytes:
  "(ucast (ucast (ucast (take_bit 16 (h :: u32)) :: u16) :: u8) OR
     push_bit 8 (ucast (ucast (drop_bit 8 (ucast (take_bit 16 h) :: u16)) :: u8)) OR
     push_bit 16 (ucast (ucast (ucast (drop_bit 16 h) :: u16) :: u8)) OR
     push_bit 24 (ucast (ucast (drop_bit 8 (ucast (drop_bit 16 h) :: u16)) :: u8)) :: u32) = h"
proof (rule bit_word_eqI, goal_cases)
  case (1 n)
  consider "n < 8" | "8 \<le> n" "n < 16" | "16 \<le> n" "n < 24" | "24 \<le> n" by linarith
  then show ?case using 1 by cases (auto simp: bit_simps)
qed

lemma access_byte:
  fixes t :: u32 and d :: "2 word"
  defines "b \<equiv> (ucast (take_bit 4 t) OR push_bit 5 (ucast d) OR push_bit 7 1 :: u8)"
  shows "bit b 7" "\<not> bit b 4" "take_bit 4 b = ucast (take_bit 4 t)" "take_bit 2 (drop_bit 5 b) = ucast d"
proof -
  have b: "bit b n \<longleftrightarrow> n < 8 \<and> (n < 4 \<and> bit t n \<or> 5 \<le> n \<and> bit d (n - 5) \<or> n = 7)" for n
    by (auto simp: b_def bit_simps simp del: push_bit_of_1)
  have d: "bit d n \<Longrightarrow> n < 2" for n by (auto dest: bit_imp_le_length)
  show "bit b 7" "\<not> bit b 4" unfolding b by simp_all
  show "take_bit 4 b = ucast (take_bit 4 t)"
    by (rule bit_word_eqI) (auto simp: bit_take_bit_iff bit_unsigned_iff b)
  show "take_bit 2 (drop_bit 5 b) = ucast d"
    by (rule bit_word_eqI) (auto simp: bit_take_bit_iff bit_unsigned_iff bit_drop_bit_eq b dest: d)
qed

lemma decode_gate_set:
  "decode_gate (desc_bytes ((set_IDT_entry_metadata ty (SET_IDT_ENTRY h e))\<lparr>gate_dpl := d\<rparr>)) =
    Some \<lparr>g_offset = h, g_selector = 0x10, g_type = ucast (take_bit 4 ty), g_dpl = ucast d\<rparr>"
proof -
  let ?e = "(set_IDT_entry_metadata ty (SET_IDT_ENTRY h e))\<lparr>gate_dpl := d\<rparr>"
  have sel: "seg_selector ?e = 0x10" by (simp add: set_IDT_entry_metadata_def SET_IDT_ENTRY_def Let_def)
  have off: "offset_15_00 ?e = ucast (take_bit 16 h)"
    "offset_31_16 ?e = ucast (drop_bit 16 h)"
    by (simp_all add: set_IDT_entry_metadata_def SET_IDT_ENTRY_def Let_def and_masks drop_push_drop)
  have "desc_bytes ?e ! 5 = (ucast (take_bit 4 ty) OR push_bit 5 (ucast d) OR push_bit 7 1 :: u8)"
    unfolding type_bits [symmetric]
    by (simp add: set_IDT_entry_metadata_def SET_IDT_ENTRY_def desc_bytes_def Let_def and_masks or.assoc
        del: push_bit_of_1)
  note acc = access_byte [of ty d, folded this]
  show ?thesis
    unfolding decode_gate_def using acc handler_bytes [of h]
    by (simp add: and_masks desc_bytes_def sel off)
qed

lemma set_gate_frame:
  "v \<notin> snd ` set gs \<Longrightarrow> idt (snd (fold (set_gate linkage) gs es)) v = idt (snd es) v"
  by (induction gs arbitrary: es) (auto simp: set_gate_def Let_def split: prod.splits)

lemma set_gate_fold:
  "distinct (map snd gs) \<Longrightarrow> (s, v) \<in> set gs \<Longrightarrow>
    \<exists>e. idt (snd (fold (set_gate linkage) gs es)) v = set_IDT_entry_metadata interrupt (SET_IDT_ENTRY (linkage s) e)"
proof (induction gs arbitrary: es)
  case (Cons g gs)
  show ?case
  proof (cases "(s, v) = g")
    case True
    then have "v \<notin> snd ` set gs" using Cons.prems(1) unfolding True [symmetric] by simp
    show ?thesis
      unfolding True [symmetric] fold_simps set_gate_frame [OF \<open>v \<notin> snd ` set gs\<close>]
      by (auto simp: set_gate_def Let_def split: prod.splits)
  next
    case False
    then show ?thesis using Cons by simp
  qed
qed simp

text \<open>The table by vector: the routine, kernel code, an interrupt gate of privilege 0; 0x80 a trap gate of privilege 3.\<close>

definition gate_table :: "(stub \<Rightarrow> addr) \<Rightarrow> nat \<Rightarrow> gate option" where
  "gate_table linkage v =
     (if v = 0x80 then Some \<lparr>g_offset = linkage system_call_linkage, g_selector = 0x10, g_type = 0xF, g_dpl = 3\<rparr>
      else map_option (\<lambda>(s, w). \<lparr>g_offset = linkage s, g_selector = 0x10, g_type = 0xE, g_dpl = 0\<rparr>)
             (find (\<lambda>(s, w). w = v) interrupt_gates))"

lemma set_IDT_entry_dpl: "(set_IDT_entry_metadata ty e)\<lparr>gate_dpl := 0\<rparr> = set_IDT_entry_metadata ty e"
  by (simp add: set_IDT_entry_metadata_def Let_def)

lemma type_constants: "ucast (take_bit 4 interrupt) = (0xE :: u8)" "ucast (take_bit 4 trap) = (0xF :: u8)"
  by (simp_all add: take_bit_eq_mask mask_eq_exp_minus_1)

lemma setup_IDT_only: "\<exists>i. setup_IDT lk e st = st\<lparr>idt := i\<rparr>"
proof -
  have f: "\<exists>i. snd (fold (set_gate lk) gs es) = (snd es)\<lparr>idt := i\<rparr>" for gs es
  proof (induction gs arbitrary: es)
    case Nil
    show ?case by (intro exI [of _ "idt (snd es)"]) simp
  next
    case (Cons g gs)
    obtain i where "snd (fold (set_gate lk) gs (set_gate lk g es)) = (snd (set_gate lk g es))\<lparr>idt := i\<rparr>"
      using Cons.IH by blast
    moreover have "\<exists>i. snd (set_gate lk g es) = (snd es)\<lparr>idt := i\<rparr>"
      by (auto simp: set_gate_def Let_def split: prod.splits)
    ultimately show ?case by auto
  qed
  obtain i where "snd (fold (set_gate lk) interrupt_gates (e, st)) = st\<lparr>idt := i\<rparr>" using f [of _ "(e, st)"] by auto
  then show ?thesis by (auto simp: setup_IDT_def Let_def split: prod.splits)
qed

lemma setup_IDT_gate:
  "decode_gate (desc_bytes (idt (setup_IDT linkage e st) v)) =
    (case gate_table linkage v of None \<Rightarrow> decode_gate (desc_bytes (idt st v)) | Some g \<Rightarrow> Some g)"
proof (cases "v = 0x80")
  case True
  then show ?thesis
    by (simp add: setup_IDT_def gate_table_def Let_def decode_gate_set type_constants split: prod.splits)
next
  case False
  let ?st = "snd (fold (set_gate linkage) interrupt_gates (e, st))"
  have st: "idt (setup_IDT linkage e st) v = idt ?st v"
    using False by (simp add: setup_IDT_def Let_def split: prod.splits)
  show ?thesis
  proof (cases "find (\<lambda>(s, w). w = v) interrupt_gates")
    case None
    then have "v \<notin> snd ` set interrupt_gates" by (auto simp: find_None_iff)
    then show ?thesis using False None by (simp add: st set_gate_frame gate_table_def)
  next
    case (Some sw)
    then obtain s where s: "sw = (s, v)" "(s, v) \<in> set interrupt_gates"
      by (auto simp: find_Some_iff) (metis nth_mem)
    have "distinct (map snd interrupt_gates)" by (simp add: interrupt_gates_def)
    from set_gate_fold [OF this s(2), of linkage "(e, st)"] obtain e'
      where "idt ?st v = set_IDT_entry_metadata interrupt (SET_IDT_ENTRY (linkage s) e')" by blast
    then show ?thesis
      unfolding st using decode_gate_set [of 0 interrupt "linkage s" e'] False Some s(1)
      by (simp add: set_IDT_entry_dpl gate_table_def type_constants)
  qed
qed

end
