(* ===== verification/Cpu.thy ===== *)
theory Cpu imports Idt begin

text \<open>
  The processor the assembly of \<^verbatim>\<open>src/src/x86_desc.S\<close> and \<^verbatim>\<open>src/src/sys_calls_handler.S\<close> runs on: the general
  registers, the flags, the stack and the instructions those two files use, and how the processor
  enters an interrupt gate and leaves it with \<^verbatim>\<open>iret\<close>.  The interrupt flag is kept in \<open>int_flag\<close>; \<open>flags\<close>
  and \<open>set_flags\<close> put it in its place in the word.
\<close>

record cpu = entry +
  eax :: u32
  ebx :: u32
  ecx :: u32
  edx :: u32
  esi :: u32
  edi :: u32
  eflags :: u32
  eip :: u32
  cs_reg :: u32
  ss_reg :: u32

section \<open>Instructions\<close>

definition push :: "u32 \<Rightarrow> 'a vmm_scheme \<Rightarrow> 'a vmm_scheme" where
  "push v st = (let st = st\<lparr>esp := esp st - 4\<rparr> in set_vmem (write32 (vmem st) (esp st) v) st)"

definition pushes :: "u32 list \<Rightarrow> 'a vmm_scheme \<Rightarrow> 'a vmm_scheme" where
  "pushes vs st = fold push vs st"

definition pop :: "'a vmm_scheme \<Rightarrow> u32 \<times> 'a vmm_scheme" where
  "pop st = (read32 (vmem st) (esp st), st\<lparr>esp := esp st + 4\<rparr>)"

definition flags :: "'a cpu_scheme \<Rightarrow> u32" where
  "flags st = put_bits 9 1 (of_bool (int_flag st)) (eflags st)"

definition set_flags :: "u32 \<Rightarrow> 'a cpu_scheme \<Rightarrow> 'a cpu_scheme" where
  "set_flags v st = st\<lparr>eflags := v, int_flag := bit v 9\<rparr>"

definition popfl :: "'a cpu_scheme \<Rightarrow> 'a cpu_scheme" where
  "popfl st = (let (v, st) = pop st in set_flags v st)"

definition pushal :: "'a cpu_scheme \<Rightarrow> 'a cpu_scheme" where
  "pushal st = pushes [eax st, ecx st, edx st, ebx st, esp st, ebp st, esi st, edi st] st"

definition popal :: "'a cpu_scheme \<Rightarrow> 'a cpu_scheme" where
  "popal st =
     (let (v, st) = pop st; st = st\<lparr>edi := v\<rparr>;
          (v, st) = pop st; st = st\<lparr>esi := v\<rparr>;
          (v, st) = pop st; st = st\<lparr>ebp := v\<rparr>;
          (v, st) = pop st;
          (v, st) = pop st; st = st\<lparr>ebx := v\<rparr>;
          (v, st) = pop st; st = st\<lparr>edx := v\<rparr>;
          (v, st) = pop st; st = st\<lparr>ecx := v\<rparr>;
          (v, st) = pop st
      in st\<lparr>eax := v\<rparr>)"

text \<open>The prologue and the epilogue of a C function with \<open>n\<close> bytes of locals.\<close>

definition c_enter :: "u32 \<Rightarrow> 'a vmm_scheme \<Rightarrow> 'a vmm_scheme" where
  "c_enter n st =
     (let st = push (ebp st) st;
          st = st\<lparr>ebp := esp st\<rparr>
      in st\<lparr>esp := esp st - n\<rparr>)"

definition c_leave :: "'a vmm_scheme \<Rightarrow> 'a vmm_scheme" where
  "c_leave st =
     (let st = st\<lparr>esp := ebp st\<rparr>;
          (v, st) = pop st
      in st\<lparr>ebp := v\<rparr>)"

section \<open>Gates\<close>

text \<open>
  Entering a gate from user mode switches to the stack of the task state segment.  Once the flags are
  saved, trap flag, nested task, resume and virtual-8086 mode (bits 8, 14, 16 and 17) are cleared.  \<open>err\<close> is
  the error code of the exceptions that have one.
\<close>

definition gate_flags :: "u32 \<Rightarrow> u32" where
  "gate_flags v = put_bits 8 1 0 (put_bits 14 1 0 (put_bits 16 2 0 v))"

definition enter_gate :: "gate \<Rightarrow> u32 list \<Rightarrow> 'a cpu_scheme \<Rightarrow> 'a cpu_scheme" where
  "enter_gate g err st =
     (let user_ss = ss_reg st;
          user_esp = esp st;
          frame = [flags st, cs_reg st, eip st] @ err;
          st = (if cs_reg st AND 3 \<noteq> 0
                then pushes [user_ss, user_esp] (st\<lparr>esp := tss_esp0 st, ss_reg := ucast (tss_ss0 st)\<rparr>) else st);
          st = pushes frame st;
          st = st\<lparr>int_flag := (g_type g \<noteq> 0xE \<and> int_flag st), eflags := gate_flags (eflags st)\<rparr>
      in st\<lparr>cs_reg := g_selector g, eip := g_offset g\<rparr>)"

definition iret :: "'a cpu_scheme \<Rightarrow> 'a cpu_scheme" where
  "iret st =
     (let (v, st) = pop st; st = st\<lparr>eip := v\<rparr>;
          (v, st) = pop st; st = st\<lparr>cs_reg := v\<rparr>;
          st = popfl st
      in if cs_reg st AND 3 \<noteq> 0 then
           (let (v, st) = pop st;
                (w, st) = pop st
            in st\<lparr>esp := v, ss_reg := w\<rparr>)
         else st)"

section \<open>The stack\<close>

primrec stack_at :: "mem \<Rightarrow> addr \<Rightarrow> u32 list \<Rightarrow> bool" where
  "stack_at m a [] = True"
| "stack_at m a (v # vs) = (read32 m a = v \<and> stack_at m (a + 4) vs)"

lemma stack_at_append:
  "stack_at m a (vs @ ws) \<longleftrightarrow> stack_at m a vs \<and> stack_at m (a + 4 * of_nat (length vs)) ws"
  by (induction vs arbitrary: a) (simp_all add: algebra_simps)

lemma stack_at_cong:
  "bytes m' a (4 * length vs) = bytes m a (4 * length vs) \<Longrightarrow> stack_at m' a vs = stack_at m a vs"
proof (induction vs arbitrary: a)
  case (Cons v vs)
  have "bytes x a (4 * length (v # vs)) = bytes x a 4 @ bytes x (a + 4) (4 * length vs)" for x
    using bytes_add [of x a 4 "4 * length vs"] by simp
  then have "bytes m' a 4 = bytes m a 4" "bytes m' (a + 4) (4 * length vs) = bytes m (a + 4) (4 * length vs)"
    using Cons.prems by simp_all
  then show ?case using Cons.IH [of "a + 4"] read32_cong [of m' a m] by simp
qed simp

lemma apart_minus:
  assumes "k \<le> unat d" "unat d + n \<le> 4294967296"
  shows "apart (b - d) k b n"
proof (cases "d = 0")
  case False
  have "b - (b - d) = d" "b - d - b = 0 - d" by simp_all
  moreover have "unat (0 - d) = 4294967296 - unat d"
    using False unat_eq_zero [of d] by (subst unat_sub_if') simp
  ultimately show ?thesis using assms unfolding apart_def by (simp, arith)
qed (use assms in \<open>simp add: apart_def\<close>)

lemma below_apart: "n \<le> 4294967292 \<Longrightarrow> apart (a - 4) 4 a n"
  by (rule apart_minus) simp_all

lemma vmem_regs [simp]:
  "vmem (st\<lparr>esp := a\<rparr>) = vmem st" "vmem (st\<lparr>ebp := a\<rparr>) = vmem st" "vmem (st\<lparr>int_flag := b\<rparr>) = vmem st"
  by (simp_all add: vmem_def remap_def user_mapped_def)

lemma vmem_cpu [simp]:
  "vmem (c\<lparr>eax := a\<rparr>) = vmem c" "vmem (c\<lparr>ebx := a\<rparr>) = vmem c" "vmem (c\<lparr>ecx := a\<rparr>) = vmem c"
  "vmem (c\<lparr>edx := a\<rparr>) = vmem c" "vmem (c\<lparr>esi := a\<rparr>) = vmem c" "vmem (c\<lparr>edi := a\<rparr>) = vmem c"
  "vmem (c\<lparr>eflags := a\<rparr>) = vmem c" "vmem (c\<lparr>eip := a\<rparr>) = vmem c" "vmem (c\<lparr>cs_reg := a\<rparr>) = vmem c"
  "vmem (c\<lparr>ss_reg := a\<rparr>) = vmem c"
  by (simp_all add: vmem_def remap_def user_mapped_def)

lemma esp_push [simp]: "esp (push v st) = esp st - 4" "ebp (push v st) = ebp st" "int_flag (push v st) = int_flag st"
  by (simp_all add: push_def Let_def)

lemma vmem_push: "vmem (push v st) = write32 (vmem st) (esp st - 4) v"
  by (simp add: push_def Let_def)

lemma stack_push:
  assumes "stack_at (vmem st) (esp st) vs" "length vs < 1000"
  shows "stack_at (vmem (push v st)) (esp st - 4) (v # vs)"
proof -
  have "apart (esp st - 4) (length (bytes_of32 v)) (esp st) (4 * length vs)"
    using assms(2) below_apart [of "4 * length vs" "esp st"] by simp
  then have "bytes (vmem (push v st)) (esp st) (4 * length vs) = bytes (vmem st) (esp st) (4 * length vs)"
    unfolding vmem_push write32_def using assms(2) by (intro bytes_write_apart) simp_all
  from stack_at_cong [OF this] show ?thesis
    using assms(1) by (simp add: vmem_push region_simps)
qed

lemma push_outside:
  "apart (esp st - 4) 4 a n \<Longrightarrow> n \<le> 4294967296 \<Longrightarrow> bytes (vmem (push v st)) a n = bytes (vmem st) a n"
  unfolding vmem_push write32_def by (intro bytes_write_apart) simp_all

lemma vmem_c_enter: "vmem (c_enter n st) = vmem (push (ebp st) st)"
  by (simp add: c_enter_def Let_def)

lemma c_enter_simps [simp]:
  "ebp (c_enter n st) = esp st - 4" "esp (c_enter n st) = esp st - 4 - n"
  by (simp_all add: c_enter_def Let_def)

lemma stack_pop:
  assumes "stack_at (vmem st) (esp st) (v # vs)"
  shows "pop st = (v, st\<lparr>esp := esp st + 4\<rparr>)" "stack_at (vmem st) (esp st + 4) vs"
  using assms by (simp_all add: pop_def)


section \<open>Contexts\<close>

text \<open>What an interrupted program can see of the processor.\<close>

record ctx =
  c_eax :: u32
  c_ebx :: u32
  c_ecx :: u32
  c_edx :: u32
  c_esi :: u32
  c_edi :: u32
  c_ebp :: u32
  c_esp :: u32
  c_flags :: u32
  c_eip :: u32
  c_cs :: u32
  c_ss :: u32

definition context_of :: "'a cpu_scheme \<Rightarrow> ctx" where
  "context_of st = \<lparr>c_eax = eax st, c_ebx = ebx st, c_ecx = ecx st, c_edx = edx st, c_esi = esi st, c_edi = edi st,
     c_ebp = ebp st, c_esp = esp st, c_flags = flags st, c_eip = eip st, c_cs = cs_reg st, c_ss = ss_reg st\<rparr>"

definition resume :: "ctx \<Rightarrow> 'a cpu_scheme \<Rightarrow> 'a cpu_scheme" where
  "resume c st = (set_flags (c_flags c) st)\<lparr>eax := c_eax c, ebx := c_ebx c, ecx := c_ecx c, edx := c_edx c,
     esi := c_esi c, edi := c_edi c, ebp := c_ebp c, esp := c_esp c, eip := c_eip c, cs_reg := c_cs c, ss_reg := c_ss c\<rparr>"

text \<open>The words the processor pushes for a context, lowest address first, and where they end for kernel code.\<close>

definition gate_frame :: "ctx \<Rightarrow> u32 list" where
  "gate_frame c = [c_eip c, c_cs c, c_flags c] @ (if c_cs c AND 3 \<noteq> 0 then [c_esp c, c_ss c] else [])"

definition gate_saved :: "addr \<Rightarrow> ctx \<Rightarrow> 'a cpu_scheme \<Rightarrow> bool" where
  "gate_saved a c st \<longleftrightarrow> stack_at (vmem st) a (gate_frame c) \<and>
     (c_cs c AND 3 = 0 \<longrightarrow> c_esp c = a + 12 \<and> c_ss c = 0x18)"

lemma flags_set_flags [simp]: "flags (set_flags v st) = v"
proof (rule bit_word_eqI)
  fix n assume n: "n < LENGTH(32)"
  consider "n < 9" | "n = 9" | "10 \<le> n" by linarith
  then show "bit (flags (set_flags v st)) n = bit v n"
    using n by cases (simp_all add: flags_def set_flags_def bit_put_bits)
qed

lemma context_of_resume: "context_of (resume c st) = c"
proof -
  have "flags (resume c st) = flags (set_flags (c_flags c) st)" by (simp add: resume_def flags_def)
  then have "flags (resume c st) = c_flags c" by simp
  then show ?thesis unfolding context_of_def by (simp add: resume_def set_flags_def)
qed

lemma iret_gate:
  assumes "gate_saved (esp st) c st" "ss_reg st = 0x18"
  shows "iret st = (set_flags (c_flags c) st)\<lparr>esp := c_esp c, eip := c_eip c, cs_reg := c_cs c, ss_reg := c_ss c\<rparr>"
  using assms by (cases "c_cs c AND 3 = 0")
    (simp_all add: gate_saved_def gate_frame_def iret_def popfl_def pop_def set_flags_def Let_def algebra_simps)

text \<open>A list of pushes is one write below the stack pointer.\<close>

definition words :: "u32 list \<Rightarrow> u8 list" where
  "words vs = concat (map bytes_of32 vs)"

lemma length_words [simp]: "length (words vs) = 4 * length vs"
  by (induction vs) (simp_all add: words_def)

lemma pushes_simps: "pushes [] st = st" "pushes (v # vs) st = pushes vs (push v st)"
  "pushes (vs @ ws) st = pushes ws (pushes vs st)"
  by (simp_all add: pushes_def)

lemma esp_pushes [simp]: "esp (pushes vs st) = esp st - 4 * of_nat (length vs)"
  by (induction vs arbitrary: st) (simp_all add: pushes_simps algebra_simps)

lemma set_vmem_push: "push v (set_vmem m (st\<lparr>esp := a\<rparr>)) = set_vmem (write32 m (a - 4) v) (st\<lparr>esp := a - 4\<rparr>)"
proof -
  have "(set_vmem m (st\<lparr>esp := a\<rparr>))\<lparr>esp := a - 4\<rparr> = set_vmem m (st\<lparr>esp := a - 4\<rparr>)"
    by (simp add: set_vmem_def remap_def user_mapped_def)
  then show ?thesis unfolding push_def Let_def by (simp add: paged.set_set)
qed

lemma pushes_frame:
  "\<exists>m. pushes vs st = set_vmem m (st\<lparr>esp := esp st - 4 * of_nat (length vs)\<rparr>)"
proof (induction vs rule: rev_induct)
  case Nil
  have "set_vmem (vmem st) st = st" by (rule paged.set_view_same)
  then show ?case by (intro exI [of _ "vmem st"]) (simp add: pushes_simps)
next
  case (snoc v vs)
  then obtain m where m: "pushes vs st = set_vmem m (st\<lparr>esp := esp st - 4 * of_nat (length vs)\<rparr>)" by blast
  show ?case by (simp add: pushes_simps m set_vmem_push algebra_simps) blast
qed

lemma set_vmem_cpu [simp]:
  "eax (set_vmem m c) = eax c" "ebx (set_vmem m c) = ebx c" "ecx (set_vmem m c) = ecx c"
  "edx (set_vmem m c) = edx c" "esi (set_vmem m c) = esi c" "edi (set_vmem m c) = edi c"
  "eflags (set_vmem m c) = eflags c" "eip (set_vmem m c) = eip c" "cs_reg (set_vmem m c) = cs_reg c"
  "ss_reg (set_vmem m c) = ss_reg c" "idt (set_vmem m c) = idt c" "flags (set_vmem m c) = flags c"
  by (simp_all add: set_vmem_def flags_def)

lemma pushes_regs [simp]:
  "eax (pushes vs c) = eax c" "ebx (pushes vs c) = ebx c" "ecx (pushes vs c) = ecx c"
  "edx (pushes vs c) = edx c" "esi (pushes vs c) = esi c" "edi (pushes vs c) = edi c"
  "eflags (pushes vs c) = eflags c" "eip (pushes vs c) = eip c" "cs_reg (pushes vs c) = cs_reg c"
  "ss_reg (pushes vs c) = ss_reg c" "idt (pushes vs c) = idt c" "flags (pushes vs c) = flags c"
  "ebp (pushes vs c) = ebp c" "int_flag (pushes vs c) = int_flag c" "tss_esp0 (pushes vs c) = tss_esp0 c"
proof -
  obtain m where m: "pushes vs c = set_vmem m (c\<lparr>esp := esp c - 4 * of_nat (length vs)\<rparr>)"
    using pushes_frame by blast
  show "eax (pushes vs c) = eax c" "ebx (pushes vs c) = ebx c" "ecx (pushes vs c) = ecx c"
    "edx (pushes vs c) = edx c" "esi (pushes vs c) = esi c" "edi (pushes vs c) = edi c"
    "eflags (pushes vs c) = eflags c" "eip (pushes vs c) = eip c" "cs_reg (pushes vs c) = cs_reg c"
    "ss_reg (pushes vs c) = ss_reg c" "idt (pushes vs c) = idt c" "flags (pushes vs c) = flags c"
    "ebp (pushes vs c) = ebp c" "int_flag (pushes vs c) = int_flag c" "tss_esp0 (pushes vs c) = tss_esp0 c"
    unfolding m by (simp_all add: flags_def)
qed

lemma stack_pushes:
  "stack_at (vmem st) (esp st) ws \<Longrightarrow> length vs + length ws < 1000 \<Longrightarrow>
    stack_at (vmem (pushes vs st)) (esp st - 4 * of_nat (length vs)) (rev vs @ ws)"
proof (induction vs arbitrary: st ws)
  case (Cons v vs)
  have "stack_at (vmem (push v st)) (esp (push v st)) (v # ws)" using stack_push [OF Cons.prems(1)] Cons.prems(2) by simp
  from Cons.IH [OF this] Cons.prems(2) show ?case by (simp add: pushes_simps algebra_simps)
qed (simp add: pushes_simps)

lemma pushes_outside:
  "apart (esp st - 4 * of_nat (length vs)) (4 * length vs) a n \<Longrightarrow> length vs < 1000 \<Longrightarrow> n \<le> 4294967296 \<Longrightarrow>
    bytes (vmem (pushes vs st)) a n = bytes (vmem st) a n"
proof (induction vs arbitrary: st)
  case (Cons v vs)
  have "apart (esp st - 4 * of_nat (length (v # vs)) + of_nat 0) (4 * length vs) a n"
    by (rule apart_sub [OF Cons.prems(1)]) (use Cons.prems(2) in simp_all)
  moreover have "apart (esp st - 4 * of_nat (length (v # vs)) + of_nat (4 * length vs)) 4 a n"
    by (rule apart_sub [OF Cons.prems(1)]) (use Cons.prems(2) in simp_all)
  ultimately have ap: "apart (esp (push v st) - 4 * of_nat (length vs)) (4 * length vs) a n" "apart (esp st - 4) 4 a n"
    by (simp_all add: algebra_simps)
  have "bytes (vmem (push v st)) a n = bytes (vmem st) a n"
    unfolding vmem_push write32_def using ap(2) Cons.prems(3) by (intro bytes_write_apart) simp_all
  then show ?case using Cons.IH [OF ap(1)] Cons.prems by (simp add: pushes_simps)
qed (simp add: pushes_simps)

end
