(* ===== verification/Linkage.thy ===== *)
theory Linkage imports Cpu begin

text \<open>
  The assembly between the processor and the C code: the linkage macro \<open>INT_LINKAGE\<close> of
  \<^verbatim>\<open>src/src/x86_desc.h\<close> with its 23 instances and \<open>system_call_linkage\<close> of \<^verbatim>\<open>src/src/x86_desc.S\<close>, and the
  dispatcher of \<^verbatim>\<open>src/src/sys_calls_handler.S\<close>.  The words they keep on the kernel stack are described by
  \<open>stub_saved\<close> and \<open>call_saved\<close>.
\<close>

section \<open>What compiler and linker choose\<close>

text \<open>
  Addresses of the linkage routines and of the instructions behind their calls, sizes of the frames of
  \<open>exc_handler\<close>, of the handler it calls and of a system call, and the address behind the call in
  \<open>exc_handler\<close>.
\<close>

record code =
  linkage :: "stub \<Rightarrow> addr"
  ret_site :: "stub \<Rightarrow> addr"
  size_exc :: u32
  size_handler :: u32
  size_call :: u32
  ret_handler :: addr
  locals_exc :: exc_locals

text \<open>The values C code leaves in the registers and flags.\<close>

record junk =
  j_eax :: u32
  j_ebx :: u32
  j_ecx :: u32
  j_edx :: u32
  j_esi :: u32
  j_edi :: u32
  j_eflags :: u32

definition clobber :: "junk \<Rightarrow> 'a cpu_scheme \<Rightarrow> 'a cpu_scheme" where
  "clobber j st = st\<lparr>eax := j_eax j, ebx := j_ebx j, ecx := j_ecx j, edx := j_edx j, esi := j_esi j, edi := j_edi j,
     eflags := j_eflags j\<rparr>"

section \<open>The linkage of exceptions and interrupts\<close>

text \<open>The vector and the size of the error code of each instance of the macro.\<close>

fun linkage_params :: "stub \<Rightarrow> u32 \<times> u32" where
  "linkage_params RTC_linkage = (0x28, 0)"
| "linkage_params keyboard_linkage = (0x21, 0)"
| "linkage_params PIT_linkage = (0x20, 0)"
| "linkage_params division_error_linkage = (0x0, 0)"
| "linkage_params debug_linkage = (0x1, 0)"
| "linkage_params NMI_linkage = (0x2, 0)"
| "linkage_params breakpoint_linkage = (0x3, 0)"
| "linkage_params overflow_linkage = (0x4, 0)"
| "linkage_params bound_range_interrupt_linkage = (0x5, 0)"
| "linkage_params invalid_opcode_linkage = (0x6, 0)"
| "linkage_params device_not_avalible_linkage = (0x7, 0)"
| "linkage_params double_fault_linkage = (0x8, 4)"
| "linkage_params coprocessor_overrun_linkage = (0x9, 0)"
| "linkage_params invalid_tss_linkage = (0xA, 4)"
| "linkage_params segment_not_present_linkage = (0xB, 4)"
| "linkage_params stack_segfault_linkage = (0xC, 4)"
| "linkage_params general_protection_fault_linkage = (0xD, 4)"
| "linkage_params page_fault_linkage = (0xE, 4)"
| "linkage_params assert_fault_linkage = (0xF, 0)"
| "linkage_params x87_floating_point_linkage = (0x10, 0)"
| "linkage_params alignment_check_linkage = (0x11, 4)"
| "linkage_params machine_check_linkage = (0x12, 4)"
| "linkage_params SIMD_floating_point_linkage = (0x13, 4)"
| "linkage_params system_call_linkage = (0, 0)"

text \<open>The macro before its call and after it.\<close>

definition linkage_enter :: "u32 \<Rightarrow> 'a cpu_scheme \<Rightarrow> 'a cpu_scheme" where
  "linkage_enter vector st =
     (let st = pushal st;
          st = push (flags st) st
      in push vector st)"

definition linkage_leave :: "u32 \<Rightarrow> 'a cpu_scheme \<Rightarrow> 'a cpu_scheme" where
  "linkage_leave has_error_code st =
     (let st = st\<lparr>esp := esp st + 4\<rparr>;
          st = popfl st;
          st = popal st;
          st = st\<lparr>esp := esp st + has_error_code\<rparr>
      in iret st)"

text \<open>
  \<open>exc_handler\<close> with its frame, from its call to its return.  The vector is its argument on the stack.
  When the timer's handler has switched stacks it has left its own frame as \<open>return_to_parent\<close> does.
\<close>

definition call_exc_handler ::
  "code \<Rightarrow> junk \<Rightarrow> u8 \<Rightarrow> 'a cpu_scheme \<Rightarrow> ('a cpu_scheme \<times> user_frame option) res" where
  "call_exc_handler c j scan_code st =
     (let st = c_enter (size_exc c) st;
          vector = sint (read32 (vmem st) (ebp st + 8));
          st = c_enter (size_handler c) (push (ret_handler c) st);
          running = cur_process st
      in andthen (exc_handler (locals_exc c) scan_code vector st) (\<lambda>(st, started).
         case started of
           Some frame \<Rightarrow> Inr (clobber j st, Some frame)
         | None \<Rightarrow>
             (let st = (if vector = 0x20 \<and> cur_process st \<noteq> running then st else snd (pop (c_leave st)))
              in Inr (clobber j (c_leave st), None))))"

text \<open>A new shell is entered by the \<^verbatim>\<open>iret\<close> of \<open>execute\<close>.\<close>

definition enter_user :: "user_frame \<Rightarrow> 'a cpu_scheme \<Rightarrow> 'a cpu_scheme" where
  "enter_user frame st = (set_flags (uf_eflags frame) st)\<lparr>esp := uf_esp frame, ss_reg := uf_ss frame,
     cs_reg := uf_cs frame, eip := uf_eip frame\<rparr>"

definition all_stubs :: "stub list" where
  "all_stubs = map fst interrupt_gates"

definition int_linkage :: "code \<Rightarrow> junk \<Rightarrow> u8 \<Rightarrow> stub \<Rightarrow> 'a cpu_scheme \<Rightarrow> 'a cpu_scheme res" where
  "int_linkage c j scan_code s st =
     (let st = linkage_enter (fst (linkage_params s)) st;
          st = push (ret_site c s) st
      in andthen (call_exc_handler c j scan_code st) (\<lambda>(st, started).
         case started of
           Some frame \<Rightarrow> Inr (enter_user frame st)
         | None \<Rightarrow>
             (let (a, st) = pop st
              in case find (\<lambda>s. ret_site c s = a) all_stubs of
                   None \<Rightarrow> Inl StrayReturn
                 | Some s \<Rightarrow> Inr (linkage_leave (snd (linkage_params s)) st))))"

section \<open>The linkage of system calls\<close>

text \<open>The jump table; \<open>wait\<close>, \<open>prev\<close> and the entries are the parameters of the calls that have them.\<close>

record 'a call_params =
  p_execute :: execute_locals
  p_new_page :: u32
  p_wait :: "driver \<Rightarrow> 'a \<Rightarrow> 'a option"
  p_prev :: u8
  p_vidmem :: u32
  p_vidmem_pt :: u32

definition jump_table ::
  "'a kernel_scheme call_params \<Rightarrow> nat \<Rightarrow> u32 \<Rightarrow> u32 \<Rightarrow> u32 \<Rightarrow> 'a kernel_scheme \<Rightarrow> ('a kernel_scheme \<times> outcome) res" where
  "jump_table l n a b c st =
     (if n = 1 then halt ((p_execute l)\<lparr>frame_pointer := ebp st\<rparr>) (p_new_page l) a st
      else if n = 2 then execute ((p_execute l)\<lparr>frame_pointer := ebp st\<rparr>) a st
      else if n = 3 then read (p_wait l) (sint a) b (sint c) st
      else if n = 4 then write_sys (sint a) b (sint c) st
      else if n = 5 then open_sys (p_prev l) a st
      else if n = 6 then close (sint a) st
      else if n = 7 then getargs a (sint b) st
      else if n = 8 then vidmap (p_vidmem l) (p_vidmem_pt l) a st
      else if n = 9 then set_handler (sint a) b st
      else sigreturn st)"

text \<open>
  The dispatcher up to the body of the system call, whose frame lies below the four words that take
  the place of a return address and the three arguments.
\<close>

definition dispatch_enter :: "'a cpu_scheme \<Rightarrow> 'a cpu_scheme" where
  "dispatch_enter st =
     (let st = push (ebp st) st;
          st = st\<lparr>ebp := esp st\<rparr>
      in pushes [ebx st, esi st, edi st] st)"

definition call_enter :: "code \<Rightarrow> 'a cpu_scheme \<Rightarrow> 'a cpu_scheme" where
  "call_enter c st = c_enter (size_call c) (pushes [edx st, ecx st, ebx st, 0] st)"

definition sys_calls_handler_end :: "'a cpu_scheme \<Rightarrow> 'a cpu_scheme" where
  "sys_calls_handler_end st =
     (let st = st\<lparr>esp := esp st + 20\<rparr>;
          (v, st) = pop st; st = st\<lparr>ebx := v\<rparr>;
          (v, st) = pop st; st = st\<lparr>esi := v\<rparr>;
          (v, st) = pop st; st = st\<lparr>edi := v\<rparr>;
          (v, st) = pop st
      in st\<lparr>ebp := v\<rparr>)"

text \<open>
  The dispatcher.  A call that returns as C functions do takes the 0 the dispatcher pushed for its
  return address; the result of \<open>execute\<close> that starts a program is the frame it starts with.
\<close>

definition sys_calls_handler ::
  "code \<Rightarrow> junk \<Rightarrow> 'a cpu_ext entry_ext kernel_scheme call_params \<Rightarrow> 'a cpu_scheme \<Rightarrow> ('a cpu_scheme \<times> user_frame option) res" where
  "sys_calls_handler c j l st =
     (let st = dispatch_enter st in
      if eax st <s 1 \<or> 10 <s eax st then
        (let st = st\<lparr>eax := - 1\<rparr>;
             st = st\<lparr>esp := esp st - 20\<rparr>
         in Inr (sys_calls_handler_end st, None))
      else
        (let n = unat (eax st);
             st = call_enter c st;
             a = (\<lambda>i. read32 (vmem st) (ebp st + 4 + 4 * i))
         in andthen (jump_table l n (a 1) (a 2) (a 3) st) (\<lambda>(st, out).
            case out of
              To_user frame \<Rightarrow> Inr (clobber j st, Some frame)
            | C_return v \<Rightarrow> Inl StrayReturn
            | Sys_return v \<Rightarrow> Inr (sys_calls_handler_end ((clobber j st)\<lparr>eax := of_int v\<rparr>), None))))"

definition system_call_enter :: "'a cpu_scheme \<Rightarrow> 'a cpu_scheme" where
  "system_call_enter st = pushes [flags st, ebx st, ecx st, edx st, esi st, edi st, ebp st] st"

definition system_call_leave :: "'a cpu_scheme \<Rightarrow> 'a cpu_scheme" where
  "system_call_leave st =
     (let (v, st) = pop st; st = st\<lparr>ebp := v\<rparr>;
          (v, st) = pop st; st = st\<lparr>edi := v\<rparr>;
          (v, st) = pop st; st = st\<lparr>esi := v\<rparr>;
          (v, st) = pop st; st = st\<lparr>edx := v\<rparr>;
          (v, st) = pop st; st = st\<lparr>ecx := v\<rparr>;
          (v, st) = pop st; st = st\<lparr>ebx := v\<rparr>;
          st = popfl st
      in iret st)"

definition system_call ::
  "code \<Rightarrow> junk \<Rightarrow> 'a cpu_ext entry_ext kernel_scheme call_params \<Rightarrow> 'a cpu_scheme \<Rightarrow> 'a cpu_scheme res" where
  "system_call c j l st =
     (let st = system_call_enter st;
          st = push (ret_site c system_call_linkage) st
      in andthen (sys_calls_handler c j l st) (\<lambda>(st, started).
         case started of
           Some frame \<Rightarrow> Inr (enter_user frame st)
         | None \<Rightarrow>
             (let (a, st) = pop st
              in if a = ret_site c system_call_linkage then Inr (system_call_leave st) else Inl StrayReturn)))"

section \<open>Delivery\<close>

text \<open>An interrupt, exception or \<open>int 0x80\<close> through the table; \<open>err\<close> is the error code of the exceptions with one.\<close>

definition deliver ::
  "code \<Rightarrow> junk \<Rightarrow> 'a cpu_ext entry_ext kernel_scheme call_params \<Rightarrow> u8 \<Rightarrow> nat \<Rightarrow> u32 list \<Rightarrow> 'a cpu_scheme \<Rightarrow> 'a cpu_scheme res option" where
  "deliver c j l scan_code v err st =
     map_option (\<lambda>g.
       let st = enter_gate g err st
       in if g_offset g = linkage c system_call_linkage then system_call c j l st
          else case find (\<lambda>s. linkage c s = g_offset g) all_stubs of
                 None \<Rightarrow> Inl StrayReturn
               | Some s \<Rightarrow> int_linkage c j scan_code s st)
       (decode_gate (desc_bytes (idt st v)))"

section \<open>What the stack keeps\<close>

text \<open>\<open>stub_saved n a c st\<close>: from \<open>a\<close> on, the words of the macro and of the processor for context \<open>c\<close>, with \<open>n\<close> bytes of error code.\<close>

definition stub_saved :: "u32 \<Rightarrow> addr \<Rightarrow> ctx \<Rightarrow> 'a cpu_scheme \<Rightarrow> bool" where
  "stub_saved n a c st \<longleftrightarrow> stack_at (vmem st) (a + 8) [c_edi c, c_esi c, c_ebp c] \<and>
     stack_at (vmem st) (a + 24) [c_ebx c, c_edx c, c_ecx c, c_eax c] \<and> gate_saved (a + 40 + n) c st"

lemma linkage_leave_saved:
  assumes "stub_saved n (esp st) c st" "ss_reg st = 0x18"
  shows "linkage_leave n st = resume c st"
proof -
  define st1 where "st1 = (popal (popfl (st\<lparr>esp := esp st + 4\<rparr>)))\<lparr>esp := esp st + 40 + n\<rparr>"
  have w: "read32 (vmem st) (esp st + 8) = c_edi c" "read32 (vmem st) (esp st + 12) = c_esi c"
    "read32 (vmem st) (esp st + 16) = c_ebp c" "read32 (vmem st) (esp st + 24) = c_ebx c"
    "read32 (vmem st) (esp st + 28) = c_edx c" "read32 (vmem st) (esp st + 32) = c_ecx c"
    "read32 (vmem st) (esp st + 36) = c_eax c"
    using assms by (simp_all add: stub_saved_def add.assoc)
  have l: "linkage_leave n st = iret st1" unfolding linkage_leave_def st1_def
    by (simp add: popfl_def popal_def pop_def Let_def set_flags_def algebra_simps)
  have "gate_saved (esp st1) c st1" "ss_reg st1 = 0x18" using assms
    by (simp_all add: stub_saved_def gate_saved_def st1_def popfl_def popal_def pop_def set_flags_def Let_def)
  from iret_gate [OF this] show ?thesis unfolding l
    by (simp add: st1_def popfl_def popal_def pop_def set_flags_def Let_def resume_def add.assoc w)
qed

lemma linkage_enter_pushes:
  "linkage_enter v st =
    pushes [eax st, ecx st, edx st, ebx st, esp st, ebp st, esi st, edi st, flags st, v] st"
proof -
  let ?vs = "[eax st, ecx st, edx st, ebx st, esp st, ebp st, esi st, edi st]"
  have "linkage_enter v st = pushes (?vs @ [flags (pushes ?vs st), v]) st"
    by (simp only: linkage_enter_def pushal_def Let_def pushes_simps)
  then show ?thesis by (simp only: pushes_regs append.simps)
qed

text \<open>The context, the error code and the room the processor's words take.\<close>

definition frame_room :: "ctx \<Rightarrow> u32" where
  "frame_room c = 4 * of_nat (length (gate_frame c))"

lemma linkage_enter_saved:
  assumes "stack_at (vmem st) (esp st) (err @ gate_frame c)" "length err \<le> 1"
    and "eax st = c_eax c" "ebx st = c_ebx c" "ecx st = c_ecx c" "edx st = c_edx c"
      "esi st = c_esi c" "edi st = c_edi c" "ebp st = c_ebp c"
    and "c_cs c AND 3 = 0 \<longrightarrow> c_esp c = esp st + 4 * of_nat (length err) + 12 \<and> c_ss c = 0x18"
  shows "esp (linkage_enter v st) = esp st - 40"
    "read32 (vmem (linkage_enter v st)) (esp st - 40) = v"
    "stub_saved (4 * of_nat (length err)) (esp st - 40) c (linkage_enter v st)"
proof -
  let ?vs = "[eax st, ecx st, edx st, ebx st, esp st, ebp st, esi st, edi st, flags st, v]"
  show "esp (linkage_enter v st) = esp st - 40" by (simp add: linkage_enter_pushes)
  have g: "length (gate_frame c) \<le> 5" by (simp add: gate_frame_def)
  have "stack_at (vmem (pushes ?vs st)) (esp st - 4 * of_nat (length ?vs)) (rev ?vs @ err @ gate_frame c)"
    by (rule stack_pushes [OF assms(1)]) (use assms(2) g in simp)
  then have s: "stack_at (vmem (linkage_enter v st)) (esp st - 40) (rev ?vs @ err @ gate_frame c)"
    by (simp only: linkage_enter_pushes [symmetric]) simp
  then show "read32 (vmem (linkage_enter v st)) (esp st - 40) = v" by simp
  show "stub_saved (4 * of_nat (length err)) (esp st - 40) c (linkage_enter v st)"
    using s assms(3-10) unfolding stub_saved_def gate_saved_def
    by (simp add: stack_at_append add.assoc linkage_enter_pushes [of v st])
qed

lemma enter_gate_pushes:
  defines "outer st \<equiv> if cs_reg st AND 3 \<noteq> 0
    then pushes [ss_reg st, esp st] (st\<lparr>esp := tss_esp0 st, ss_reg := ucast (tss_ss0 st)\<rparr>) else st"
  shows "enter_gate g err st = (pushes ([flags st, cs_reg st, eip st] @ err) (outer st))
    \<lparr>int_flag := g_type g \<noteq> 0xE \<and> int_flag st, eflags := gate_flags (eflags st), cs_reg := g_selector g, eip := g_offset g\<rparr>"
  unfolding enter_gate_def Let_def outer_def by (simp)

lemma enter_gate_stack:
  fixes st :: "'a cpu_scheme"
  assumes "length err \<le> 1"
  shows "stack_at (vmem (enter_gate g err st)) (esp (enter_gate g err st)) (err @ gate_frame (context_of st))"
    "cs_reg st AND 3 = 0 \<Longrightarrow> esp st = esp (enter_gate g err st) + 4 * of_nat (length err) + 12" "tss_ss0 st = 0x18 \<Longrightarrow> ss_reg st = 0x18 \<or> cs_reg st AND 3 \<noteq> 0 \<Longrightarrow> ss_reg (enter_gate g err st) = 0x18"
proof -
  let ?u = "st\<lparr>esp := tss_esp0 st, ss_reg := ucast (tss_ss0 st)\<rparr>"
  define o' where "o' = (if cs_reg st AND 3 \<noteq> 0 then pushes [ss_reg st, esp st] ?u else st)"
  define w where "w = (if cs_reg st AND 3 \<noteq> 0 then [esp st, ss_reg st] else [])"
  have e: "enter_gate g err st = (pushes ([flags st, cs_reg st, eip st] @ err) o')
    \<lparr>int_flag := g_type g \<noteq> 0xE \<and> int_flag st, eflags := gate_flags (eflags st), cs_reg := g_selector g, eip := g_offset g\<rparr>"
    unfolding o'_def by (rule enter_gate_pushes)
  have "stack_at (vmem o') (esp o') w"
    using stack_pushes [of ?u "[]" "[ss_reg st, esp st]"] by (simp add: o'_def w_def)
  then have "stack_at (vmem (pushes ([flags st, cs_reg st, eip st] @ err) o'))
      (esp o' - 4 * of_nat (length ([flags st, cs_reg st, eip st] @ err))) (rev ([flags st, cs_reg st, eip st] @ err) @ w)"
    by (rule stack_pushes) (use assms in \<open>simp add: w_def\<close>)
  moreover have "rev ([flags st, cs_reg st, eip st] @ err) @ w = err @ gate_frame (context_of st)"
    using assms by (cases err) (simp_all add: w_def gate_frame_def context_of_def)
  ultimately show "stack_at (vmem (enter_gate g err st)) (esp (enter_gate g err st)) (err @ gate_frame (context_of st))"
    unfolding e by simp
  show "esp st = esp (enter_gate g err st) + 4 * of_nat (length err) + 12"
    if "cs_reg st AND 3 = 0"
    using that unfolding e o'_def by (simp add: algebra_simps)
  show "ss_reg (enter_gate g err st) = 0x18" if "tss_ss0 st = 0x18" "ss_reg st = 0x18 \<or> cs_reg st AND 3 \<noteq> 0"
    using that unfolding e o'_def by auto
qed

lemma stack_at_sub:
  assumes "bytes m' a k = bytes m a k" "n + 4 * length vs \<le> k" "b = a + of_nat n"
  shows "stack_at m' b vs = stack_at m b vs"
proof (rule stack_at_cong)
  have "bytes x b (4 * length vs) = take (4 * length vs) (drop n (bytes x a k))" for x
    using assms(2) by (simp add: drop_bytes take_bytes assms(3))
  then show "bytes m' b (4 * length vs) = bytes m b (4 * length vs)" using assms(1) by simp
qed

lemma read32_sub: "bytes m' a k = bytes m a k \<Longrightarrow> n + 4 \<le> k \<Longrightarrow> b = a + of_nat n \<Longrightarrow> read32 m' b = read32 m b"
  using stack_at_sub [of m' a k m n "[read32 m b]" b] by simp

lemma stub_saved_cong:
  assumes "bytes (vmem st') a (60 + unat n) = bytes (vmem st) a (60 + unat n)" "n = 0 \<or> n = 4"
  shows "stub_saved n a c st' = stub_saved n a c st"
proof -
  have g: "length (gate_frame c) \<le> 5" by (simp add: gate_frame_def)
  have "stack_at (vmem st') (a + 40 + n) (gate_frame c) = stack_at (vmem st) (a + 40 + n) (gate_frame c)"
    using assms(2)
  proof
    assume "n = 0"
    then show ?thesis using g by (intro stack_at_sub [OF assms(1), of 40]) simp_all
  next
    assume "n = 4"
    then show ?thesis using g by (intro stack_at_sub [OF assms(1), of 44]) simp_all
  qed
  moreover have "stack_at (vmem st') (a + 8) [c_edi c, c_esi c, c_ebp c] = stack_at (vmem st) (a + 8) [c_edi c, c_esi c, c_ebp c]"
    by (rule stack_at_sub [OF assms(1), of 8]) simp_all
  moreover have "stack_at (vmem st') (a + 24) [c_ebx c, c_edx c, c_ecx c, c_eax c] =
      stack_at (vmem st) (a + 24) [c_ebx c, c_edx c, c_ecx c, c_eax c]"
    by (rule stack_at_sub [OF assms(1), of 24]) simp_all
  ultimately show ?thesis by (simp only: stub_saved_def gate_saved_def)
qed

text \<open>
  \<open>exc_parked c f s ctx st\<close>: \<open>f\<close> is a frame of \<open>exc_handler\<close> called from the routine \<open>s\<close>, which keeps
  context \<open>ctx\<close>.
\<close>

definition exc_parked :: "code \<Rightarrow> addr \<Rightarrow> stub \<Rightarrow> ctx \<Rightarrow> 'a cpu_scheme \<Rightarrow> bool" where
  "exc_parked c f s ctx st \<longleftrightarrow> read32 (vmem st) (f + 4) = ret_site c s \<and>
     stub_saved (snd (linkage_params s)) (f + 8) ctx st"

lemma error_size: "snd (linkage_params s) = 0 \<or> snd (linkage_params s) = 4"
  by (cases s) simp_all

lemma exc_parked_cong:
  assumes "bytes (vmem st') f (68 + unat (snd (linkage_params s))) = bytes (vmem st) f (68 + unat (snd (linkage_params s)))"
  shows "exc_parked c f s ctx st' = exc_parked c f s ctx st"
proof -
  let ?n = "unat (snd (linkage_params s))"
  have "bytes x (f + 8) (60 + ?n) = drop 8 (bytes x f (68 + ?n))" for x by (simp add: drop_bytes)
  then have "bytes (vmem st') (f + 8) (60 + ?n) = bytes (vmem st) (f + 8) (60 + ?n)" using assms(1) by simp
  from stub_saved_cong [OF this error_size] read32_sub [OF assms(1), of 4 "f + 4"]
  show ?thesis by (simp add: exc_parked_def)
qed

text \<open>The stack when the handler of an interrupt starts.\<close>

lemma inner_frame:
  fixes st :: "'a cpu_scheme"
  assumes "stub_saved (snd (linkage_params s)) (esp st) ctx st" "unat (size_exc c) \<le> 4096"
  defines "st1 \<equiv> c_enter (size_exc c) (push (ret_site c s) st)"
  defines "st2 \<equiv> c_enter (size_handler c) (push (ret_handler c) st1)"
  shows "read32 (vmem st1) (ebp st1 + 8) = read32 (vmem st) (esp st)"
    "ebp st2 = esp st - 16 - size_exc c" "read32 (vmem st2) (ebp st2) = esp st - 8"
    "exc_parked c (esp st - 8) s ctx st2"
proof -
  let ?E = "esp st" and ?n = "size_exc c"
  define sa where "sa = push (ret_site c s) st"
  have b64: "bytes (vmem sa) ?E 68 = bytes (vmem st) ?E 68"
    unfolding sa_def by (rule push_outside) (simp_all add: below_apart)
  have v1: "vmem st1 = vmem (push (ebp sa) sa)" by (simp add: st1_def sa_def vmem_c_enter)
  have sa: "esp sa = ?E - 4" "read32 (vmem sa) (?E - 4) = ret_site c s"
    by (simp_all add: sa_def vmem_push region_simps)
  have e1: "ebp st1 = ?E - 8" "esp st1 = ?E - 8 - ?n" by (simp_all add: st1_def)
  have b1: "bytes (vmem st1) (?E - 4) 72 = bytes (vmem sa) (?E - 4) 72"
    unfolding v1 using push_outside [of sa "?E - 4" 72] below_apart [of 72 "?E - 4"] by (simp add: sa(1))
  have t: "bytes x ?E 68 = drop 4 (bytes x (?E - 4) 72)" for x by (simp add: drop_bytes)
  have b0: "bytes (vmem st1) ?E 68 = bytes (vmem st) ?E 68" unfolding t b1 using b64 unfolding t .
  show "read32 (vmem st1) (ebp st1 + 8) = read32 (vmem st) (esp st)"
    using read32_sub [OF b0, of 0 ?E] by (simp add: e1)
  show e2: "ebp st2 = esp st - 16 - ?n" by (simp add: st2_def e1)
  define sb where "sb = push (ret_handler c) st1"
  have b2: "bytes (vmem sb) (?E - 8) 80 = bytes (vmem st1) (?E - 8) 80"
  proof -
    have "apart (?E - 8 - (?n + 4)) 4 (?E - 8) 80"
      using assms(2) by (intro apart_minus) (simp_all add: unat_word_ariths)
    then show ?thesis unfolding sb_def by (intro push_outside) (simp_all add: e1 algebra_simps)
  qed
  have b3: "bytes (vmem st2) (?E - 8) 80 = bytes (vmem sb) (?E - 8) 80"
  proof -
    have "apart (?E - 8 - (?n + 8)) 4 (?E - 8) 80"
      using assms(2) by (intro apart_minus) (simp_all add: unat_word_ariths)
    then show ?thesis unfolding st2_def vmem_c_enter sb_def [symmetric]
      by (intro push_outside) (simp_all add: sb_def e1 algebra_simps)
  qed
  show "read32 (vmem st2) (ebp st2) = esp st - 8"
    unfolding e2 unfolding st2_def vmem_c_enter vmem_push
    by (simp add: e1 region_simps algebra_simps)
  have bb: "bytes (vmem st2) (?E - 8) 80 = bytes (vmem st1) (?E - 8) 80" using b2 b3 by simp
  have n: "unat (snd (linkage_params s)) \<le> 4" using error_size [of s] by auto
  have p1: "exc_parked c (?E - 8) s ctx st1"
  proof -
    have "read32 (vmem st1) (?E - 4) = ret_site c s"
      using read32_sub [OF b1, of 0 "?E - 4"] sa(2) by simp
    moreover have "bytes (vmem st1) ?E (60 + unat (snd (linkage_params s))) = bytes (vmem st) ?E (60 + unat (snd (linkage_params s)))"
      using arg_cong [OF b0, of "take (60 + unat (snd (linkage_params s)))"] n by (simp add: take_bytes)
    ultimately show ?thesis
      using assms(1) stub_saved_cong [of st1 ?E "snd (linkage_params s)" st ctx, OF _ error_size]
      by (simp add: exc_parked_def)
  qed
  show "exc_parked c (esp st - 8) s ctx st2"
    using p1 exc_parked_cong [of st2 "?E - 8" s st1 c ctx] arg_cong [OF bb, of "take (68 + unat (snd (linkage_params s)))"] n
    by (simp add: take_bytes)
qed

text \<open>
  The way back: from a frame of \<open>exc_handler\<close>, and from the frame of the handler it calls, whose first
  word leads to the former.
\<close>

definition handler_parked :: "code \<Rightarrow> addr \<Rightarrow> stub \<Rightarrow> ctx \<Rightarrow> 'a cpu_scheme \<Rightarrow> bool" where
  "handler_parked c e s ctx st \<longleftrightarrow> exc_parked c (read32 (vmem st) e) s ctx st"

definition sites_ok :: "code \<Rightarrow> bool" where
  "sites_ok c \<longleftrightarrow> distinct (map (ret_site c) (system_call_linkage # all_stubs)) \<and>
     distinct (map (linkage c) (system_call_linkage # all_stubs)) \<and> unat (size_exc c) \<le> 1024 \<and>
     unat (size_handler c) \<le> 1024 \<and> unat (size_call c) \<le> 1024"

lemma find_site:
  assumes "distinct (map f xs)" "x \<in> set xs"
  shows "find (\<lambda>y. f y = f x) xs = Some x"
  using assms by (induction xs) (auto simp: image_iff)

lemma resume_regs [simp]:
  "resume ctx (clobber j st) = resume ctx st" "resume ctx (st\<lparr>esp := a\<rparr>) = resume ctx st"
  "resume ctx (st\<lparr>ebp := a\<rparr>) = resume ctx st"
  by (simp_all add: resume_def clobber_def set_flags_def)

lemma exc_return:
  assumes "exc_parked c (ebp st) s ctx st" "s \<in> set all_stubs" "sites_ok c" "ss_reg st = 0x18"
  shows "(let (a, st) = pop (clobber j (c_leave st))
      in case find (\<lambda>s. ret_site c s = a) all_stubs of
           None \<Rightarrow> Inl StrayReturn
         | Some s \<Rightarrow> Inr (linkage_leave (snd (linkage_params s)) st)) = Inr (resume ctx st)"
proof -
  define st' where "st' = snd (pop (clobber j (c_leave st)))"
  have v: "vmem st' = vmem st" "esp st' = ebp st + 8" "ss_reg st' = ss_reg st" "resume ctx st' = resume ctx st"
    by (simp_all add: st'_def clobber_def c_leave_def pop_def Let_def) (simp add: resume_def set_flags_def)
  have a: "pop (clobber j (c_leave st)) = (ret_site c s, st')"
    using assms(1) by (simp add: st'_def exc_parked_def clobber_def c_leave_def pop_def Let_def)
  have "stub_saved (snd (linkage_params s)) (esp st') ctx st'"
    using assms(1) v by (simp add: exc_parked_def stub_saved_def gate_saved_def)
  from linkage_leave_saved [OF this] assms(4) show ?thesis
    using find_site [of "ret_site c" all_stubs s] assms(2,3) v by (simp add: a sites_ok_def)
qed

text \<open>An interrupt whose handler comes back resumes the context that the stack it comes back on keeps.\<close>

lemma int_linkage_returns:
  fixes st :: "'a cpu_scheme" and c :: code and s :: stub
  assumes "sites_ok c" "t \<in> set all_stubs"
  defines "st1 \<equiv> c_enter (size_exc c) (push (ret_site c s) (linkage_enter (fst (linkage_params s)) st))"
  defines "st2 \<equiv> c_enter (size_handler c) (push (ret_handler c) st1)"
  defines "v \<equiv> sint (read32 (vmem st1) (ebp st1 + 8))"
  assumes "exc_handler (locals_exc c) scan_code v st2 = Inr (st3, None)"
    and "if v = 0x20 \<and> cur_process st3 \<noteq> cur_process st2 then exc_parked c (ebp st3) t ctx st3
         else handler_parked c (ebp st3) t ctx st3"
    and "ss_reg st3 = 0x18"
  shows "int_linkage c j scan_code s st = Inr (resume ctx st3)"
proof -
  define sw where "sw \<longleftrightarrow> v = 0x20 \<and> cur_process st3 \<noteq> cur_process st2"
  define st4 where "st4 = (if sw then st3 else snd (pop (c_leave st3)))"
  have st2: "cur_process (c_enter (size_handler c) (push (ret_handler c) st1)) = cur_process st2"
    by (simp add: st2_def)
  have "call_exc_handler c j scan_code (push (ret_site c s) (linkage_enter (fst (linkage_params s)) st)) =
      Inr (clobber j (c_leave st4), None)"
    unfolding call_exc_handler_def Let_def st1_def [symmetric] st2_def [symmetric] v_def [symmetric]
      assms(6) st4_def sw_def by simp
  then have i: "int_linkage c j scan_code s st = (let (a, st) = pop (clobber j (c_leave st4))
      in case find (\<lambda>s. ret_site c s = a) all_stubs of
           None \<Rightarrow> Inl StrayReturn
         | Some s \<Rightarrow> Inr (linkage_leave (snd (linkage_params s)) st))"
    unfolding int_linkage_def Let_def by simp
  have "exc_parked c (ebp st4) t ctx st4 \<and> ss_reg st4 = ss_reg st3 \<and> resume ctx st4 = resume ctx st3"
  proof (cases sw)
    case True
    then show ?thesis using assms(7) by (simp add: st4_def sw_def)
  next
    case False
    then have s4: "st4 = snd (pop (c_leave st3))" and hp: "handler_parked c (ebp st3) t ctx st3"
      using assms(7) by (simp_all only: st4_def sw_def if_False)
    have "vmem st4 = vmem st3" "ebp st4 = read32 (vmem st3) (ebp st3)" "ss_reg st4 = ss_reg st3"
      "resume ctx st4 = resume ctx st3"
      by (simp_all add: s4 c_leave_def pop_def Let_def)
    then show ?thesis
      using hp by (simp add: handler_parked_def exc_parked_def stub_saved_def gate_saved_def)
  qed
  then show ?thesis unfolding i using exc_return [of c st4 t ctx j] assms(1,2,8) by simp
qed

end
