(* ===== verification/Switching.thy ===== *)
theory Switching imports Linkage Lifecycle begin

text \<open>
  Interrupts as a whole: the processor's entry through the table, the linkage, the C handler and the
  way back.  \<open>handler_state\<close> is the state in which the C handler starts; \<open>strip\<close> forgets what the
  entry changes, so that an equation of stripped states says that everything else is untouched.
\<close>

section \<open>The table in place\<close>

definition installed :: "code \<Rightarrow> 'a entry_scheme \<Rightarrow> bool" where
  "installed c st \<longleftrightarrow> (\<forall>v < 256. decode_gate (desc_bytes (idt st v)) = gate_table (linkage c) v)"

definition device_gate :: "code \<Rightarrow> stub \<Rightarrow> gate" where
  "device_gate c s = \<lparr>g_offset = linkage c s, g_selector = 0x10, g_type = 0xE, g_dpl = 0\<rparr>"

lemma interrupt_gates_props:
  "distinct (map snd interrupt_gates)" "distinct (map fst interrupt_gates)"
  "(s, v) \<in> set interrupt_gates \<Longrightarrow> fst (linkage_params s) = of_nat v \<and> v < 128 \<and> s \<in> set all_stubs \<and>
    s \<noteq> system_call_linkage"
  by (auto simp: interrupt_gates_def all_stubs_def)

lemma find_gate:
  assumes "(s, v) \<in> set interrupt_gates"
  shows "find (\<lambda>(s, w). w = v) interrupt_gates = Some (s, v)"
proof -
  have "find (\<lambda>y. snd y = snd (s, v)) interrupt_gates = Some (s, v)"
    using assms interrupt_gates_props(1) by (intro find_site)
  then show ?thesis unfolding split_def snd_conv .
qed

lemma deliver_device:
  assumes "sites_ok c" "installed c st" "(s, v) \<in> set interrupt_gates"
  shows "deliver c j l sc v err st = Some (int_linkage c j sc s (enter_gate (device_gate c s) err st))"
proof -
  note s = interrupt_gates_props(3) [OF assms(3)]
  have g: "decode_gate (desc_bytes (idt st v)) = Some (device_gate c s)"
    using assms(2) s find_gate [OF assms(3)] by (simp add: installed_def gate_table_def device_gate_def)
  have "linkage c s \<in> linkage c ` set all_stubs" using s by blast
  then have "linkage c s \<noteq> linkage c system_call_linkage"
    using assms(1) unfolding sites_ok_def by force
  moreover have "find (\<lambda>t. linkage c t = linkage c s) all_stubs = Some s"
    using assms(1) s by (intro find_site) (auto simp: sites_ok_def)
  ultimately show ?thesis by (simp add: deliver_def g) (simp add: device_gate_def)
qed

section \<open>What entering changes\<close>

definition strip :: "'a cpu_scheme \<Rightarrow> 'a cpu_scheme" where
  "strip st = st\<lparr>phys := \<lambda>_. 0, int_flag := False, esp := 0, ebp := 0, eax := 0, ebx := 0, ecx := 0, edx := 0,
     esi := 0, edi := 0, eflags := 0, eip := 0, cs_reg := 0, ss_reg := 0\<rparr>"

lemma strip_regs [simp]:
  "strip (st\<lparr>esp := a\<rparr>) = strip st" "strip (st\<lparr>ebp := a\<rparr>) = strip st" "strip (st\<lparr>int_flag := b\<rparr>) = strip st"
  "strip (set_vmem m st) = strip st" "strip (st\<lparr>ss_reg := a\<rparr>) = strip st" "strip (st\<lparr>cs_reg := a\<rparr>) = strip st"
  "strip (st\<lparr>eip := a\<rparr>) = strip st" "strip (st\<lparr>eflags := a\<rparr>) = strip st" "strip (resume ctx st) = strip st" "strip (clobber j st) = strip st"
  by (simp_all add: strip_def set_vmem_def resume_def set_flags_def clobber_def)

lemma strip_push [simp]: "strip (push v st) = strip st"
  by (simp add: push_def Let_def)

lemma strip_pushes [simp]: "strip (pushes vs st) = strip st"
  by (induction vs arbitrary: st) (simp_all add: pushes_simps)

lemma strip_c_enter [simp]: "strip (c_enter n st) = strip st"
  by (simp add: c_enter_def Let_def)

lemma strip_linkage_enter [simp]: "strip (linkage_enter v st) = strip st"
  by (simp add: linkage_enter_pushes)

lemma strip_enter_gate [simp]: "strip (enter_gate g err st) = strip st"
  by (simp add: enter_gate_pushes)

lemma strip_fields:
  assumes "strip st' = strip st"
  shows "pcbs st' = pcbs st" "pdt st' = pdt st" "cur_process st' = cur_process st"
    "base_shell_booted_bitmask st' = base_shell_booted_bitmask st" "cur_terminal st' = cur_terminal st"
    "tss_esp0 st' = tss_esp0 st" "tss_ss0 st' = tss_ss0 st" "rtc_flag st' = rtc_flag st"
    "rtc_counter st' = rtc_counter st" "rtc_freq st' = rtc_freq st" "idt st' = idt st" "out_log st' = out_log st"
    "user_mapped st' = user_mapped st" "remap st' = remap st"
proof -
  show f: "pcbs st' = pcbs st" "pdt st' = pdt st" "cur_process st' = cur_process st"
    "base_shell_booted_bitmask st' = base_shell_booted_bitmask st" "cur_terminal st' = cur_terminal st"
    "tss_esp0 st' = tss_esp0 st" "tss_ss0 st' = tss_ss0 st" "rtc_flag st' = rtc_flag st"
    "rtc_counter st' = rtc_counter st" "rtc_freq st' = rtc_freq st" "idt st' = idt st" "out_log st' = out_log st"
    using arg_cong [OF assms, of pcbs] arg_cong [OF assms, of pdt] arg_cong [OF assms, of cur_process]
      arg_cong [OF assms, of base_shell_booted_bitmask] arg_cong [OF assms, of cur_terminal]
      arg_cong [OF assms, of tss_esp0] arg_cong [OF assms, of tss_ss0] arg_cong [OF assms, of rtc_flag]
      arg_cong [OF assms, of rtc_counter] arg_cong [OF assms, of rtc_freq] arg_cong [OF assms, of idt]
      arg_cong [OF assms, of out_log]
    by (simp_all add: strip_def)
  show "user_mapped st' = user_mapped st" "remap st' = remap st"
    by (simp_all add: user_mapped_def remap_def f fun_eq_iff)
qed

section \<open>The part of memory that entering writes\<close>

definition same_outside :: "addr \<Rightarrow> nat \<Rightarrow> mem \<Rightarrow> mem \<Rightarrow> bool" where
  "same_outside b k m m' \<longleftrightarrow> (\<forall>x. \<not> inside b k x \<longrightarrow> m' x = m x)"

lemma same_outside_refl: "same_outside b k m m"
  by (simp add: same_outside_def)

lemma same_outside_trans: "same_outside b k m m' \<Longrightarrow> same_outside b k m' m'' \<Longrightarrow> same_outside b k m m''"
  by (simp add: same_outside_def)

lemma same_outside_bytes:
  assumes "same_outside b k m m'" "apart b k a n" "n \<le> 4294967296"
  shows "bytes m' a n = bytes m a n"
proof (rule bytes_cong)
  fix i assume "i < n"
  then have "inside a n (a + of_nat i)" using assms(3) by (rule inside_offset)
  then show "m' (a + of_nat i) = m (a + of_nat i)"
    using assms(1) apart_not_inside [OF apart_sym [OF assms(2)]] by (auto simp: same_outside_def)
qed

text \<open>\<open>room b d st st'\<close>: the stack pointer is \<open>d\<close> bytes above \<open>b\<close> and only the 8192 bytes from \<open>b\<close> on differ.\<close>

definition room :: "addr \<Rightarrow> nat \<Rightarrow> 'a vmm_scheme \<Rightarrow> 'b vmm_scheme \<Rightarrow> bool" where
  "room b d st st' \<longleftrightarrow> esp st' = b + of_nat d \<and> d \<le> 8192 \<and> same_outside b 8192 (vmem st) (vmem st')"

lemma room_push:
  assumes "room b d st st'" "4 \<le> d"
  shows "room b (d - 4) st (push v st')"
proof -
  have e: "esp st' - 4 = b + of_nat (d - 4)" using assms by (simp add: room_def of_nat_diff)
  have "vmem (push v st') x = vmem st' x" if "\<not> inside b 8192 x" for x
  proof -
    have "\<not> inside (b + of_nat (d - 4)) 4 x"
    proof
      assume "inside (b + of_nat (d - 4)) 4 x"
      then obtain i where i: "i < 4" "x = b + of_nat (d - 4) + of_nat i" by (rule inside_obtain)
      then have "x = b + of_nat (d - 4 + i)" by (simp add: add.assoc)
      moreover have "d \<le> 8192" using assms by (simp add: room_def)
      then have "d - 4 + i < 8192" using i assms(2) by linarith
      ultimately show False using that inside_offset [of "d - 4 + i" 8192 b] by simp
    qed
    then show ?thesis unfolding vmem_push write32_def e by (intro write_bytes_outside) simp_all
  qed
  then show ?thesis using assms e by (auto simp: room_def same_outside_def)
qed

lemma room_pushes:
  "room b d st st' \<Longrightarrow> 4 * length vs \<le> d \<Longrightarrow> room b (d - 4 * length vs) st (pushes vs st')"
proof (induction vs arbitrary: d st')
  case (Cons v vs)
  have "room b (d - 4 - 4 * length vs) st (pushes vs (push v st'))"
    using Cons.prems(2) by (intro Cons.IH room_push Cons.prems(1)) simp_all
  moreover have "d - 4 - 4 * length vs = d - 4 * length (v # vs)" by simp
  ultimately show ?case by (simp only: pushes_simps)
qed (simp add: pushes_simps)

lemma room_c_enter:
  assumes "room b d st st'" "4 + unat n \<le> d"
  shows "room b (d - 4 - unat n) st (c_enter n st')"
proof -
  have "room b (d - 4) st (push (ebp st') st')" using assms by (intro room_push) simp_all
  moreover have "(of_nat (d - 4 - unat n) :: u32) = of_nat (d - 4) - n" using assms(2) by (simp add: of_nat_diff)
  ultimately show ?thesis
    by (simp add: room_def vmem_c_enter) (simp add: algebra_simps le_diff_conv)
qed

section \<open>The handler's state\<close>

definition handler_state :: "code \<Rightarrow> stub \<Rightarrow> 'a cpu_scheme \<Rightarrow> 'a cpu_scheme" where
  "handler_state c s st =
     c_enter (size_handler c) (push (ret_handler c) (c_enter (size_exc c) (push (ret_site c s)
       (linkage_enter (fst (linkage_params s)) (enter_gate (device_gate c s) [] st)))))"

text \<open>The stack the kernel is entered on, and the segments it assumes.\<close>

definition kstack :: "'a cpu_scheme \<Rightarrow> addr" where
  "kstack st = (if cs_reg st AND 3 \<noteq> 0 then tss_esp0 st else esp st)"

definition segments_ok :: "'a cpu_scheme \<Rightarrow> bool" where
  "segments_ok st \<longleftrightarrow> tss_ss0 st = 0x18 \<and> (cs_reg st AND 3 \<noteq> 0 \<or> ss_reg st = 0x18)"

text \<open>There is room for an interrupt: the entry's stack of process \<open>p\<close> is empty or has 4096 bytes left.\<close>

definition room_for :: "int \<Rightarrow> 'a cpu_scheme \<Rightarrow> bool" where
  "room_for p st \<longleftrightarrow> (if cs_reg st AND 3 \<noteq> 0 then kstack st = pcb_at p + 8192
     else 4096 \<le> unat (kstack st - pcb_at p) \<and> unat (kstack st - pcb_at p) \<le> 8184)"

definition parked :: "code \<Rightarrow> int \<Rightarrow> addr \<Rightarrow> ctx \<Rightarrow> 'a cpu_scheme \<Rightarrow> bool" where
  "parked c q e ctx st \<longleftrightarrow> unat (e - pcb_at q) + 8 \<le> 8192 \<and>
     unat (read32 (vmem st) e - pcb_at q) + 68 \<le> 8192 \<and>
     (handler_parked c e PIT_linkage ctx st \<or> handler_parked c e keyboard_linkage ctx st)"

lemma esp_enter_gate: "esp (enter_gate g [] st) = kstack st - (if cs_reg st AND 3 \<noteq> 0 then 20 else 12)"
  by (simp add: enter_gate_pushes kstack_def)

lemma regs_enter_gate:
  "eax (enter_gate g err st) = eax st" "ebx (enter_gate g err st) = ebx st" "ecx (enter_gate g err st) = ecx st"
  "edx (enter_gate g err st) = edx st" "esi (enter_gate g err st) = esi st" "edi (enter_gate g err st) = edi st"
  "ebp (enter_gate g err st) = ebp st"
  by (simp_all add: enter_gate_pushes)

lemma same_outside_enter_gate: "vmem (enter_gate g err st) = vmem (pushes ([flags st, cs_reg st, eip st] @ err)
    (if cs_reg st AND 3 \<noteq> 0 then pushes [ss_reg st, esp st] (st\<lparr>esp := tss_esp0 st, ss_reg := ucast (tss_ss0 st)\<rparr>) else st))"
  by (simp add: enter_gate_pushes)

lemma room_enter_gate:
  assumes "kstack st = b + of_nat d" "20 \<le> d" "d \<le> 8192"
  shows "room b (d - (if cs_reg st AND 3 \<noteq> 0 then 20 else 12)) st (enter_gate g [] st)"
proof -
  let ?o = "if cs_reg st AND 3 \<noteq> 0 then pushes [ss_reg st, esp st] (st\<lparr>esp := tss_esp0 st, ss_reg := ucast (tss_ss0 st)\<rparr>) else st"
  let ?d = "if cs_reg st AND 3 \<noteq> 0 then d - 8 else d"
  have "room b ?d st ?o"
    using assms room_pushes [of b d st "st\<lparr>esp := tss_esp0 st, ss_reg := ucast (tss_ss0 st)\<rparr>" "[ss_reg st, esp st]"]
    by (auto simp: room_def kstack_def same_outside_refl)
  then have "room b (?d - 4 * length [flags st, cs_reg st, eip st]) st (pushes [flags st, cs_reg st, eip st] ?o)"
    using assms(2) by (intro room_pushes) auto
  moreover have "?d - 4 * length [flags st, cs_reg st, eip st] = d - (if cs_reg st AND 3 \<noteq> 0 then 20 else 12)" by simp
  ultimately show ?thesis by (simp only: room_def same_outside_enter_gate append_Nil2) (simp add: enter_gate_pushes)
qed

lemma ss_reg_steps [simp]:
  "ss_reg (push v st) = ss_reg st" "ss_reg (c_enter n st) = ss_reg st" "ss_reg (linkage_enter v st) = ss_reg st"
  using pushes_regs(10) [of "[v]" st] by (simp_all add: pushes_simps c_enter_def linkage_enter_pushes Let_def push_def)

lemma entered:
  fixes st :: "'a cpu_scheme"
  assumes "sites_ok c" "segments_ok st" "snd (linkage_params s) = 0" "room_for p st"
  defines "hs \<equiv> handler_state c s st"
  obtains d where "strip hs = strip st" "ss_reg hs = 0x18" "room (pcb_at p) d st hs" "0 < d" "d < 8192"
    "unat (ebp hs - pcb_at p) + 16 \<le> 8192" "unat (read32 (vmem hs) (ebp hs) - pcb_at p) + 68 \<le> 8192"
    "handler_parked c (ebp hs) s (context_of st) hs"
    "let st1 = c_enter (size_exc c) (push (ret_site c s) (linkage_enter (fst (linkage_params s)) (enter_gate (device_gate c s) [] st)))
      in read32 (vmem st1) (ebp st1 + 8) = fst (linkage_params s)"
proof -
  let ?b = "pcb_at p" and ?k = "if cs_reg st AND 3 \<noteq> 0 then 20 else 12 :: nat"
  define d where "d = unat (kstack st - ?b)"
  have d: "kstack st = ?b + of_nat d" "4096 \<le> d" "d \<le> 8192" "cs_reg st AND 3 = 0 \<longrightarrow> d \<le> 8184"
    using assms(4) by (auto simp: d_def room_for_def split: if_splits)
  have n: "unat (size_exc c) \<le> 1024" "unat (size_handler c) \<le> 1024" using assms(1) by (simp_all add: sites_ok_def)
  define stg where "stg = enter_gate (device_gate c s) [] st"
  define stx where "stx = linkage_enter (fst (linkage_params s)) stg"
  have rg: "room ?b (d - ?k) st stg" unfolding stg_def using d(1-3) by (intro room_enter_gate) auto
  have "room ?b (d - ?k - 4 * length [eax stg, ecx stg, edx stg, ebx stg, esp stg, ebp stg, esi stg, edi stg, flags stg,
      fst (linkage_params s)]) st stx"
    unfolding stx_def linkage_enter_pushes using d(2) by (intro room_pushes rg) auto
  then have rx: "room ?b (d - ?k - 40) st stx" by simp
  then have ex: "esp stx = ?b + of_nat (d - ?k - 40)" by (simp add: room_def)
  note gs = enter_gate_stack [where err = "[]" and g = "device_gate c s" and st = st, folded stg_def, simplified]
  have ss: "ss_reg stg = 0x18"
    using gs(3) assms(2) by (auto simp: segments_ok_def)
  have sx: "esp stx = esp stg - 40 \<and> read32 (vmem stx) (esp stg - 40) = fst (linkage_params s) \<and> stub_saved 0 (esp stg - 40) (context_of st) stx"
    using linkage_enter_saved [of stg "[]" "context_of st" "fst (linkage_params s)"] gs(1,2) assms(2)
    by (auto simp: stx_def context_of_def stg_def regs_enter_gate segments_ok_def)
  then have sv: "stub_saved (snd (linkage_params s)) (esp stx) (context_of st) stx" using assms(3) by simp
  have hs: "hs = c_enter (size_handler c) (push (ret_handler c) (c_enter (size_exc c) (push (ret_site c s) stx)))"
    by (simp add: hs_def handler_state_def stx_def stg_def)
  have n4: "unat (size_exc c) \<le> 4096" using n(1) by simp
  note hf = inner_frame [OF sv n4, folded hs]
  define dh where "dh = d - ?k - 40 - 4 - 4 - unat (size_exc c) - 4 - 4 - unat (size_handler c)"
  have dh: "0 < dh" "dh < 8192" using n d(2,3) by (auto simp: dh_def)
  have r: "room ?b dh st hs"
    unfolding hs dh_def using n d(2) by (intro room_c_enter room_push rx) (auto split: if_splits)
  define de where "de = d - ?k - 56 - unat (size_exc c)"
  define df where "df = d - ?k - 48"
  have le: "de + 16 \<le> 8192" "df + 68 \<le> 8192" using d(3,4) by (auto simp: de_def df_def)
  have "ebp hs = ?b + of_nat de"
    using hf(2) ex n d(2) by (auto simp: de_def of_nat_diff algebra_simps)
  then have e: "unat (ebp hs - ?b) + 16 \<le> 8192" using le by simp
  have "read32 (vmem hs) (ebp hs) = ?b + of_nat df"
    using hf(3) ex d(2) by (auto simp: df_def of_nat_diff algebra_simps)
  then have f: "unat (read32 (vmem hs) (ebp hs) - ?b) + 68 \<le> 8192" using le by simp
  have "strip hs = strip st" "ss_reg hs = 0x18" by (simp_all add: hs stx_def stg_def) (simp add: ss [unfolded stg_def])
  moreover have "handler_parked c (ebp hs) s (context_of st) hs" using hf(3,4) by (simp add: handler_parked_def)
  moreover have "let st1 = c_enter (size_exc c) (push (ret_site c s) stx)
      in read32 (vmem st1) (ebp st1 + 8) = fst (linkage_params s)" using hf(1) sx by (simp add: Let_def)
  ultimately show ?thesis using r dh e f unfolding stx_def stg_def by (intro that)
qed

text \<open>A device's interrupt, from the processor's entry to the resumed program.\<close>

lemma device_interrupt:
  fixes st st3 :: "'a cpu_scheme"
  assumes "sites_ok c" "segments_ok st" "room_for p st" "installed c st"
    and "(s, v) \<in> set interrupt_gates" "snd (linkage_params s) = 0"
    and "exc_handler (locals_exc c) sc (int v) (handler_state c s st) = Inr (st3, None)"
    and "if v = 0x20 \<and> cur_process st3 \<noteq> cur_process st then exc_parked c (ebp st3) t ctx st3
         else handler_parked c (ebp st3) t ctx st3"
    and "ss_reg st3 = 0x18" "t \<in> set all_stubs"
  shows "deliver c j l sc v [] st = Some (Inr (resume ctx st3))"
proof -
  note s = interrupt_gates_props(3) [OF assms(5)]
  let ?st1 = "c_enter (size_exc c) (push (ret_site c s) (linkage_enter (fst (linkage_params s)) (enter_gate (device_gate c s) [] st)))"
  have hs: "handler_state c s st = c_enter (size_handler c) (push (ret_handler c) ?st1)"
    by (simp add: handler_state_def)
  have st: "strip (handler_state c s st) = strip st" by (simp add: handler_state_def)
  obtain d where "let st1 = ?st1 in read32 (vmem st1) (ebp st1 + 8) = fst (linkage_params s)"
    using entered [OF assms(1,2,6,3)] by metis
  then have w: "read32 (vmem ?st1) (ebp ?st1 + 8) = of_nat v" using s by (simp add: Let_def)
  have v: "sint (read32 (vmem ?st1) (ebp ?st1 + 8)) = int v"
    unfolding w using s by (simp add: signed_of_nat signed_take_bit_int_eq_self)
  have "int_linkage c j sc s (enter_gate (device_gate c s) [] st) = Inr (resume ctx st3)"
  proof (rule int_linkage_returns [OF assms(1,10)])
    show "exc_handler (locals_exc c) sc (sint (read32 (vmem ?st1) (ebp ?st1 + 8)))
        (c_enter (size_handler c) (push (ret_handler c) ?st1)) = Inr (st3, None)"
      unfolding v using assms(7) unfolding hs .
    show "if sint (read32 (vmem ?st1) (ebp ?st1 + 8)) = 0x20 \<and>
          cur_process st3 \<noteq> cur_process (c_enter (size_handler c) (push (ret_handler c) ?st1))
        then exc_parked c (ebp st3) t ctx st3 else handler_parked c (ebp st3) t ctx st3"
      unfolding v hs [symmetric] strip_fields(3) [OF st] using assms(8) by simp
  qed (rule assms(9))
  then show ?thesis using deliver_device [OF assms(1,4,5)] by simp
qed

end
