(* ===== verification/Multitasking.thy ===== *)
theory Multitasking imports Switching begin

text \<open>
  Device interrupts under the scheduler's invariant: the clock's interrupt resumes the program it
  interrupted, the timer's resumes the next terminal's program, each with the context it was
  interrupted in.  \<open>tasks\<close> is the invariant that ties the waiting terminals' contexts to the stacks,
  \<open>kernel_step\<close> the step relation it is an invariant of.
\<close>

section \<open>The clock\<close>

lemma RTC_handler_strip:
  assumes "strip hs = strip (st :: 'a cpu_scheme)" "RTC_handler st = Inr r"
  obtains r' where "RTC_handler hs = Inr r'" "strip r' = strip r" "vmem r' = vmem hs" "ebp r' = ebp hs"
    "ss_reg r' = ss_reg hs"
proof -
  note f = strip_fields [OF assms(1)]
  define upd where "upd = (\<lambda>s :: 'a cpu_scheme. s\<lparr>rtc_flag := rtc_flag r, rtc_counter := rtc_counter r, out_log := out_log r\<rparr>)"
  have r: "r = upd st" and hs: "RTC_handler hs = Inr (upd hs)"
    using assms(2) f
    by (auto simp: RTC_handler_def Let_def get_current_process_def send_eoi_def outb_def upd_def split: if_splits)
  have "strip (upd hs) = upd (strip hs)" "strip (upd st) = upd (strip st)"
    by (simp_all add: strip_def upd_def)
  then have "strip (upd hs) = strip r" using assms(1) r by simp
  moreover have "vmem (upd hs) = vmem hs" "ebp (upd hs) = ebp hs" "ss_reg (upd hs) = ss_reg hs"
    by (simp_all add: upd_def vmem_def remap_def user_mapped_def fun_eq_iff)
  ultimately show ?thesis using hs that by blast
qed

lemma vmem_resume [simp]: "vmem (resume ctx st) = vmem st"
  by (simp add: resume_def set_flags_def)

lemma gates_in_table: "(PIT_linkage, 0x20) \<in> set interrupt_gates" "(RTC_linkage, 0x28) \<in> set interrupt_gates"
  "(keyboard_linkage, 0x21) \<in> set interrupt_gates"
  "PIT_linkage \<in> set all_stubs" "RTC_linkage \<in> set all_stubs" "keyboard_linkage \<in> set all_stubs"
  by (simp_all add: interrupt_gates_def all_stubs_def)

lemma rtc_interrupt_returns:
  fixes st :: "'a cpu_scheme"
  assumes "sites_ok c" "segments_ok st" "room_for p st" "installed c st" "RTC_handler st = Inr r"
  obtains st' where "deliver c j l sc 0x28 [] st = Some (Inr st')" "context_of st' = context_of st"
    "strip st' = strip r" "same_outside (pcb_at p) 8192 (vmem st) (vmem st')"
proof -
  let ?hs = "handler_state c RTC_linkage st"
  obtain d where e: "strip ?hs = strip st" "ss_reg ?hs = 0x18" "room (pcb_at p) d st ?hs"
    "handler_parked c (ebp ?hs) RTC_linkage (context_of st) ?hs"
    by (rule entered [OF assms(1,2) _ assms(3), of RTC_linkage]) simp_all
  obtain r' where r: "RTC_handler ?hs = Inr r'" "strip r' = strip r" "vmem r' = vmem ?hs" "ebp r' = ebp ?hs"
    "ss_reg r' = ss_reg ?hs" by (rule RTC_handler_strip [OF e(1) assms(5)])
  have "handler_parked c (ebp r') RTC_linkage (context_of st) r'"
    using e(4) r(3,4) by (simp add: handler_parked_def exc_parked_def stub_saved_def gate_saved_def)
  moreover have "exc_handler (locals_exc c) sc (int 0x28) ?hs = Inr (r', None)"
    by (simp add: exc_handler_def r(1))
  ultimately have "deliver c j l sc 0x28 [] st = Some (Inr (resume (context_of st) r'))"
    using r(5) e(2)
    by (intro device_interrupt [where t = RTC_linkage, OF assms(1-4) gates_in_table(2)]) (simp_all add: gates_in_table(5))
  moreover have "same_outside (pcb_at p) 8192 (vmem st) (vmem r')" using e(3) r(3) by (simp add: room_def)
  ultimately show ?thesis using r(2)
    by (intro that [of "resume (context_of st) r'"]) (simp_all add: context_of_resume)
qed

section \<open>The timer\<close>

text \<open>What a timer interrupt leaves alone, and the frame a switch resumes.\<close>

lemma pit_handler_frame:
  fixes st :: "'a cpu_scheme"
  assumes "pit_handler g v st = Inr st'"
  shows "phys st' = phys st" "ss_reg st' = ss_reg st" "idt st' = idt st"
    "pcbs st' = (if cur_process st' = cur_process st then pcbs st
      else (pcbs st)(current_pcb_addr st := (pcbs st (current_pcb_addr st))\<lparr>sched_ebp := ebp st\<rparr>))"
    "cur_process st' = cur_process st \<Longrightarrow> ebp st' = ebp st \<and> pdt st' = pdt st \<and> tss_ss0 st' = tss_ss0 st"
    "cur_process st' \<noteq> cur_process st \<Longrightarrow> tss_ss0 st' = 0x18 \<and>
      (\<exists>top. get_top_process_pcb (pcbs st) (pcb_at (cur_process st')) = Some top \<and>
        ebp st' = read32 (vmem st') (sched_ebp (pcbs st' top)))"
proof -
  let ?n = "next_process (base_shell_booted_bitmask st) (cur_process st)"
  have m: "ss_reg (map_process a b s) = ss_reg s" "idt (map_process a b s) = idt s" "phys (map_process a b s) = phys s"
    "ss_reg (flush_tlb s) = ss_reg s" "idt (flush_tlb s) = idt s" "phys (flush_tlb s) = phys s"
    "ss_reg (write_pt_vidmap i w s) = ss_reg s" "idt (write_pt_vidmap i w s) = idt s" "phys (write_pt_vidmap i w s) = phys s"
    "ss_reg (send_eoi k s) = ss_reg s" "idt (send_eoi k s) = idt s" "phys (send_eoi k s) = phys s"
    "ss_reg (return_to_parent e s) = ss_reg s" "idt (return_to_parent e s) = idt s" "phys (return_to_parent e s) = phys s"
    "ss_reg (update_pcb x f s) = ss_reg s" "idt (update_pcb x f s) = idt s"
    "ebp (send_eoi k s) = ebp s" "pdt (send_eoi k s) = pdt s" "tss_ss0 (send_eoi k s) = tss_ss0 s"
    "tss_ss0 (flush_tlb s) = tss_ss0 s" "tss_ss0 (write_pt_vidmap i w s) = tss_ss0 s" "tss_ss0 (return_to_parent e s) = tss_ss0 s"
    for s :: "'a cpu_scheme" and a b i w k e x f
    by (simp_all add: map_process_def flush_tlb_def write_pdt_def write_pt_vidmap_def send_eoi_def outb_def
        return_to_parent_def update_pcb_def Let_def)
  have rtp: "ebp (return_to_parent e s) = read32 (vmem (return_to_parent e s)) e" for e and s :: "'a cpu_scheme"
    by (simp add: return_to_parent_def Let_def)
  show "phys st' = phys st" "ss_reg st' = ss_reg st" "idt st' = idt st"
    "pcbs st' = (if cur_process st' = cur_process st then pcbs st
      else (pcbs st)(current_pcb_addr st := (pcbs st (current_pcb_addr st))\<lparr>sched_ebp := ebp st\<rparr>))"
    "cur_process st' = cur_process st \<Longrightarrow> ebp st' = ebp st \<and> pdt st' = pdt st \<and> tss_ss0 st' = tss_ss0 st"
    using assms by (auto simp: pit_handler_def Let_def m fault_simps split: if_splits)
  show "tss_ss0 st' = 0x18 \<and> (\<exists>top. get_top_process_pcb (pcbs st) (pcb_at (cur_process st')) = Some top \<and>
        ebp st' = read32 (vmem st') (sched_ebp (pcbs st' top)))" if "cur_process st' \<noteq> cur_process st"
  proof -
    have n: "cur_process st \<noteq> ?n"
      using assms that by (auto simp: pit_handler_def Let_def fault_simps split: if_splits)
    then obtain top where top: "get_top_process_pcb (pcbs st) (pcb_at ?n) = Some top"
      using assms by (auto simp: pit_handler_def Let_def fault_simps)
    define S where "S = update_pcb (current_pcb_addr st) (sched_ebp_update (\<lambda>_. ebp st)) (st\<lparr>cur_process := ?n\<rparr>)"
    define X where "X = send_eoi 0 (flush_tlb (write_pt_vidmap 0
      (user_vidmem_entry v (if cur_terminal st = ?n then 0xB8000 div 4096 else 0xB8000 + of_int ?n))
      ((map_process g (of_int (process_id (pcbs S top) + 1)) S)
        \<lparr>tss_esp0 := kernel_stack_top (process_id (pcbs S top)), tss_ss0 := 0x18\<rparr>)))"
    have heap: "pcbs X = pcbs S" "cur_process X = ?n" "tss_ss0 X = 0x18"
      by (simp_all add: X_def S_def m)
    have "Inr st' = (Inr (return_to_parent (sched_ebp (pcbs X top)) X) :: 'a cpu_scheme res)"
      using assms n top unfolding heap(1) unfolding X_def S_def
      by (simp add: pit_handler_def Let_def cong del: if_weak_cong)
    then have "st' = return_to_parent (sched_ebp (pcbs X top)) X" by simp
    then show ?thesis using rtp top heap by (simp add: m)
  qed
qed

section \<open>The invariant\<close>

text \<open>
  \<open>tasks c threads ctxs st\<close>: a program of the scheduled terminal's top process runs, or kernel code on its
  behalf with room on its stack; for every other booted terminal the frame its top process saved leads
  to the context \<open>ctxs\<close> has for it.
\<close>

definition ctx_ok :: "int \<Rightarrow> ctx \<Rightarrow> bool" where
  "ctx_ok q ctx \<longleftrightarrow> c_cs ctx AND 3 \<noteq> 0 \<or> c_ss ctx = 0x18 \<and> 4096 \<le> unat (c_esp ctx - pcb_at q) \<and> unat (c_esp ctx - pcb_at q) \<le> 8184"

definition waiting :: "code \<Rightarrow> (int \<Rightarrow> int list) \<Rightarrow> (int \<Rightarrow> ctx) \<Rightarrow> 'a cpu_scheme \<Rightarrow> int \<Rightarrow> bool" where
  "waiting c threads ctxs st t \<longleftrightarrow> (let q = last (threads t) in
     ctx_ok q (ctxs t) \<and> parked c q (sched_ebp (pcbs st (pcb_at q))) (ctxs t) st)"

definition tasks :: "code \<Rightarrow> (int \<Rightarrow> int list) \<Rightarrow> (int \<Rightarrow> ctx) \<Rightarrow> 'a cpu_scheme \<Rightarrow> bool" where
  "tasks c threads ctxs st \<longleftrightarrow> sites_ok c \<and> installed c st \<and> tss_ss0 st = 0x18 \<and>
     sched_inv threads (enter_kernel 4 st) \<and> ctx_ok (last (threads (cur_process st))) (context_of st) \<and>
     list_all (\<lambda>t. booted_terminal (base_shell_booted_bitmask st) t \<and> t \<noteq> cur_process st \<longrightarrow>
       waiting c threads ctxs st t) [1, 2, 3]"

lemma tasks_waiting:
  "tasks c threads ctxs st \<Longrightarrow> booted_terminal (base_shell_booted_bitmask st) t \<Longrightarrow> t \<noteq> cur_process st \<Longrightarrow>
    waiting c threads ctxs st t"
  using booted_cases [of "base_shell_booted_bitmask st" t] by (auto simp: tasks_def)

lemma stack_top: "kernel_stack_top p = pcb_at p + 8192"
  by (simp add: kernel_stack_top_def pcb_at_def algebra_simps)

lemma on_stack:
  assumes "1 \<le> p" "p \<le> 6" "d < 8192"
  shows "(pcb_at p + of_nat d) AND 0xFFFFE000 = pcb_at p"
proof -
  have "pcb_at p + of_nat d = kernel_stack_top p - of_nat (8192 - d)"
    using assms(3) by (simp add: stack_top of_nat_diff)
  moreover have "(kernel_stack_top p - of_nat (8192 - d)) AND 0xFFFFE000 = pcb_at p"
    using assms by (intro stack_align) simp_all
  ultimately show ?thesis by (simp only:)
qed

lemma sched_inv_same:
  assumes "sched_inv threads st" "current_pcb_addr st' = current_pcb_addr st"
    and "pcbs st' = pcbs st" "pdt st' = pdt st" "cur_process st' = cur_process st"
    "base_shell_booted_bitmask st' = base_shell_booted_bitmask st" "tss_esp0 st' = tss_esp0 st"
  shows "sched_inv threads st'"
  using assms by (simp add: sched_inv_def running_def user_mapped_def)

text \<open>The stacks of two processes are apart, and lie in the kernel's page.\<close>

lemma unat_pcb:
  assumes "1 \<le> p" "p \<le> 6"
  shows "unat (pcb_at p) + 8192 * nat p = 8380416" "1 \<le> nat p" "nat p \<le> 6"
  using unat_pcb_at [of p] assms by (auto simp: nat_diff_distrib nat_mult_distrib nat_add_distrib)

lemma stacks_apart:
  assumes "1 \<le> p" "p \<le> 6" "1 \<le> q" "q \<le> 6" "p \<noteq> q"
  shows "apart (pcb_at p) 8192 (pcb_at q) 8192"
proof -
  note u = unat_pcb [OF assms(1,2)] unat_pcb [OF assms(3,4)]
  consider "nat p < nat q" | "nat q < nat p" using assms by linarith
  then show ?thesis
  proof cases
    case 1
    then have "unat (pcb_at q) + 8192 \<le> unat (pcb_at p)" "unat (pcb_at p) + 8192 \<le> 4294967296"
      using u by - linarith+
    then show ?thesis by (intro apart_sym [OF apart_below])
  next
    case 2
    then have "unat (pcb_at p) + 8192 \<le> unat (pcb_at q)" "unat (pcb_at q) + 8192 \<le> 4294967296"
      using u by - linarith+
    then show ?thesis by (intro apart_below)
  qed
qed

lemma stack_block:
  assumes "1 \<le> p" "p \<le> 6" "i < 8192"
  shows "drop_bit 22 (pcb_at p + of_nat i) = (1 :: u32)"
proof -
  note u = unat_pcb [OF assms(1,2)]
  then have "unat (pcb_at p) + i < 4294967296" using assms by linarith
  moreover have "unat (of_nat i :: u32) = i" using assms(3) by simp
  ultimately have "unat (pcb_at p + of_nat i) = unat (pcb_at p) + i" by (simp add: unat_word_ariths)
  then have "unat (drop_bit 22 (pcb_at p + of_nat i)) = (unat (pcb_at p) + i) div 4194304"
    by (simp add: unat_drop_bit_u32)
  also have "\<dots> = 1"
  proof (rule div_nat_eqI)
    have "4194304 \<le> unat (pcb_at p) + i" "unat (pcb_at p) + i < 8388608" using u assms by - linarith+
    then show "4194304 * 1 \<le> unat (pcb_at p) + i" "unat (pcb_at p) + i < 4194304 * Suc 1" by simp_all
  qed
  finally show ?thesis by (metis unat_1 word_unat_eq_iff)
qed

lemma stack_bytes:
  assumes "running st p" "running st' p'" "1 \<le> p" "p \<le> 6" "1 \<le> p'" "p' \<le> 6" "phys st' = phys st" "1 \<le> q" "q \<le> 6"
  shows "bytes (vmem st') (pcb_at q) 8192 = bytes (vmem st) (pcb_at q) 8192"
proof (rule bytes_cong)
  fix i :: nat assume "i < 8192"
  then have b: "drop_bit 22 (pcb_at q + of_nat i) = (1 :: u32)" by (rule stack_block [OF assms(8,9)])
  have "process_mapped st p" "process_mapped st' p'" using assms(1,2) by (simp_all add: running_def process_mapped_def)
  then show "vmem st' (pcb_at q + of_nat i) = vmem st (pcb_at q + of_nat i)"
    using vmem_low [of st p, OF _ assms(3,4) b] vmem_low [of st' p', OF _ assms(5,6) b] assms(7) by simp
qed

text \<open>A write confined to a kernel stack leaves the other 4 MB frames alone.\<close>

lemma remap_not_low:
  assumes "running st p" "1 \<le> p" "p \<le> 6" "drop_bit 22 x \<noteq> 1"
  shows "drop_bit 22 (remap st x) \<noteq> 1"
proof -
  have f: "drop_bit 22 (pdt st 32) = of_int (p + 1)" using assms(1) by (simp add: running_def)
  have "of_int (p + 1) < (1024 :: u32)" by (rule frame_small [OF assms(2,3)])
  then show ?thesis
    using assms(4) frame_not_low [OF assms(2,3)] join_drop [of "of_int (p + 1)" x] join_drop [of 32 x]
    unfolding remap_def Let_def f by (auto simp del: push_bit_numeral)
qed

lemma same_outside_frames:
  assumes "same_outside (pcb_at p) 8192 (vmem st) (vmem st')" "remap st' = remap st" "running st r" "1 \<le> r" "r \<le> 6"
    and "1 \<le> p" "p \<le> 6" "drop_bit 22 x \<noteq> 1"
  shows "phys st' x = phys st x"
proof -
  have ph: "phys st x = vmem st (remap st x)" "phys st' x = vmem st' (remap st' x)"
    by (simp_all add: vmem_def remap_remap)
  have "\<not> inside (pcb_at p) 8192 (remap st x)"
  proof
    assume "inside (pcb_at p) 8192 (remap st x)"
    then obtain i where "i < 8192" "remap st x = pcb_at p + of_nat i" by (rule inside_obtain)
    then show False using stack_block [OF assms(6,7)] remap_not_low [OF assms(3-5,8)] by metis
  qed
  then show ?thesis using assms(1,2) ph by (simp add: same_outside_def)
qed

text \<open>A parked context depends only on the bytes of its process's stack.\<close>

lemma parked_cong:
  assumes "bytes (vmem st') (pcb_at q) 8192 = bytes (vmem st) (pcb_at q) 8192"
  shows "parked c q e ctx st' = parked c q e ctx st"
proof -
  have sub: "bytes (vmem st') a n = bytes (vmem st) a n" if "unat (a - pcb_at q) + n \<le> 8192" for a n
  proof -
    have "bytes x a n = take n (drop (unat (a - pcb_at q)) (bytes x (pcb_at q) 8192))" for x
      using that by (simp add: drop_bytes take_bytes)
    then show ?thesis using assms by simp
  qed
  show ?thesis
  proof (cases "unat (e - pcb_at q) + 8 \<le> 8192")
    case True
    have r: "read32 (vmem st') e = read32 (vmem st) e" using True by (intro read32_cong sub) simp
    show ?thesis
    proof (cases "unat (read32 (vmem st) e - pcb_at q) + 68 \<le> 8192")
      case True
      then have "exc_parked c (read32 (vmem st) e) s ctx st' = exc_parked c (read32 (vmem st) e) s ctx st"
        if "snd (linkage_params s) = 0" for s using that by (intro exc_parked_cong sub) simp
      from this [of PIT_linkage] this [of keyboard_linkage] show ?thesis
        by (simp add: parked_def handler_parked_def r)
    qed (simp add: parked_def r)
  qed (simp add: parked_def)
qed

text \<open>The state of a scheduled program, and the invariant after an interrupt.\<close>

lemma kernel_side:
  assumes "tasks c threads ctxs st"
  defines "p \<equiv> last (threads (cur_process st))"
  shows "1 \<le> p" "p \<le> 6" "room_for p st" "segments_ok st" "tss_esp0 st = pcb_at p + 8192"
    "current_pcb_addr (enter_kernel 4 st) = pcb_at p" "sites_ok c" "installed c st"
    "booted_terminal (base_shell_booted_bitmask st) (cur_process st)" "sched_inv threads (enter_kernel 4 st)"
proof -
  show inv: "sched_inv threads (enter_kernel 4 st)" and "sites_ok c" "installed c st"
    using assms(1) by (simp_all add: tasks_def)
  then have run: "running (enter_kernel 4 st) p"
    and b: "booted_terminal (base_shell_booted_bitmask st) (cur_process st)"
    by (simp_all add: sched_inv_def enter_kernel_def p_def)
  then show "booted_terminal (base_shell_booted_bitmask st) (cur_process st)" by simp
  show "1 \<le> p" "p \<le> 6"
    using sched_inv_tops [OF inv] b unfolding p_def by (simp_all add: enter_kernel_def)
  show t: "tss_esp0 st = pcb_at p + 8192" using run by (simp add: running_def stack_top enter_kernel_def)
  show "current_pcb_addr (enter_kernel 4 st) = pcb_at p" using run by (simp add: running_def)
  have ok: "ctx_ok p (context_of st)" "tss_ss0 st = 0x18" using assms(1) by (simp_all add: tasks_def p_def)
  then show "room_for p st" using t by (auto simp: room_for_def kstack_def ctx_ok_def context_of_def)
  show "segments_ok st" using ok by (auto simp: segments_ok_def ctx_ok_def context_of_def)
qed

text \<open>Entering keeps what \<open>tasks\<close> says of the heap and of the other stacks.\<close>

lemma entered_tasks:
  fixes st :: "'a cpu_scheme"
  assumes "tasks c threads ctxs st" "snd (linkage_params s) = 0"
  defines "p \<equiv> last (threads (cur_process st))" and "hs \<equiv> handler_state c s st"
  obtains "strip hs = strip st" "ss_reg hs = 0x18" "sched_inv threads hs"
    "same_outside (pcb_at p) 8192 (vmem st) (vmem hs)" "on_stack_of p (ebp hs + 8)"
    "handler_parked c (ebp hs) s (context_of st) hs"
    "unat (ebp hs - pcb_at p) + 8 \<le> 8192" "unat (read32 (vmem hs) (ebp hs) - pcb_at p) + 68 \<le> 8192"
proof -
  note k = kernel_side [OF assms(1), folded p_def]
  obtain d where e: "strip hs = strip st" "ss_reg hs = 0x18" "room (pcb_at p) d st hs" "0 < d" "d < 8192"
    "unat (ebp hs - pcb_at p) + 16 \<le> 8192" "unat (read32 (vmem hs) (ebp hs) - pcb_at p) + 68 \<le> 8192"
    "handler_parked c (ebp hs) s (context_of st) hs"
    unfolding hs_def by (rule entered [OF k(7,4) assms(2) k(3)])
  have "current_pcb_addr hs = pcb_at p"
    using e(3,5) on_stack [OF k(1,2), of d] by (simp add: current_pcb_addr_def room_def)
  then have "sched_inv threads hs"
    using k(6) strip_fields [OF e(1)] by (intro sched_inv_same [OF k(10)]) (simp_all add: enter_kernel_def)
  moreover have "ebp hs + 8 = pcb_at p + of_nat (unat (ebp hs - pcb_at p) + 8)" by simp
  then have "on_stack_of p (ebp hs + 8)"
    using on_stack [OF k(1,2), of "unat (ebp hs - pcb_at p) + 8"] e(6) unfolding on_stack_of_def by (simp only:)
  ultimately show ?thesis using e by (intro that) (simp_all add: room_def)
qed

lemma resume_fields [simp]:
  "phys (resume ctx st) = phys st" "pcbs (resume ctx st) = pcbs st" "pdt (resume ctx st) = pdt st" "cur_process (resume ctx st) = cur_process st"
  "base_shell_booted_bitmask (resume ctx st) = base_shell_booted_bitmask st" "tss_esp0 (resume ctx st) = tss_esp0 st"
  "tss_ss0 (resume ctx st) = tss_ss0 st" "idt (resume ctx st) = idt st"
  by (simp_all add: resume_def set_flags_def)

lemma parked_resume [simp]: "parked c q e ctx (resume x st) = parked c q e ctx st"
  by (rule parked_cong) simp

lemma tasks_resume:
  assumes "sites_ok c" "installed c r" "tss_ss0 r = 0x18" "sched_inv threads r"
    and "ctx_ok (last (threads (cur_process r))) ctx"
    and "\<And>t. booted_terminal (base_shell_booted_bitmask r) t \<Longrightarrow> t \<noteq> cur_process r \<Longrightarrow> waiting c threads ctxs r t"
  shows "tasks c threads ctxs (resume ctx r)"
proof -
  let ?p = "last (threads (cur_process r))"
  have run: "running r ?p" and b: "booted_terminal (base_shell_booted_bitmask r) (cur_process r)"
    using assms(4) by (simp_all add: sched_inv_def)
  note p = sched_inv_tops [OF assms(4) b]
  have "esp (enter_kernel 4 (resume ctx r)) = pcb_at ?p + of_nat 8188"
    using run by (simp add: running_def stack_top enter_kernel_def)
  then have "current_pcb_addr (enter_kernel 4 (resume ctx r)) = pcb_at ?p"
    using on_stack [OF p, of 8188] unfolding current_pcb_addr_def by simp
  then have "sched_inv threads (enter_kernel 4 (resume ctx r))"
    using run by (intro sched_inv_same [OF assms(4)]) (simp_all add: running_def enter_kernel_def)
  moreover have "waiting c threads ctxs (resume ctx r) t = waiting c threads ctxs r t" for t
    by (simp add: waiting_def)
  moreover have "installed c (resume ctx r)" using assms(2) by (simp add: installed_def)
  ultimately show ?thesis
    using assms(1,3,5) assms(6) unfolding tasks_def context_of_resume resume_fields by simp
qed

lemma timer_tasks:
  fixes st :: "'a cpu_scheme"
  assumes "tasks c threads ctxs st"
  defines "ctxs' \<equiv> ctxs(cur_process st := context_of st)"
  obtains st' where "deliver c j l sc 0x20 [] st = Some (Inr st')" "tasks c threads ctxs' st'"
    "cur_process st' = next_process (base_shell_booted_bitmask st) (cur_process st)"
    "base_shell_booted_bitmask st' = base_shell_booted_bitmask st"
    "context_of st' = ctxs' (cur_process st')" "\<And>x. drop_bit 22 x \<noteq> 1 \<Longrightarrow> phys st' x = phys st x"
proof -
  define p where "p = last (threads (cur_process st))"
  define hs where "hs = handler_state c PIT_linkage st"
  note k = kernel_side [OF assms(1), folded p_def]
  obtain h: "strip hs = strip st" "ss_reg hs = 0x18" "sched_inv threads hs"
    "same_outside (pcb_at p) 8192 (vmem st) (vmem hs)" "on_stack_of p (ebp hs + 8)"
    "handler_parked c (ebp hs) PIT_linkage (context_of st) hs"
    "unat (ebp hs - pcb_at p) + 8 \<le> 8192" "unat (read32 (vmem hs) (ebp hs) - pcb_at p) + 68 \<le> 8192"
    unfolding hs_def p_def by (rule entered_tasks [OF assms(1), of PIT_linkage]) simp_all
  note f = strip_fields [OF h(1)]
  let ?g = "junk_new_page (locals_exc c)" and ?v = "junk_vidmem_pt (locals_exc c)"
  obtain r where r: "pit_handler ?g ?v hs = Inr r" "sched_inv threads r"
    "cur_process r = next_process (base_shell_booted_bitmask st) (cur_process st)"
    "base_shell_booted_bitmask r = base_shell_booted_bitmask st"
    using pit_keeps_inv [OF h(3), of ?g ?v] h(5) f by (auto simp: p_def)
  note rf = pit_handler_frame [OF r(1)]
  have inst: "installed c r" using k(8) rf(3) f by (simp add: installed_def)
  have phs: "running hs p" using h(3) f by (simp add: sched_inv_def p_def)
  define q where "q = last (threads (cur_process r))"
  have rq: "running r q" and bq: "booted_terminal (base_shell_booted_bitmask r) (cur_process r)"
    using r(2) by (simp_all add: sched_inv_def q_def)
  note q = sched_inv_tops [OF r(2) bq, folded q_def]
  have stacks: "bytes (vmem r) (pcb_at i) 8192 = bytes (vmem hs) (pcb_at i) 8192" if "1 \<le> i" "i \<le> 6" for i
    by (rule stack_bytes [OF phs rq k(1,2) q rf(1) that])
  have cur: "current_pcb_addr hs = pcb_at p" using phs by (simp add: running_def)
  text \<open>The terminals that waited before wait on.\<close>
  have others: "waiting c threads ctxs' r t"
    if "booted_terminal (base_shell_booted_bitmask st) t" "t \<noteq> cur_process st" for t
  proof -
    let ?i = "last (threads t)"
    have b': "booted_terminal (base_shell_booted_bitmask (enter_kernel 4 st)) t" using that(1) by (simp add: enter_kernel_def)
    note i = sched_inv_tops [OF k(10) b']
    have ip: "?i \<noteq> p"
    proof -
      have thr: "threads_ok (pcbs st) (base_shell_booted_bitmask st) threads" using k(10) by (simp add: sched_inv_def enter_kernel_def)
      have "?i \<in> set (threads t)" "p \<in> set (threads (cur_process st))"
        using threads_ok_booted [OF thr that(1)] threads_ok_booted [OF thr k(9)] by (simp_all add: p_def)
      then show ?thesis using threads_disjoint [OF thr that(1) k(9) that(2)] by auto
    qed
    have "bytes (vmem hs) (pcb_at ?i) 8192 = bytes (vmem st) (pcb_at ?i) 8192"
      by (rule same_outside_bytes [OF h(4) stacks_apart [OF k(1,2) i ip [symmetric]]]) simp
    then have "parked c ?i e ctx r = parked c ?i e ctx st" for e ctx
      using stacks [OF i] by (intro parked_cong) simp
    moreover have "pcbs r (pcb_at ?i) = pcbs st (pcb_at ?i)"
      using ip i k(1,2) by (simp add: rf(4) cur f pcb_at_eq)
    ultimately show ?thesis
      using tasks_waiting [OF assms(1) that] that(2) by (simp add: waiting_def ctxs'_def Let_def)
  qed
  have frames: "phys r x = phys st x" if "drop_bit 22 x \<noteq> 1" for x
  proof -
    have "running (enter_kernel 4 st) p" using k(10) by (simp add: sched_inv_def p_def enter_kernel_def)
    moreover have "vmem (enter_kernel 4 st) = vmem st" "remap (enter_kernel 4 st) = remap st"
      "phys (enter_kernel 4 st) = phys st"
      by (simp_all add: enter_kernel_def) (simp add: remap_def user_mapped_def fun_eq_iff)
    ultimately show ?thesis
      using same_outside_frames [of p "enter_kernel 4 st" hs p x] h(4) f(14) k(1,2) that rf(1) by simp
  qed
  have exc: "exc_handler (locals_exc c) sc (int 0x20) hs = Inr (r, None)" by (simp add: exc_handler_def r(1))
  note dev = device_interrupt [OF k(7,4,3,8) gates_in_table(1) _ exc [unfolded hs_def], simplified linkage_params.simps snd_conv]
  have ss: "ss_reg r = 0x18" "tss_ss0 st = 0x18" using rf(2) h(2) assms(1) by (simp_all add: tasks_def)
  show ?thesis
  proof (cases "cur_process r = cur_process st")
    case True
    have same: "ebp r = ebp hs" "vmem r = vmem hs" "tss_ss0 r = 0x18"
      using rf(5) True f rf(1) ss by (simp_all add: vmem_def remap_def user_mapped_def fun_eq_iff)
    have "handler_parked c (ebp r) PIT_linkage (context_of st) r"
      using h(6) same by (simp add: handler_parked_def exc_parked_def stub_saved_def gate_saved_def)
    then have d: "deliver c j l sc 0x20 [] st = Some (Inr (resume (context_of st) r))"
      using True ss gates_in_table by (intro dev) simp_all
    have "tasks c threads ctxs' (resume (context_of st) r)"
      using inst same(3) r(2) assms(1) others True r(4)
      by (intro tasks_resume k(7)) (simp_all add: tasks_def)
    then show ?thesis using r True frames by (intro that [OF d]) (simp_all add: context_of_resume ctxs'_def)
  next
    case False
    let ?ctx = "ctxs' (cur_process r)" and ?e = "sched_ebp (pcbs r (pcb_at q))"
    have w: "waiting c threads ctxs' r (cur_process r)" using others bq r(4) False by simp
    obtain top where top: "tss_ss0 r = 0x18" "get_top_process_pcb (pcbs hs) (pcb_at (cur_process r)) = Some top"
      "ebp r = read32 (vmem r) (sched_ebp (pcbs r top))" using rf(6) False f by auto
    have thr: "threads_ok (pcbs hs) (base_shell_booted_bitmask st) threads"
      using h(3) f by (simp add: sched_inv_def)
    have "top = pcb_at q"
      using threads_ok_booted [OF thr] bq r(4) chain_last(5) [of "pcbs hs" "threads (cur_process r)"] top(2)
      by (auto simp: q_def)
    then have eb: "ebp r = read32 (vmem r) ?e" using top(3) by simp
    obtain s where s: "s \<in> set all_stubs" "exc_parked c (ebp r) s ?ctx r"
      using w gates_in_table unfolding waiting_def Let_def parked_def handler_parked_def q_def [symmetric] eb by blast
    then have d: "deliver c j l sc 0x20 [] st = Some (Inr (resume ?ctx r))"
      using False ss by (intro dev) simp_all
    have "waiting c threads ctxs' r t" if "booted_terminal (base_shell_booted_bitmask r) t" "t \<noteq> cur_process r" for t
    proof (cases "t = cur_process st")
      case True
      have "parked c p (ebp hs) (context_of st) hs" using h(6-8) by (simp add: parked_def)
      then have "parked c p (ebp hs) (context_of st) r" using parked_cong [OF stacks [OF k(1,2)]] by simp
      moreover have "sched_ebp (pcbs r (pcb_at p)) = ebp hs" using False f by (simp add: rf(4) cur)
      moreover have "ctx_ok p (context_of st)" using assms(1) by (simp add: tasks_def p_def)
      ultimately show ?thesis by (simp add: waiting_def True p_def [symmetric] ctxs'_def)
    qed (use others that(1) r(4) in simp)
    then have "tasks c threads ctxs' (resume ?ctx r)"
      using inst top(1) r(2) w by (intro tasks_resume k(7)) (simp_all add: waiting_def Let_def)
    then show ?thesis using r frames by (intro that [OF d]) (simp_all add: context_of_resume)
  qed
qed

section \<open>The clock under the invariant\<close>

lemma RTC_handler_fault:
  assumes "strip hs = strip (st :: 'a cpu_scheme)" "RTC_handler st = Inl e"
  shows "RTC_handler hs = Inl e"
  using assms(2) strip_fields [OF assms(1)]
  by (auto simp: RTC_handler_def Let_def get_current_process_def split: if_splits)

lemma clock_fault:
  fixes st :: "'a cpu_scheme"
  assumes "tasks c threads ctxs st" "RTC_handler st = Inl e"
  shows "deliver c j l sc 0x28 [] st = Some (Inl e)"
proof -
  note k = kernel_side [OF assms(1)]
  let ?st1 = "c_enter (size_exc c) (push (ret_site c RTC_linkage) (linkage_enter (fst (linkage_params RTC_linkage))
    (enter_gate (device_gate c RTC_linkage) [] st)))"
  obtain d where "let st1 = ?st1 in read32 (vmem st1) (ebp st1 + 8) = fst (linkage_params RTC_linkage)"
    by (rule entered [OF k(7,4) _ k(3), of RTC_linkage]) simp_all
  then have w: "sint (read32 (vmem ?st1) (ebp ?st1 + 8)) = 0x28" by (simp add: Let_def del: c_enter_simps)
  have "RTC_handler (c_enter (size_handler c) (push (ret_handler c) ?st1)) = Inl e"
    by (rule RTC_handler_fault [OF _ assms(2)]) simp
  then have "int_linkage c j sc RTC_linkage (enter_gate (device_gate c RTC_linkage) [] st) = Inl e"
    unfolding int_linkage_def call_exc_handler_def Let_def w by (simp add: exc_handler_def)
  then show ?thesis using deliver_device [OF k(7,8) gates_in_table(2)] by simp
qed

text \<open>Steps that keep the kernel's data keep the invariant when they keep the waiting processes' stacks.\<close>

lemma tasks_keep:
  fixes st st' :: "'a cpu_scheme"
  assumes "tasks c threads ctxs st"
    and "pcbs st' = pcbs st" "pdt st' = pdt st" "cur_process st' = cur_process st"
    "base_shell_booted_bitmask st' = base_shell_booted_bitmask st" "tss_esp0 st' = tss_esp0 st"
    "tss_ss0 st' = tss_ss0 st" "idt st' = idt st"
    and "ctx_ok (last (threads (cur_process st))) (context_of st')"
    and "\<And>i. 1 \<le> i \<Longrightarrow> i \<le> 6 \<Longrightarrow> i \<noteq> last (threads (cur_process st)) \<Longrightarrow>
      bytes (vmem st') (pcb_at i) 8192 = bytes (vmem st) (pcb_at i) 8192"
  shows "tasks c threads ctxs st'"
proof -
  note k = kernel_side [OF assms(1)]
  have s: "sched_inv threads (enter_kernel 4 st')"
    by (rule sched_inv_same [OF k(10)]) (simp_all add: assms(2-8) enter_kernel_def current_pcb_addr_def)
  have "waiting c threads ctxs st' t"
    if t: "booted_terminal (base_shell_booted_bitmask st) t" "t \<noteq> cur_process st" for t
  proof -
    have thr: "threads_ok (pcbs st) (base_shell_booted_bitmask st) threads"
      using k(10) by (simp add: sched_inv_def enter_kernel_def)
    have b': "booted_terminal (base_shell_booted_bitmask (enter_kernel 4 st)) t" using t(1) by (simp add: enter_kernel_def)
    note i = sched_inv_tops [OF k(10) b']
    have "last (threads t) \<in> set (threads t)" "last (threads (cur_process st)) \<in> set (threads (cur_process st))"
      using threads_ok_booted [OF thr t(1)] threads_ok_booted [OF thr k(9)] by simp_all
    then have "last (threads t) \<noteq> last (threads (cur_process st))"
      using threads_disjoint [OF thr t(1) k(9) t(2)] by auto
    then have "parked c (last (threads t)) e x st' = parked c (last (threads t)) e x st" for e x
      by (intro parked_cong assms(10) i)
    then show ?thesis using tasks_waiting [OF assms(1) t] assms(2) by (simp add: waiting_def Let_def)
  qed
  then show ?thesis using assms(1-9) s by (simp add: tasks_def installed_def)
qed

lemma RTC_handler_frame:
  assumes "RTC_handler st = Inr (r :: 'a cpu_scheme)"
  shows "pcbs r = pcbs st" "pdt r = pdt st" "cur_process r = cur_process st"
    "base_shell_booted_bitmask r = base_shell_booted_bitmask st" "tss_esp0 r = tss_esp0 st"
    "tss_ss0 r = tss_ss0 st" "idt r = idt st" "remap r = remap st"
proof -
  have "r = st\<lparr>rtc_flag := rtc_flag r, rtc_counter := rtc_counter r, out_log := out_log r\<rparr>"
    using assms by (auto simp: RTC_handler_def Let_def send_eoi_def outb_def split: if_splits)
  then obtain f k l where "r = st\<lparr>rtc_flag := f, rtc_counter := k, out_log := l\<rparr>" by blast
  then show "pcbs r = pcbs st" "pdt r = pdt st" "cur_process r = cur_process st"
    "base_shell_booted_bitmask r = base_shell_booted_bitmask st" "tss_esp0 r = tss_esp0 st"
    "tss_ss0 r = tss_ss0 st" "idt r = idt st" "remap r = remap st"
    by (simp_all add: remap_def user_mapped_def fun_eq_iff)
qed

lemma clock_tasks:
  fixes st st' :: "'a cpu_scheme"
  assumes "tasks c threads ctxs st" "deliver c j l sc 0x28 [] st = Some (Inr st')"
  shows "tasks c threads ctxs st'" "context_of st' = context_of st" "cur_process st' = cur_process st"
    "base_shell_booted_bitmask st' = base_shell_booted_bitmask st"
    "drop_bit 22 x \<noteq> 1 \<Longrightarrow> phys st' x = phys st x"
proof -
  let ?p = "last (threads (cur_process st))"
  note k = kernel_side [OF assms(1)]
  obtain r where r: "RTC_handler st = Inr r"
    using clock_fault [OF assms(1)] assms(2) by (cases "RTC_handler st") auto
  obtain st2 where "deliver c j l sc 0x28 [] st = Some (Inr st2)" and st2: "context_of st2 = context_of st"
    "strip st2 = strip r" "same_outside (pcb_at ?p) 8192 (vmem st) (vmem st2)"
    by (rule rtc_interrupt_returns [OF k(7,4,3,8) r])
  then have "st2 = st'" using assms(2) by simp
  note st' = st2 [unfolded this]
  note f = strip_fields [OF st'(2)]
  note rf = RTC_handler_frame [OF r]
  show "context_of st' = context_of st" "cur_process st' = cur_process st"
    "base_shell_booted_bitmask st' = base_shell_booted_bitmask st" using st'(1) f rf by simp_all
  have "bytes (vmem st') (pcb_at i) 8192 = bytes (vmem st) (pcb_at i) 8192" if "1 \<le> i" "i \<le> 6" "i \<noteq> ?p" for i
    by (rule same_outside_bytes [OF st'(3) stacks_apart [OF k(1,2) that(1,2) that(3) [symmetric]]]) simp
  moreover have "ctx_ok ?p (context_of st')" using st'(1) assms(1) by (simp add: tasks_def)
  ultimately show "tasks c threads ctxs st'" using f rf by (intro tasks_keep [OF assms(1)]) simp_all
  have "running (enter_kernel 4 st) ?p" using k(10) by (simp add: sched_inv_def enter_kernel_def)
  moreover have "vmem (enter_kernel 4 st) = vmem st" "remap (enter_kernel 4 st) = remap st" "phys (enter_kernel 4 st) = phys st"
    by (simp_all add: enter_kernel_def) (simp add: remap_def user_mapped_def fun_eq_iff)
  ultimately show "phys st' x = phys st x" if "drop_bit 22 x \<noteq> 1"
    using same_outside_frames [of ?p "enter_kernel 4 st" st' ?p x] st'(3) f(14) rf(8) k(1,2) that by simp
qed

end
