(* ===== verification/Isolation.thy ===== *)
theory Isolation imports Multitasking begin

text \<open>
  Separation of the terminals: the steps between which programs run, the view a terminal's program has
  of the machine (its context and its page), and the law that a step of one terminal leaves the views
  of the others alone; and the turns the timer gives them.  Both contracts are locales, interpreted on the
  kernel's model.
\<close>

section \<open>The view of a terminal\<close>

text \<open>The context a frame leads to, read back from the stack.\<close>

definition saved_context :: "'a cpu_scheme \<Rightarrow> addr \<Rightarrow> ctx" where
  "saved_context st e =
     (let w = (\<lambda>i. read32 (vmem st) (read32 (vmem st) e + i));
          user = w 52 AND 3 \<noteq> 0
      in \<lparr>c_eax = w 44, c_ebx = w 32, c_ecx = w 40, c_edx = w 36, c_esi = w 20, c_edi = w 16, c_ebp = w 24,
          c_esp = (if user then w 60 else read32 (vmem st) e + 60), c_flags = w 56, c_eip = w 48, c_cs = w 52,
          c_ss = (if user then w 64 else 0x18)\<rparr>)"

definition task_context :: "(int \<Rightarrow> int list) \<Rightarrow> int \<Rightarrow> 'a cpu_scheme \<Rightarrow> ctx" where
  "task_context threads t st =
     (if cur_process st = t then context_of st
      else saved_context st (sched_ebp (pcbs st (pcb_at (last (threads t))))))"

text \<open>The 4 MB frame of process \<open>q\<close> in physical memory.\<close>

definition user_page :: "int \<Rightarrow> mem \<Rightarrow> addr \<Rightarrow> u8" where
  "user_page q m = (\<lambda>a. m (push_bit 22 (of_int (q + 1)) OR take_bit 22 a))"

definition task_view :: "(int \<Rightarrow> int list) \<Rightarrow> int \<Rightarrow> 'a cpu_scheme \<Rightarrow> ctx \<times> (addr \<Rightarrow> u8)" where
  "task_view threads t st = (task_context threads t st, user_page (last (threads t)) (phys st))"

lemma parked_saved:
  assumes "parked c q e ctx st"
  shows "saved_context st e = ctx"
proof -
  let ?f = "read32 (vmem st) e"
  have "stub_saved 0 (?f + 8) ctx st"
    using assms by (auto simp: parked_def handler_parked_def exc_parked_def)
  then show ?thesis
    unfolding stub_saved_def gate_saved_def gate_frame_def saved_context_def Let_def
    by (cases "c_cs ctx AND 3 = 0") (simp_all add: add.assoc)
qed

lemma tasks_context:
  assumes "tasks c threads ctxs st" "booted_terminal (base_shell_booted_bitmask st) t" "t \<noteq> cur_process st"
  shows "task_context threads t st = ctxs t"
  using tasks_waiting [OF assms] assms(3) parked_saved by (auto simp: task_context_def waiting_def Let_def)

section \<open>The step relation\<close>

text \<open>
  A timer or clock interrupt, or any number of instructions of the running user program, which can
  change the registers, its own page and, in the first 4 MB, the video memory that \<open>vidmap\<close> shows it.
\<close>

definition user_mode :: "'a cpu_scheme \<Rightarrow> bool" where
  "user_mode st \<longleftrightarrow> cs_reg st AND 3 \<noteq> 0"

inductive kernel_step ::
  "code \<Rightarrow> junk \<Rightarrow> 'a cpu_ext entry_ext kernel_scheme call_params \<Rightarrow> 'a cpu_scheme \<Rightarrow> 'a cpu_scheme \<Rightarrow> bool"
  for c j l where
  timer: "deliver c j l sc 0x20 [] st = Some (Inr st') \<Longrightarrow> kernel_step c j l st st'"
| clock: "deliver c j l sc 0x28 [] st = Some (Inr st') \<Longrightarrow> kernel_step c j l st st'"
| program: "user_mode st \<Longrightarrow> user_mode st' \<Longrightarrow> strip st' = strip st \<Longrightarrow> int_flag st' = int_flag st \<Longrightarrow>
    (\<And>a. drop_bit 22 a \<noteq> 32 \<Longrightarrow> drop_bit 22 a \<noteq> 0 \<Longrightarrow> vmem st' a = vmem st a) \<Longrightarrow> kernel_step c j l st st'"

text \<open>The steps among these that are timer interrupts.\<close>

inductive timer_step ::
  "code \<Rightarrow> junk \<Rightarrow> 'a cpu_ext entry_ext kernel_scheme call_params \<Rightarrow> 'a cpu_scheme \<Rightarrow> 'a cpu_scheme \<Rightarrow> bool"
  for c j l where
  "deliver c j l sc 0x20 [] st = Some (Inr st') \<Longrightarrow> timer_step c j l st st'"

section \<open>Separation\<close>

text \<open>
  The contract: every step keeps the invariant, and a step changes the view of a domain only while the
  domain has the processor before and after it.
\<close>

locale separation =
  fixes inv :: "'s \<Rightarrow> bool" and step :: "'s \<Rightarrow> 's \<Rightarrow> bool" and current :: "'s \<Rightarrow> 'd"
    and domain :: "'d \<Rightarrow> 's \<Rightarrow> bool" and view :: "'d \<Rightarrow> 's \<Rightarrow> 'v"
  assumes inv_step: "inv s \<Longrightarrow> step s s' \<Longrightarrow> inv s'"
    and domain_step: "inv s \<Longrightarrow> step s s' \<Longrightarrow> domain d s' = domain d s"
    and view_step: "inv s \<Longrightarrow> step s s' \<Longrightarrow> domain d s \<Longrightarrow> current s \<noteq> d \<or> current s' \<noteq> d \<Longrightarrow>
      view d s' = view d s"
begin

definition away :: "'d \<Rightarrow> 's \<Rightarrow> 's \<Rightarrow> bool" where
  "away d s s' \<longleftrightarrow> step s s' \<and> (current s \<noteq> d \<or> current s' \<noteq> d)"

lemma inv_steps: "step\<^sup>*\<^sup>* s s' \<Longrightarrow> inv s \<Longrightarrow> inv s'"
  by (induction rule: rtranclp_induct) (auto intro: inv_step)

lemma view_away:
  assumes "(away d)\<^sup>*\<^sup>* s s'" "inv s" "domain d s"
  shows "inv s' \<and> domain d s' \<and> view d s' = view d s"
  using assms(1)
proof (induction rule: rtranclp_induct)
  case (step s' s'')
  then have "step s' s''" "current s' \<noteq> d \<or> current s'' \<noteq> d" by (simp_all add: away_def)
  then show ?case using step.IH inv_step domain_step view_step by metis
qed (use assms in simp)

end

section \<open>The kernel separates the terminals\<close>

definition terminal_task :: "(int \<Rightarrow> int list) \<Rightarrow> int \<Rightarrow> 'a cpu_scheme \<Rightarrow> bool" where
  "terminal_task threads t st \<longleftrightarrow> booted_terminal (base_shell_booted_bitmask st) t"

definition multitasking :: "code \<Rightarrow> (int \<Rightarrow> int list) \<Rightarrow> 'a cpu_scheme \<Rightarrow> bool" where
  "multitasking c threads st \<longleftrightarrow> (\<exists>ctxs. tasks c threads ctxs st)"

text \<open>Distinct processes have distinct frames, above the kernel's.\<close>

lemma frame_inj:
  assumes "1 \<le> p" "p \<le> 6" "1 \<le> q" "q \<le> 6" "p \<noteq> q"
  shows "(of_int (q + 1) :: u32) \<noteq> of_int (p + 1)" "(of_int (q + 1) :: u32) \<noteq> 0"
proof -
  have e: "p = 1 \<or> p = 2 \<or> p = 3 \<or> p = 4 \<or> p = 5 \<or> p = 6" "q = 1 \<or> q = 2 \<or> q = 3 \<or> q = 4 \<or> q = 5 \<or> q = 6"
    using assms by arith+
  show "(of_int (q + 1) :: u32) \<noteq> of_int (p + 1)" using e assms(5) by (elim disjE) simp_all
  show "(of_int (q + 1) :: u32) \<noteq> 0" using e(2) by (elim disjE) simp_all
qed

lemma user_page_frames:
  assumes "1 \<le> q" "q \<le> 6" "\<And>x. drop_bit 22 x \<noteq> 1 \<Longrightarrow> m' x = m x"
  shows "user_page q m' = user_page q m"
  using assms(3) join_drop [OF frame_small [OF assms(1,2)]] frame_not_low [OF assms(1,2)]
  by (simp add: user_page_def fun_eq_iff)

text \<open>The instructions of a program.\<close>

lemma program_tasks:
  fixes st st' :: "'a cpu_scheme"
  assumes "tasks c threads ctxs st" "user_mode st'" "strip st' = strip st"
    and "\<And>a. drop_bit 22 a \<noteq> 32 \<Longrightarrow> drop_bit 22 a \<noteq> 0 \<Longrightarrow> vmem st' a = vmem st a"
  shows "tasks c threads ctxs st'"
    "1 \<le> q \<Longrightarrow> q \<le> 6 \<Longrightarrow> q \<noteq> last (threads (cur_process st)) \<Longrightarrow> user_page q (phys st') = user_page q (phys st)"
proof -
  let ?p = "last (threads (cur_process st))"
  note k = kernel_side [OF assms(1)] and f = strip_fields [OF assms(3)]
  have "bytes (vmem st') (pcb_at i) 8192 = bytes (vmem st) (pcb_at i) 8192" if "1 \<le> i" "i \<le> 6" for i
    by (rule bytes_cong) (simp add: assms(4) stack_block [OF that])
  moreover have "ctx_ok ?p (context_of st')" using assms(2) by (simp add: ctx_ok_def context_of_def user_mode_def)
  ultimately show "tasks c threads ctxs st'" using f by (intro tasks_keep [OF assms(1)]) simp_all
  show "user_page q (phys st') = user_page q (phys st)" if "1 \<le> q" "q \<le> 6" "q \<noteq> ?p"
  proof
    fix a
    let ?x = "push_bit 22 (of_int (q + 1)) OR take_bit 22 a :: u32"
    have d: "drop_bit 22 ?x = of_int (q + 1)" by (rule join_drop [OF frame_small [OF that(1,2)]])
    have p: "drop_bit 22 (pdt st 32) = of_int (?p + 1)"
      using k(10) by (simp add: sched_inv_def enter_kernel_def running_def)
    note n = frame_inj [OF k(1,2) that(1,2) that(3) [symmetric]] frame_not_low [OF that(1,2)]
    have r: "remap st ?x = ?x" "remap st' ?x = ?x" unfolding remap_def f(2,13) p d Let_def using n by simp_all
    have "vmem st' ?x = vmem st ?x" by (rule assms(4)) (use d n in simp_all)
    then have "phys st' ?x = phys st ?x" unfolding vmem_def r .
    then show "user_page q (phys st') a = user_page q (phys st) a" by (simp add: user_page_def)
  qed
qed

lemma top_range:
  assumes "tasks c threads ctxs st" "booted_terminal (base_shell_booted_bitmask st) u"
  shows "1 \<le> last (threads u)" "last (threads u) \<le> 6"
    "cur_process st \<noteq> u \<Longrightarrow> last (threads u) \<noteq> last (threads (cur_process st))"
proof -
  note k = kernel_side [OF assms(1)]
  have b: "booted_terminal (base_shell_booted_bitmask (enter_kernel 4 st)) u" using assms(2) by (simp add: enter_kernel_def)
  show "1 \<le> last (threads u)" "last (threads u) \<le> 6" using sched_inv_tops [OF k(10) b] by simp_all
  have thr: "threads_ok (pcbs st) (base_shell_booted_bitmask st) threads"
    using k(10) by (simp add: sched_inv_def enter_kernel_def)
  have "last (threads u) \<in> set (threads u)" "last (threads (cur_process st)) \<in> set (threads (cur_process st))"
    using threads_ok_booted [OF thr assms(2)] threads_ok_booted [OF thr k(9)] by simp_all
  then show "cur_process st \<noteq> u \<Longrightarrow> last (threads u) \<noteq> last (threads (cur_process st))"
    using threads_disjoint [OF thr assms(2) k(9)] by auto
qed

lemma switched_context:
  assumes "tasks c threads ctxs st" "booted_terminal (base_shell_booted_bitmask st) u"
  shows "task_context threads u st = (ctxs(cur_process st := context_of st)) u"
  using tasks_context [OF assms] by (auto simp: task_context_def)

lemma kernel_step_tasks:
  fixes st st' :: "'a cpu_scheme"
  assumes "kernel_step c j l st st'" "tasks c threads ctxs st"
  obtains ctxs' where "tasks c threads ctxs' st'" "base_shell_booted_bitmask st' = base_shell_booted_bitmask st"
    "\<And>t. booted_terminal (base_shell_booted_bitmask st) t \<Longrightarrow> cur_process st \<noteq> t \<or> cur_process st' \<noteq> t \<Longrightarrow>
      task_view threads t st' = task_view threads t st"
  using assms(1)
proof cases
  case (timer sc)
  obtain st2 where d: "deliver c j l sc 0x20 [] st = Some (Inr st2)" and
    t: "tasks c threads (ctxs(cur_process st := context_of st)) st2"
    "cur_process st2 = next_process (base_shell_booted_bitmask st) (cur_process st)"
    "base_shell_booted_bitmask st2 = base_shell_booted_bitmask st"
    "context_of st2 = (ctxs(cur_process st := context_of st)) (cur_process st2)"
    "\<And>x. drop_bit 22 x \<noteq> 1 \<Longrightarrow> phys st2 x = phys st x"
    by (rule timer_tasks [where j = j and l = l and sc = sc, OF assms(2)]) blast
  have "st2 = st'" using d timer by simp
  note t = t [unfolded this]
  show ?thesis
  proof (rule that [OF t(1,3)])
    fix u assume u: "booted_terminal (base_shell_booted_bitmask st) u" "cur_process st \<noteq> u \<or> cur_process st' \<noteq> u"
    have "task_context threads u st = (ctxs(cur_process st := context_of st)) u"
      by (rule switched_context [OF assms(2) u(1)])
    moreover have "task_context threads u st' = (ctxs(cur_process st := context_of st)) u"
      using tasks_context [OF t(1), of u] u(1) t(3,4) by (auto simp: task_context_def)
    moreover have "user_page (last (threads u)) (phys st') = user_page (last (threads u)) (phys st)"
      by (rule user_page_frames) (use top_range [OF assms(2) u(1)] t(5) in simp_all)
    ultimately show "task_view threads u st' = task_view threads u st" by (simp add: task_view_def)
  qed
next
  case (clock sc)
  note t = clock_tasks [OF assms(2) clock]
  show ?thesis
  proof (rule that [OF t(1,4)])
    fix u assume u: "booted_terminal (base_shell_booted_bitmask st) u" "cur_process st \<noteq> u \<or> cur_process st' \<noteq> u"
    have "task_context threads u st' = task_context threads u st"
      using tasks_context [OF assms(2) u(1)] tasks_context [OF t(1), of u] u t(3,4) by simp
    moreover have "user_page (last (threads u)) (phys st') = user_page (last (threads u)) (phys st)"
      by (rule user_page_frames) (use top_range [OF assms(2) u(1)] t(5) in simp_all)
    ultimately show "task_view threads u st' = task_view threads u st" by (simp add: task_view_def)
  qed
next
  case program
  note f = strip_fields [OF program(3)]
  note t = program_tasks [OF assms(2) program(2,3,5)]
  show ?thesis
  proof (rule that [OF t(1) f(4)])
    fix u assume u: "booted_terminal (base_shell_booted_bitmask st) u" "cur_process st \<noteq> u \<or> cur_process st' \<noteq> u"
    then have u': "cur_process st \<noteq> u" using f(3) by auto
    have "task_context threads u st' = task_context threads u st"
      using tasks_context [OF assms(2) u(1)] tasks_context [OF t(1), of u] u u' f by simp
    moreover have "user_page (last (threads u)) (phys st') = user_page (last (threads u)) (phys st)"
      using top_range [OF assms(2) u(1)] u' by (intro t(2)) auto
    ultimately show "task_view threads u st' = task_view threads u st" by (simp add: task_view_def)
  qed
qed

interpretation terminals: separation "multitasking c threads" "kernel_step c j l" cur_process "terminal_task threads"
  "task_view threads"
proof unfold_locales
  fix s s' :: "'a cpu_scheme" and d
  assume m: "multitasking c threads s" and st: "kernel_step c j l s s'"
  then obtain ctxs where "tasks c threads ctxs s" by (auto simp: multitasking_def)
  then obtain ctxs' where t: "tasks c threads ctxs' s'" "base_shell_booted_bitmask s' = base_shell_booted_bitmask s"
    "\<And>t. booted_terminal (base_shell_booted_bitmask s) t \<Longrightarrow> cur_process s \<noteq> t \<or> cur_process s' \<noteq> t \<Longrightarrow>
      task_view threads t s' = task_view threads t s"
    by (rule kernel_step_tasks [OF st]) blast
  show "multitasking c threads s'" using t(1) by (auto simp: multitasking_def)
  show "terminal_task threads d s' = terminal_task threads d s" by (simp add: terminal_task_def t(2))
  show "task_view threads d s' = task_view threads d s"
    if "terminal_task threads d s" "cur_process s \<noteq> d \<or> cur_process s' \<noteq> d"
    using t(3) that by (simp add: terminal_task_def)
qed

section \<open>Turns\<close>

text \<open>
  The contract of a scheduler: a tick passes the turn on and no other step does.  Then the turn after a run
  depends on the number of its ticks alone.
\<close>

definition ticks :: "(nat \<Rightarrow> bool) \<Rightarrow> nat \<Rightarrow> nat" where
  "ticks P n = length (filter P [0..<n])"

lemma ticks_simps [simp]: "ticks P 0 = 0" "ticks P (Suc n) = (if P n then Suc (ticks P n) else ticks P n)"
  by (simp_all add: ticks_def)

lemma ticks_reached: "0 < k \<Longrightarrow> k \<le> ticks P n \<Longrightarrow> \<exists>i<n. P i \<and> ticks P (Suc i) = k"
proof (induction n)
  case (Suc n)
  show ?case
  proof (cases "k \<le> ticks P n")
    case True
    then show ?thesis using Suc.IH Suc.prems(1) less_SucI by blast
  next
    case False
    then have "P n" "ticks P (Suc n) = k" using Suc.prems by (auto split: if_splits)
    then show ?thesis by blast
  qed
qed simp

locale turns =
  fixes inv :: "'s \<Rightarrow> bool" and step tick :: "'s \<Rightarrow> 's \<Rightarrow> bool" and current :: "'s \<Rightarrow> 'd" and pass :: "'d \<Rightarrow> 'd"
  assumes inv_step: "inv s \<Longrightarrow> step s s' \<Longrightarrow> inv s'"
    and turn_step: "inv s \<Longrightarrow> step s s' \<Longrightarrow> current s' = (if tick s s' then pass (current s) else current s)"
begin

lemma turn_after:
  assumes "inv (s 0)" "\<And>i. i < n \<Longrightarrow> step (s i) (s (Suc i))" "m \<le> n"
  shows "inv (s m) \<and> current (s m) = (pass ^^ ticks (\<lambda>i. tick (s i) (s (Suc i))) m) (current (s 0))"
  using assms(3)
proof (induction m)
  case (Suc m)
  then show ?case using assms(2) [of m] inv_step turn_step by auto
qed (simp add: assms(1))

lemma turn_reached:
  assumes "inv (s 0)" "\<And>i. i < n \<Longrightarrow> step (s i) (s (Suc i))"
    and "0 < k" "k \<le> ticks (\<lambda>i. tick (s i) (s (Suc i))) n"
  shows "\<exists>i<n. tick (s i) (s (Suc i)) \<and> inv (s i) \<and> inv (s (Suc i)) \<and> current (s (Suc i)) = (pass ^^ k) (current (s 0))"
proof -
  obtain i where i: "i < n" "tick (s i) (s (Suc i))" "ticks (\<lambda>i. tick (s i) (s (Suc i))) (Suc i) = k"
    using ticks_reached [OF assms(3,4)] by blast
  then show ?thesis
    using turn_after [where s = s and n = n and m = i, OF assms(1,2)]
      turn_after [where s = s and n = n and m = "Suc i", OF assms(1,2)] by auto
qed

end

lemma timer_step_next:
  assumes "timer_step c j l st st'" "tasks c threads ctxs st"
  shows "cur_process st' = next_process (base_shell_booted_bitmask st) (cur_process st)"
    "context_of st' = task_context threads (cur_process st') st"
    "tasks c threads (ctxs(cur_process st := context_of st)) st'"
    "\<And>x. drop_bit 22 x \<noteq> 1 \<Longrightarrow> phys st' x = phys st x"
proof -
  obtain sc where sc: "deliver c j l sc 0x20 [] st = Some (Inr st')" using assms(1) by (auto simp: timer_step.simps)
  obtain st2 where d: "deliver c j l sc 0x20 [] st = Some (Inr st2)" and
    t: "tasks c threads (ctxs(cur_process st := context_of st)) st2"
    "cur_process st2 = next_process (base_shell_booted_bitmask st) (cur_process st)"
    "context_of st2 = (ctxs(cur_process st := context_of st)) (cur_process st2)"
    "\<And>x. drop_bit 22 x \<noteq> 1 \<Longrightarrow> phys st2 x = phys st x"
    by (rule timer_tasks [where j = j and l = l and sc = sc, OF assms(2)]) blast
  have "st2 = st'" using d sc by simp
  note t = t [unfolded this]
  show "cur_process st' = next_process (base_shell_booted_bitmask st) (cur_process st)" by (rule t(2))
  show "tasks c threads (ctxs(cur_process st := context_of st)) st'" by (rule t(1))
  show "\<And>x. drop_bit 22 x \<noteq> 1 \<Longrightarrow> phys st' x = phys st x" by (rule t(4))
  have "booted_terminal (base_shell_booted_bitmask st) (cur_process st')"
    unfolding t(2) by (rule next_process_booted [OF kernel_side(9) [OF assms(2)]])
  then show "context_of st' = task_context threads (cur_process st') st"
    using t(3) switched_context [OF assms(2)] by simp
qed

interpretation schedule: turns "\<lambda>st. multitasking c threads st \<and> base_shell_booted_bitmask st = b" "kernel_step c j l"
  "timer_step c j l" cur_process "next_process b"
proof unfold_locales
  fix s s' :: "'a cpu_scheme"
  assume m: "multitasking c threads s \<and> base_shell_booted_bitmask s = b" and st: "kernel_step c j l s s'"
  then obtain ctxs where tk: "tasks c threads ctxs s" by (auto simp: multitasking_def)
  then obtain ctxs' where "tasks c threads ctxs' s'" "base_shell_booted_bitmask s' = base_shell_booted_bitmask s"
    by (rule kernel_step_tasks [OF st]) blast
  then show "multitasking c threads s' \<and> base_shell_booted_bitmask s' = b" using m by (auto simp: multitasking_def)
  show "cur_process s' = (if timer_step c j l s s' then next_process b (cur_process s) else cur_process s)"
  proof (cases "timer_step c j l s s'")
    case True
    then show ?thesis using timer_step_next(1) [OF True tk] m by simp
  next
    case False
    from st have "cur_process s' = cur_process s"
    proof cases
      case (timer sc)
      then show ?thesis using False by (auto intro: timer_step.intros)
    next
      case (clock sc)
      then show ?thesis using clock_tasks(3) [OF tk clock] by simp
    next
      case program
      then show ?thesis using strip_fields [OF program(3)] by simp
    qed
    then show ?thesis using False by simp
  qed
qed

end
