(* ===== verification/CallLinkage.thy ===== *)
theory CallLinkage imports Switching Processes begin

text \<open>
  System calls from the program's \<open>int 0x80\<close> to its resumption: the words the linkage and the dispatcher
  keep for the program, the arguments the call sees, and the way back through the end of the dispatcher,
  whether the call returns from its own frame or, as \<open>halt\<close> does, into the frame of another one.
\<close>

section \<open>What the stack keeps\<close>

text \<open>The words from the frame of a system call on; the dispatcher restores \<open>ebx\<close> and \<open>edi\<close> in the wrong
  order, and the linkage puts them right.\<close>

definition call_saved :: "code \<Rightarrow> addr \<Rightarrow> ctx \<Rightarrow> 'a cpu_scheme \<Rightarrow> bool" where
  "call_saved c a ctx st \<longleftrightarrow>
     read32 (vmem st) (a + 36) = ret_site c system_call_linkage \<and>
     stack_at (vmem st) (a + 40) [c_ebp ctx, c_edi ctx, c_esi ctx, c_edx ctx, c_ecx ctx, c_ebx ctx] \<and>
     gate_saved (a + 68) ctx st"

lemma call_saved_cong:
  assumes "bytes (vmem st') a 88 = bytes (vmem st) a 88"
  shows "call_saved c a ctx st' = call_saved c a ctx st"
proof -
  have g: "length (gate_frame ctx) \<le> 5" by (simp add: gate_frame_def)
  have "stack_at (vmem st') (a + 68) (gate_frame ctx) = stack_at (vmem st) (a + 68) (gate_frame ctx)"
    using g by (intro stack_at_sub [OF assms, of 68]) simp_all
  moreover have "read32 (vmem st') (a + 36) = read32 (vmem st) (a + 36)"
    by (rule read32_sub [OF assms, of 36]) simp_all
  moreover have "stack_at (vmem st') (a + 40) [c_ebp ctx, c_edi ctx, c_esi ctx, c_edx ctx, c_ecx ctx, c_ebx ctx] =
      stack_at (vmem st) (a + 40) [c_ebp ctx, c_edi ctx, c_esi ctx, c_edx ctx, c_ecx ctx, c_ebx ctx]"
    by (rule stack_at_sub [OF assms, of 40]) simp_all
  ultimately show ?thesis by (simp only: call_saved_def gate_saved_def)
qed

lemma dispatcher_end:
  "sys_calls_handler_end st = st\<lparr>esp := esp st + 36, ebx := read32 (vmem st) (esp st + 20),
     esi := read32 (vmem st) (esp st + 24), edi := read32 (vmem st) (esp st + 28), ebp := read32 (vmem st) (esp st + 32)\<rparr>"
  by (simp add: sys_calls_handler_end_def pop_def Let_def add.assoc)

lemma gate_saved_result: "gate_saved a (ctx\<lparr>c_eax := v\<rparr>) st = gate_saved a ctx st"
  by (simp add: gate_saved_def gate_frame_def)

text \<open>From the end of the dispatcher to the program.\<close>

lemma system_call_returns:
  assumes "call_saved c (esp st) ctx st" "ss_reg st = 0x18"
  shows "(let (a, st') = pop (sys_calls_handler_end st)
      in if a = ret_site c system_call_linkage then Inr (system_call_leave st') else Inl StrayReturn) =
    Inr (resume (ctx\<lparr>c_eax := eax st\<rparr>) st)"
proof -
  let ?ctx = "ctx\<lparr>c_eax := eax st\<rparr>"
  define s where "s = snd (pop (sys_calls_handler_end st))"
  have p: "pop (sys_calls_handler_end st) = (ret_site c system_call_linkage, s)"
    using assms(1) by (simp add: s_def call_saved_def dispatcher_end pop_def add.assoc)
  have s: "esp s = esp st + 40" "vmem s = vmem st" "eax s = eax st" "ss_reg s = 0x18"
    using assms(2) by (simp_all add: s_def dispatcher_end pop_def add.assoc)
  have w: "read32 (vmem st) (esp st + 40) = c_ebp ctx" "read32 (vmem st) (esp st + 44) = c_edi ctx"
    "read32 (vmem st) (esp st + 48) = c_esi ctx" "read32 (vmem st) (esp st + 52) = c_edx ctx"
    "read32 (vmem st) (esp st + 56) = c_ecx ctx" "read32 (vmem st) (esp st + 60) = c_ebx ctx"
    using assms(1) by (simp_all add: call_saved_def add.assoc)
  define r where "r = s\<lparr>ebp := c_ebp ctx, edi := c_edi ctx, esi := c_esi ctx, edx := c_edx ctx, ecx := c_ecx ctx,
    ebx := c_ebx ctx, esp := esp st + 68, eflags := read32 (vmem st) (esp st + 64),
    int_flag := bit (read32 (vmem st) (esp st + 64)) 9\<rparr>"
  have l: "system_call_leave s = iret r"
    by (simp add: system_call_leave_def pop_def popfl_def set_flags_def Let_def s w r_def add.assoc)
  have "vmem r = vmem st" "esp r = esp st + 68" "ss_reg r = 0x18" by (simp_all add: r_def s)
  then have "gate_saved (esp r) ?ctx r" "ss_reg r = 0x18"
    using assms(1) unfolding call_saved_def gate_saved_result by (simp_all add: gate_saved_def)
  from iret_gate [OF this] have "iret r = resume ?ctx st"
    by (simp add: r_def resume_def set_flags_def s_def dispatcher_end pop_def)
  then show ?thesis by (simp add: p l)
qed

section \<open>The state a call starts in\<close>

definition call_gate :: "code \<Rightarrow> gate" where
  "call_gate c = \<lparr>g_offset = linkage c system_call_linkage, g_selector = 0x10, g_type = 0xF, g_dpl = 3\<rparr>"

definition dispatch_state :: "code \<Rightarrow> 'a cpu_scheme \<Rightarrow> 'a cpu_scheme" where
  "dispatch_state c st = dispatch_enter (push (ret_site c system_call_linkage) (system_call_enter (enter_gate (call_gate c) [] st)))"

definition call_state :: "code \<Rightarrow> 'a cpu_scheme \<Rightarrow> 'a cpu_scheme" where
  "call_state c st = call_enter c (dispatch_state c st)"

lemma set_vmem_ebp: "set_vmem m (st\<lparr>ebp := x\<rparr>) = (set_vmem m st)\<lparr>ebp := x\<rparr>"
proof -
  have "remap (st\<lparr>ebp := x\<rparr>) = remap st" by (simp add: remap_def user_mapped_def fun_eq_iff)
  then show ?thesis by (simp add: set_vmem_def)
qed

lemma pushes_ebp: "pushes vs (st\<lparr>ebp := x\<rparr>) = (pushes vs st)\<lparr>ebp := x\<rparr>"
proof (induction vs arbitrary: st)
  case (Cons v vs)
  have e: "st\<lparr>ebp := x, esp := e\<rparr> = st\<lparr>esp := e, ebp := x\<rparr>" for e by simp
  have "push v (st\<lparr>ebp := x\<rparr>) = (push v st)\<lparr>ebp := x\<rparr>"
    by (simp add: push_def Let_def e set_vmem_ebp)
  then show ?case using Cons.IH by (simp add: pushes_simps)
qed (simp add: pushes_simps)

lemma dispatch_enter_pushes:
  "dispatch_enter st = (pushes [ebp st, ebx st, esi st, edi st] st)\<lparr>ebp := esp st - 4\<rparr>"
proof -
  have r: "ebx (push v st) = ebx st" "esi (push v st) = esi st" "edi (push v st) = edi st" for v
    using pushes_regs(2,5,6) [of "[v]" st] by (simp_all add: pushes_simps)
  have "dispatch_enter st = pushes [ebx st, esi st, edi st] ((push (ebp st) st)\<lparr>ebp := esp st - 4\<rparr>)"
    by (simp add: dispatch_enter_def Let_def r)
  then show ?thesis unfolding pushes_ebp by (simp only: pushes_simps)
qed

text \<open>The words from the frame of the call on, before the frame itself is pushed.\<close>

lemma call_entered:
  fixes st :: "'a cpu_scheme"
  assumes "sites_ok c" "segments_ok st" "room_for p st"
  defines "ds \<equiv> dispatch_state c st" and "cs \<equiv> call_state c st"
  obtains d where "strip ds = strip st" "strip cs = strip st" "ss_reg ds = 0x18" "ss_reg cs = 0x18"
    "eax ds = eax st" "call_saved c (esp ds - 20) (context_of st) ds"
    "same_outside (pcb_at p) 8192 (vmem st) (vmem ds)"
    "room (pcb_at p) d st cs" "0 < d" "d < 8192"
    "call_saved c (ebp cs) (context_of st) cs" "unat (ebp cs - pcb_at p) + 88 \<le> 8192"
    "read32 (vmem cs) (ebp cs + 8) = ebx st" "read32 (vmem cs) (ebp cs + 12) = ecx st"
    "read32 (vmem cs) (ebp cs + 16) = edx st"
proof -
  let ?b = "pcb_at p" and ?k = "if cs_reg st AND 3 \<noteq> 0 then 20 else 12 :: nat" and ?ctx = "context_of st"
  define d where "d = unat (kstack st - ?b)"
  have d: "kstack st = ?b + of_nat d" "4096 \<le> d" "d \<le> 8192" "cs_reg st AND 3 = 0 \<longrightarrow> d \<le> 8184"
    using assms(3) by (auto simp: d_def room_for_def split: if_splits)
  have n: "unat (size_call c) \<le> 1024" using assms(1) by (simp add: sites_ok_def)
  define stg where "stg = enter_gate (call_gate c) [] st"
  note gs = enter_gate_stack [where err = "[]" and g = "call_gate c" and st = st, folded stg_def, simplified]
  note rg = regs_enter_gate [of "call_gate c" "[]" st, folded stg_def]
  have ss: "ss_reg stg = 0x18" using gs(3) assms(2) by (auto simp: segments_ok_def)
  have r0: "room ?b (d - ?k) st stg" unfolding stg_def using d(1-3) by (intro room_enter_gate) auto
  define L where "L = [flags stg, ebx st, ecx st, edx st, esi st, edi st, ebp st, ret_site c system_call_linkage,
    ebp st, ebx st, esi st, edi st]"
  have ds: "ds = (pushes L stg)\<lparr>ebp := esp stg - 36\<rparr>"
  proof -
    define sr where "sr = push (ret_site c system_call_linkage) (system_call_enter stg)"
    have sr: "sr = pushes [flags stg, ebx st, ecx st, edx st, esi st, edi st, ebp st, ret_site c system_call_linkage] stg"
      by (simp add: sr_def system_call_enter_def rg pushes_simps)
    have "ds = dispatch_enter sr" by (simp add: ds_def dispatch_state_def stg_def sr_def)
    also have "\<dots> = (pushes [ebp st, ebx st, esi st, edi st] sr)\<lparr>ebp := esp stg - 36\<rparr>"
      unfolding dispatch_enter_pushes by (simp add: sr rg)
    finally show ?thesis unfolding sr L_def pushes_simps(3) [symmetric] by simp
  qed
  have ed: "esp ds = esp stg - 48" by (simp add: ds L_def)
  have fd: "eax ds = eax st" "ebx ds = ebx st" "ecx ds = ecx st" "edx ds = edx st" "strip ds = strip st" "ss_reg ds = 0x18"
    by (simp_all add: ds rg ss) (simp add: stg_def)
  have sd: "stack_at (vmem ds) (esp ds) (rev L @ gate_frame ?ctx)"
    unfolding ed using stack_pushes [OF gs(1), of L] by (simp add: ds L_def gate_frame_def)
  have rd: "room ?b (d - ?k - 48) st ds"
    using room_pushes [OF r0, of L] d(2,3) by (auto simp: L_def ds room_def)
  define W where "W = [edx st, ecx st, ebx st, 0, ebp ds]"
  have cs: "vmem cs = vmem (pushes W ds)" "ebp cs = esp ds - 20" "strip cs = strip st" "ss_reg cs = 0x18"
    by (simp_all add: cs_def call_state_def call_enter_def ds_def [symmetric] vmem_c_enter fd W_def pushes_simps)
  have sc: "stack_at (vmem cs) (ebp cs) (rev W @ rev L @ gate_frame ?ctx)"
    unfolding cs(1,2) using stack_pushes [OF sd, of W] by (simp add: W_def L_def gate_frame_def)
  have g: "c_cs ?ctx AND 3 = 0 \<longrightarrow> c_esp ?ctx = esp stg + 12 \<and> c_ss ?ctx = 0x18"
    using gs(2) assms(2) by (auto simp: context_of_def segments_ok_def)
  have "call_saved c (esp ds - 20) ?ctx ds"
    using sd g unfolding call_saved_def gate_saved_def
    by (simp add: L_def ed stack_at_append add.assoc) (simp add: context_of_def add.assoc)
  moreover have "call_saved c (ebp cs) ?ctx cs" "read32 (vmem cs) (ebp cs + 8) = ebx st"
    "read32 (vmem cs) (ebp cs + 12) = ecx st" "read32 (vmem cs) (ebp cs + 16) = edx st"
    using sc g unfolding call_saved_def gate_saved_def
    by (simp_all add: L_def W_def ed cs(2) stack_at_append add.assoc) (simp add: context_of_def add.assoc)
  moreover have "room ?b (d - ?k - 48 - 16 - 4 - unat (size_call c)) st cs"
    unfolding cs_def call_state_def call_enter_def ds_def [symmetric]
    using n d(2) room_pushes [OF rd, of "[edx ds, ecx ds, ebx ds, 0]"] by (intro room_c_enter) (auto split: if_splits)
  moreover have "unat (ebp cs - ?b) + 88 \<le> 8192"
  proof -
    have "ebp cs = ?b + of_nat (d - ?k - 68)" using rd d(2) by (auto simp: cs(2) room_def of_nat_diff algebra_simps)
    then show ?thesis using d(3,4) by auto
  qed
  moreover have "same_outside ?b 8192 (vmem st) (vmem ds)" using rd by (simp add: room_def)
  ultimately show ?thesis
    using fd cs n d(2,3) by (intro that [of "d - ?k - 48 - 16 - 4 - unat (size_call c)"]) auto
qed

lemma deliver_call:
  assumes "sites_ok c" "installed c st"
  shows "deliver c j l sc 0x80 [] st = Some (system_call c j l (enter_gate (call_gate c) [] st))"
proof -
  have "decode_gate (desc_bytes (idt st 0x80)) = Some (call_gate c)"
    using assms(2) by (simp add: installed_def gate_table_def call_gate_def)
  then show ?thesis by (simp add: deliver_def) (simp add: call_gate_def)
qed

lemma resume_eax [simp]: "resume ctx (st\<lparr>eax := a\<rparr>) = resume ctx st"
  by (simp add: resume_def set_flags_def)

lemma call_saved_frames [simp]:
  "call_saved c a ctx (st\<lparr>eax := x\<rparr>) = call_saved c a ctx st" "call_saved c a ctx (st\<lparr>esp := y\<rparr>) = call_saved c a ctx st"
  "call_saved c a ctx (clobber j st) = call_saved c a ctx st"
  by (simp_all add: call_saved_def gate_saved_def clobber_def)

text \<open>The two ways through the dispatcher.\<close>

lemma deliver_invalid:
  fixes st :: "'a cpu_scheme"
  assumes "sites_ok c" "installed c st" "segments_ok st" "room_for p st" "eax st <s 1 \<or> 10 <s eax st"
  shows "deliver c j l sc 0x80 [] st = Some (Inr (resume ((context_of st)\<lparr>c_eax := - 1\<rparr>) (dispatch_state c st)))"
proof -
  let ?ds = "dispatch_state c st"
  obtain ds: "ss_reg ?ds = 0x18" "eax ?ds = eax st" "call_saved c (esp ?ds - 20) (context_of st) ?ds"
    by (rule call_entered [OF assms(1,3,4)])
  define X where "X = ?ds\<lparr>eax := - 1, esp := esp ?ds - 20\<rparr>"
  have "call_saved c (esp X) (context_of st) X" "ss_reg X = 0x18" "eax X = - 1"
    using ds by (simp_all add: X_def call_saved_def gate_saved_def)
  note r = system_call_returns [OF this(1,2), unfolded this(3)]
  have h: "sys_calls_handler c j l (push (ret_site c system_call_linkage) (system_call_enter (enter_gate (call_gate c) [] st))) =
      Inr (sys_calls_handler_end X, None)"
    using assms(5) ds(2) by (simp add: sys_calls_handler_def dispatch_state_def [symmetric] X_def Let_def)
  have "system_call c j l (enter_gate (call_gate c) [] st) = Inr (resume ((context_of st)\<lparr>c_eax := - 1\<rparr>) X)"
    using r by (simp add: system_call_def h Let_def)
  then show ?thesis by (simp add: deliver_call [OF assms(1,2)] X_def)
qed

lemma deliver_valid:
  fixes st st3 :: "'a cpu_scheme"
  assumes "sites_ok c" "installed c st" "segments_ok st" "room_for p st" "\<not> (eax st <s 1 \<or> 10 <s eax st)"
    and "jump_table l (unat (eax st)) (ebx st) (ecx st) (edx st) (call_state c st) = Inr (st3, Sys_return v)"
    and "call_saved c (esp st3) ctx st3" "ss_reg st3 = 0x18"
  shows "deliver c j l sc 0x80 [] st = Some (Inr (resume (ctx\<lparr>c_eax := of_int v\<rparr>) st3))"
proof -
  let ?cs = "call_state c st"
  obtain cs: "eax (dispatch_state c st) = eax st" "read32 (vmem ?cs) (ebp ?cs + 8) = ebx st"
    "read32 (vmem ?cs) (ebp ?cs + 12) = ecx st" "read32 (vmem ?cs) (ebp ?cs + 16) = edx st"
    by (rule call_entered [OF assms(1,3,4)])
  define X where "X = (clobber j st3)\<lparr>eax := of_int v\<rparr>"
  have "call_saved c (esp X) ctx X" "ss_reg X = 0x18" "eax X = of_int v"
    using assms(7,8) by (simp_all add: X_def) (simp_all add: clobber_def)
  note r = system_call_returns [OF this(1,2), unfolded this(3)]
  have h: "sys_calls_handler c j l (push (ret_site c system_call_linkage) (system_call_enter (enter_gate (call_gate c) [] st))) =
      Inr (sys_calls_handler_end X, None)"
    using assms(5,6) cs
    by (simp add: sys_calls_handler_def dispatch_state_def [symmetric] call_state_def [symmetric] X_def Let_def add.assoc)
  have "system_call c j l (enter_gate (call_gate c) [] st) = Inr (resume (ctx\<lparr>c_eax := of_int v\<rparr>) X)"
    using r by (simp add: system_call_def h Let_def)
  then show ?thesis by (simp add: deliver_call [OF assms(1,2)] X_def)
qed

text \<open>A call that starts a program.\<close>

lemma deliver_started:
  fixes st st3 :: "'a cpu_scheme"
  assumes "sites_ok c" "installed c st" "segments_ok st" "room_for p st" "\<not> (eax st <s 1 \<or> 10 <s eax st)"
    and "jump_table l (unat (eax st)) (ebx st) (ecx st) (edx st) (call_state c st) = Inr (st3, To_user frame)"
  shows "deliver c j l sc 0x80 [] st = Some (Inr (enter_user frame (clobber j st3)))"
proof -
  let ?cs = "call_state c st"
  obtain cs: "eax (dispatch_state c st) = eax st" "read32 (vmem ?cs) (ebp ?cs + 8) = ebx st"
    "read32 (vmem ?cs) (ebp ?cs + 12) = ecx st" "read32 (vmem ?cs) (ebp ?cs + 16) = edx st"
    by (rule call_entered [OF assms(1,3,4)])
  have "sys_calls_handler c j l (push (ret_site c system_call_linkage) (system_call_enter (enter_gate (call_gate c) [] st))) =
      Inr (clobber j st3, Some frame)"
    using assms(5,6) cs
    by (simp add: sys_calls_handler_def dispatch_state_def [symmetric] call_state_def [symmetric] Let_def add.assoc)
  then show ?thesis by (simp add: deliver_call [OF assms(1,2)] system_call_def Let_def)
qed

end
