(* ===== verification/ExampleMachine.thy ===== *)
theory ExampleMachine imports Isolation CallLinkage Example begin

text \<open>
  The machine of \<open>Example\<close> with a processor: terminal 1's \<open>cat\<close> runs in user mode, terminal 2's shell was
  interrupted by the timer and its context waits on its kernel stack.
\<close>

definition machine_code :: code where
  "machine_code = (let v = (\<lambda>s. if s = system_call_linkage then 128 else fst (linkage_params s)) in
     \<lparr>linkage = (\<lambda>s. 0x408000 + 32 * v s), ret_site = (\<lambda>s. 0x408011 + 32 * v s), size_exc = 0x2A8,
      size_handler = 0x40, size_call = 0x160, ret_handler = 0x409000,
      locals_exc = \<lparr>at_exceptions = 0x7F7A00, at_conv_buf = 0x7F7980, lit_exception = 0x500400, lit_type = 0x500440,
        lit_address = 0x500480, locals_execute = system_locals, junk_new_page = 0, junk_vidmem_pt = 0\<rparr>\<rparr>)"

definition waiting_context :: ctx where
  "waiting_context = \<lparr>c_eax = 1, c_ebx = 2, c_ecx = 3, c_edx = 4, c_esi = 5, c_edi = 6, c_ebp = 0x83FFFF0,
     c_esp = 0x83FFF00, c_flags = 0x202, c_eip = 0x80480A0, c_cs = 0x23, c_ss = 0x2B\<rparr>"

text \<open>The words on the waiting shell's stack: the frames of the timer's handler and of \<open>exc_handler\<close>, the
  words of the linkage and those of the processor.\<close>

definition waiting_frame :: "u32 list" where
  "waiting_frame = [0x7FBE90, ret_handler machine_code, 0, 0, 0x83FFFF0, ret_site machine_code PIT_linkage, 0x20, 0x202,
     6, 5, 0x83FFFF0, 0x7FBEC8, 2, 4, 3, 1, 0x80480A0, 0x23, 0x202, 0x83FFF00, 0x2B]"

definition zero_desc :: idt_desc where
  "zero_desc = \<lparr>offset_15_00 = 0, seg_selector = 0, reserved4 = 0, reserved3 = 0, reserved2 = 0, reserved1 = 0,
     gate_size = 0, reserved0 = 0, gate_dpl = 0, gate_present = 0, offset_31_16 = 0\<rparr>"

definition bare_machine :: cpu where
  "bare_machine = entry.extend (kernel.extend (system_state 1) (entry.fields (\<lambda>_. zero_desc) 0))
     (cpu.fields 11 2 3 4 5 6 0x202 0x8048090 0x23 0x2B)"

definition machine :: cpu where
  "machine = setup_IDT (linkage machine_code) zero_desc
     ((pushes (rev waiting_frame) (bare_machine\<lparr>esp := 0x7FBED4\<rparr>))\<lparr>esp := 0x83FFFC0, ebp := 0x83FFFE0, int_flag := True\<rparr>)"

lemma machine_sites: "sites_ok machine_code"
  by (simp add: sites_ok_def all_stubs_def interrupt_gates_def machine_code_def Let_def)

lemma bare_fields:
  "pcbs bare_machine = pcbs (system_state 1)" "pdt bare_machine = pdt (system_state 1)"
  "phys bare_machine = phys (system_state 1)" "cur_process bare_machine = cur_process (system_state 1)"
  "base_shell_booted_bitmask bare_machine = base_shell_booted_bitmask (system_state 1)"
  "tss_esp0 bare_machine = tss_esp0 (system_state 1)" "tss_ss0 bare_machine = tss_ss0 (system_state 1)"
  "rtc_flag bare_machine = rtc_flag (system_state 1)" "rtc_freq bare_machine = rtc_freq (system_state 1)"
  "rtc_counter bare_machine = rtc_counter (system_state 1)" "tlb_fresh bare_machine = tlb_fresh (system_state 1)"
  "eax bare_machine = 11" "cs_reg bare_machine = 0x23" "ss_reg bare_machine = 0x2B"
  by (simp_all add: bare_machine_def kernel.defs entry.defs cpu.defs)

lemma bare_vmem: "vmem bare_machine = system_image"
  using system_vmem [of 1] by (simp add: vmem_def remap_def user_mapped_def bare_fields)

lemma system_tss: "tss_esp0 (system_state 1) = 0x7F8000" "tss_ss0 (system_state 1) = 0x18"
  by (simp_all add: system_state_def)

lemma strip_idt: "strip (st\<lparr>idt := i\<rparr>) = (strip st)\<lparr>idt := i\<rparr>"
  by (simp add: strip_def)

lemma machine_same:
  obtains i where "strip machine = (strip bare_machine)\<lparr>idt := i\<rparr>" "vmem machine = vmem (pushes (rev waiting_frame) (bare_machine\<lparr>esp := 0x7FBED4\<rparr>))"
    "context_of machine = (context_of bare_machine)\<lparr>c_esp := 0x83FFFC0, c_ebp := 0x83FFFE0, c_flags := flags machine\<rparr>"
proof -
  let ?m = "(pushes (rev waiting_frame) (bare_machine\<lparr>esp := 0x7FBED4\<rparr>))\<lparr>esp := 0x83FFFC0, ebp := 0x83FFFE0, int_flag := True\<rparr>"
  obtain i where m: "machine = ?m\<lparr>idt := i\<rparr>" using setup_IDT_only unfolding machine_def by blast
  have "strip machine = (strip bare_machine)\<lparr>idt := i\<rparr>" unfolding m strip_idt by simp
  moreover have "vmem (?m\<lparr>idt := i\<rparr>) = vmem ?m" 
    by (simp add: vmem_def remap_def user_mapped_def)
  then have "vmem machine = vmem (pushes (rev waiting_frame) (bare_machine\<lparr>esp := 0x7FBED4\<rparr>))" unfolding m by simp
  moreover have "context_of machine = (context_of bare_machine)\<lparr>c_esp := 0x83FFFC0, c_ebp := 0x83FFFE0, c_flags := flags machine\<rparr>"
    unfolding context_of_def m by simp
  ultimately show ?thesis by (rule that)
qed

lemma machine_fields:
  "pcbs machine = pcbs (system_state 1)" "pdt machine = pdt (system_state 1)" "cur_process machine = 1"
  "base_shell_booted_bitmask machine = 3" "tss_esp0 machine = 0x7F8000" "tss_ss0 machine = 0x18"
  "rtc_flag machine = (\<lambda>_. 1)" "rtc_freq machine = (\<lambda>_. 2)" "rtc_counter machine = (\<lambda>_. 5)" "tlb_fresh machine"
proof -
  obtain i where i: "strip machine = (strip bare_machine)\<lparr>idt := i\<rparr>" by (rule machine_same)
  have f: "f machine = f bare_machine" if "f (strip machine) = f machine" "f ((strip bare_machine)\<lparr>idt := i\<rparr>) = f bare_machine" for f :: "cpu \<Rightarrow> 'x"
    using that i by simp
  show "pcbs machine = pcbs (system_state 1)" "pdt machine = pdt (system_state 1)" "cur_process machine = 1"
  "base_shell_booted_bitmask machine = 3" "tss_esp0 machine = 0x7F8000" "tss_ss0 machine = 0x18"
  "rtc_flag machine = (\<lambda>_. 1)" "rtc_freq machine = (\<lambda>_. 2)" "rtc_counter machine = (\<lambda>_. 5)" "tlb_fresh machine"
    using f [of pcbs] f [of pdt] f [of cur_process] f [of base_shell_booted_bitmask] f [of tss_esp0] f [of tss_ss0]
      f [of rtc_flag] f [of rtc_freq] f [of rtc_counter] f [of tlb_fresh] 
    by (simp_all add: strip_def bare_fields system_fields system_tss)
qed

lemma machine_installed: "installed machine_code machine"
proof -
  have "decode_gate (desc_bytes zero_desc) = None" by (simp add: decode_gate_def desc_bytes_def zero_desc_def)
  moreover have "idt ((pushes (rev waiting_frame) (bare_machine\<lparr>esp := 0x7FBED4\<rparr>))\<lparr>esp := 0x83FFFC0, ebp := 0x83FFFE0, int_flag := True\<rparr>) v = zero_desc" for v
    by simp (simp add: bare_machine_def kernel.defs entry.defs cpu.defs)
  ultimately show ?thesis
    unfolding installed_def machine_def setup_IDT_gate by (simp split: option.split)
qed

lemma machine_stack: "stack_at (vmem machine) 0x7FBE80 waiting_frame"
proof -
  have "stack_at (vmem (pushes (rev waiting_frame) (bare_machine\<lparr>esp := 0x7FBED4\<rparr>)))
    (esp (bare_machine\<lparr>esp := 0x7FBED4\<rparr>) - 4 * of_nat (length (rev waiting_frame))) (rev (rev waiting_frame) @ [])"
    by (rule stack_pushes) (simp_all add: waiting_frame_def)
  moreover obtain i where "vmem machine = vmem (pushes (rev waiting_frame) (bare_machine\<lparr>esp := 0x7FBED4\<rparr>))"
    by (rule machine_same)
  ultimately show ?thesis by (simp add: waiting_frame_def)
qed

lemma machine_parked: "parked machine_code 2 0x7FBE80 waiting_context machine"
  using machine_stack by (simp add: parked_def handler_parked_def exc_parked_def stub_saved_def gate_saved_def gate_frame_def
    waiting_frame_def waiting_context_def pcb_at_numerals)

lemma machine_tasks: "tasks machine_code system_threads (\<lambda>_. waiting_context) machine"
proof -
  have "context_of machine = (context_of bare_machine)\<lparr>c_esp := 0x83FFFC0, c_ebp := 0x83FFFE0, c_flags := flags machine\<rparr>"
    by (rule machine_same)
  then have "ctx_ok 4 (context_of machine)" by (simp add: ctx_ok_def) (simp add: context_of_def bare_fields)
  moreover have "ctx_ok 2 waiting_context" by (simp add: ctx_ok_def waiting_context_def)
  moreover have "sched_inv system_threads (enter_kernel 4 machine)"
    by (rule sched_inv_same [OF system_inv(1)])
     (simp_all add: enter_kernel_def machine_fields current_pcb_addr_def system_fields system_tss, simp add: system_state_def)
  ultimately show ?thesis
    using machine_sites machine_installed machine_parked
    by (simp add: tasks_def machine_fields waiting_def system_threads_def system_pcbs pcb_at_numerals booted_terminal_def)
     (simp add: system_pcb_def)
qed

text \<open>The same machine about to call \<open>execute\<close> with the command at 0x500000.\<close>

definition machine_params :: "cpu call_params" where
  "machine_params = \<lparr>p_execute = system_locals, p_new_page = 0, p_wait = (\<lambda>d s. Some s), p_prev = 0, p_vidmem = 0,
     p_vidmem_pt = 0\<rparr>"

definition calling_machine :: cpu where
  "calling_machine = machine\<lparr>eax := 2, ebx := 0x500000\<rparr>"

lemma machine_outside:
  assumes "apart 0x7FBE80 84 a n" "n \<le> 4294967296"
  shows "bytes (vmem machine) a n = bytes system_image a n"
proof -
  obtain "vmem machine = vmem (pushes (rev waiting_frame) (bare_machine\<lparr>esp := 0x7FBED4\<rparr>))"
    by (rule machine_same)
  moreover have "bytes (vmem (pushes (rev waiting_frame) (bare_machine\<lparr>esp := 0x7FBED4\<rparr>))) a n =
      bytes (vmem (bare_machine\<lparr>esp := 0x7FBED4\<rparr>)) a n"
    by (rule pushes_outside) (use assms in \<open>simp_all add: waiting_frame_def\<close>)
  ultimately show ?thesis by (simp add: bare_vmem)
qed

end
