(* ===== verification/SwitchProps.thy ===== *)
theory SwitchProps imports ExampleMachine begin

text \<open>
  The properties of interrupts and of the table they go through: what the table holds, what the clock and
  the timer do to the interrupted program, and that no terminal's program sees the others run.
\<close>

section \<open>The user page of the running program\<close>

lemma user_page_view:
  assumes "running st p" "drop_bit 22 a = 32"
  shows "vmem st a = user_page p (phys st) a"
  using assms by (simp add: vmem_def remap_def user_page_def running_def Let_def)

lemma task_user_page:
  assumes "tasks c threads ctxs st" "drop_bit 22 a = 32"
  shows "vmem st a = user_page (last (threads (cur_process st))) (phys st) a"
proof -
  have "running (enter_kernel 4 st) (last (threads (cur_process st)))"
    using assms(1) by (simp add: tasks_def sched_inv_def enter_kernel_def)
  from user_page_view [OF this assms(2)] show ?thesis
    by (simp add: enter_kernel_def vmem_def remap_def user_mapped_def)
qed

lemma resume_when_back:
  assumes "multitasking c threads st" "multitasking c threads st'" "task_view threads t st' = task_view threads t st"
    "cur_process st = t" "cur_process st' = t"
  shows "context_of st' = context_of st \<and> (\<forall>a. drop_bit 22 a = 32 \<longrightarrow> vmem st' a = vmem st a)"
proof -
  obtain ctxs ctxs' where "tasks c threads ctxs st" "tasks c threads ctxs' st'"
    using assms(1,2) by (auto simp: multitasking_def)
  note v = this [THEN task_user_page]
  show ?thesis
    using assms(3-5) by (auto simp: task_view_def task_context_def v)
qed

section \<open>Properties\<close>

text \<open>C10: \<open>setup_IDT\<close> fills the table as the hardware and the handlers expect it, whatever the table and
  its local entry held: the eight bytes at each of the 23 exception and interrupt vectors are a present
  interrupt gate of kernel code and privilege 0 that leads to the routine of that vector, which pushes
  just that vector for \<open>exc_handler\<close>; vector 0x80 is a trap gate that user code can call and leads to
  \<open>system_call_linkage\<close>.\<close>

theorem interrupt_table:
  "list_all (\<lambda>(s, v). decode_gate (desc_bytes (idt (setup_IDT lk e st) v)) =
      Some \<lparr>g_offset = lk s, g_selector = 0x10, g_type = 0xE, g_dpl = 0\<rparr> \<and> fst (linkage_params s) = of_nat v)
     interrupt_gates \<and>
   decode_gate (desc_bytes (idt (setup_IDT lk e st) 0x80)) =
     Some \<lparr>g_offset = lk system_call_linkage, g_selector = 0x10, g_type = 0xF, g_dpl = 3\<rparr>"
proof -
  have "decode_gate (desc_bytes (idt (setup_IDT lk e st) v)) =
      Some \<lparr>g_offset = lk s, g_selector = 0x10, g_type = 0xE, g_dpl = 0\<rparr> \<and> fst (linkage_params s) = of_nat v"
    if "(s, v) \<in> set interrupt_gates" for s v
    unfolding setup_IDT_gate
    using find_gate [OF that] interrupt_gates_props(3) [OF that] by (simp add: gate_table_def)
  moreover have "decode_gate (desc_bytes (idt (setup_IDT lk e st) 0x80)) =
     Some \<lparr>g_offset = lk system_call_linkage, g_selector = 0x10, g_type = 0xF, g_dpl = 3\<rparr>"
    by (simp add: setup_IDT_gate gate_table_def)
  ultimately show ?thesis by (auto simp: list_all_iff)
qed

text \<open>C4: the timer switches programs without either noticing: under the invariant \<open>tasks\<close> its interrupt is
  handled and returns, the next booted terminal's program goes on with every register, the flags, the
  instruction and stack pointer it was interrupted with, the interrupted program's context is kept for
  its turn, the invariant holds again, and physical memory outside the kernel's 4 MB is untouched.\<close>

theorem timer_switches:
  assumes "tasks c threads ctxs st"
  shows "\<exists>st'. deliver c j l sc 0x20 [] st = Some (Inr st') \<and>
    cur_process st' = next_process (base_shell_booted_bitmask st) (cur_process st) \<and>
    context_of st' = (ctxs(cur_process st := context_of st)) (cur_process st') \<and>
    tasks c threads (ctxs(cur_process st := context_of st)) st' \<and>
    (\<forall>x. drop_bit 22 x \<noteq> 1 \<longrightarrow> phys st' x = phys st x)"
  using timer_tasks [OF assms, of j l sc] by metis

text \<open>C3: the terminals are separated.  In every run of timer interrupts, clock interrupts and stretches of
  user code, a terminal's program keeps its context and every byte of its page as long as each step is
  taken by another terminal's program or passes the processor; in particular, when it has the processor
  again it goes on where it was interrupted, with the registers and the page it had then.\<close>

theorem terminals_separated:
  assumes "multitasking c threads st" "terminal_task threads t st"
    and "(\<lambda>s s'. kernel_step c j l s s' \<and> (cur_process s \<noteq> t \<or> cur_process s' \<noteq> t))\<^sup>*\<^sup>* st st'"
  shows "multitasking c threads st' \<and> task_view threads t st' = task_view threads t st \<and>
    (cur_process st = t \<and> cur_process st' = t \<longrightarrow>
      context_of st' = context_of st \<and> (\<forall>a. drop_bit 22 a = 32 \<longrightarrow> vmem st' a = vmem st a))"
proof -
  have "terminals.away c j l t = (\<lambda>s s'. kernel_step c j l s s' \<and> (cur_process s \<noteq> t \<or> cur_process s' \<noteq> t))"
    by (simp add: fun_eq_iff terminals.away_def)
  then have "multitasking c threads st' \<and> terminal_task threads t st' \<and> task_view threads t st' = task_view threads t st"
    using assms by (intro terminals.view_away [where j = j and l = l]) simp_all
  then show ?thesis using resume_when_back [OF assms(1), of st' t] by simp
qed

text \<open>C34: the clock's interrupt is transparent: whatever code it interrupts, user code or kernel code with
  room on its stack, continues with every register and flag as before, memory differs only on the kernel
  stack, and the rest of the machine is what \<open>RTC_handler\<close> makes of it.\<close>

theorem clock_transparent:
  assumes "sites_ok c" "segments_ok st" "room_for p st" "installed c st" "RTC_handler st = Inr r"
  shows "\<exists>st'. deliver c j l sc 0x28 [] st = Some (Inr st') \<and> context_of st' = context_of st \<and>
    strip st' = strip r \<and> same_outside (pcb_at p) 8192 (vmem st) (vmem st')"
  using rtc_interrupt_returns [OF assms, of j l sc] by metis

text \<open>C35: a system call number outside 1 to 10 gives the program -1 in \<^verbatim>\<open>eax\<close> and nothing else: every
  other register and the flags come back, only the kernel stack is written, and no state of the kernel
  changes.\<close>

theorem bad_call_number:
  assumes "sites_ok c" "installed c st" "segments_ok st" "room_for p st" "eax st <s 1 \<or> 10 <s eax st"
  shows "\<exists>st'. deliver c j l sc 0x80 [] st = Some (Inr st') \<and>
    context_of st' = (context_of st)\<lparr>c_eax := - 1\<rparr> \<and> strip st' = strip st \<and>
    same_outside (pcb_at p) 8192 (vmem st) (vmem st')"
proof -
  obtain "strip (dispatch_state c st) = strip st" "same_outside (pcb_at p) 8192 (vmem st) (vmem (dispatch_state c st))"
    by (rule call_entered [OF assms(1,3,4)]) blast
  then show ?thesis using deliver_invalid [OF assms, of j l sc]
    by (intro exI [of _ "resume ((context_of st)\<lparr>c_eax := - 1\<rparr>) (dispatch_state c st)"]) (simp add: context_of_resume)
qed

text \<open>C20: the scheduler is fair.  In every run of timer interrupts, clock interrupts and stretches of user
  code between system calls that starts under the invariant and in which the timer ticks at least three times,
  every booted terminal gets the processor from one of the ticks, and its program goes on there with the context it was left in
  and with the page of the process on top of the terminal's stack.\<close>

theorem scheduler_fair:
  assumes "multitasking c threads (s 0)" "terminal_task threads t (s 0)"
    and "\<And>i. i < n \<Longrightarrow> kernel_step c j l (s i) (s (Suc i))"
    and "3 \<le> length (filter (\<lambda>i. timer_step c j l (s i) (s (Suc i))) [0..<n])"
  shows "\<exists>i<n. timer_step c j l (s i) (s (Suc i)) \<and> cur_process (s (Suc i)) = t \<and> multitasking c threads (s (Suc i)) \<and>
    context_of (s (Suc i)) = task_context threads t (s i) \<and>
    (\<forall>a. drop_bit 22 a = 32 \<longrightarrow> vmem (s (Suc i)) a = user_page (last (threads t)) (phys (s i)) a)"
proof -
  let ?b = "base_shell_booted_bitmask (s 0)" and ?c = "cur_process (s 0)"
  obtain ctxs0 where "tasks c threads ctxs0 (s 0)" using assms(1) by (auto simp: multitasking_def)
  then have "booted_terminal ?b ?c" by (rule kernel_side(9))
  note reach = next_process_reaches [OF this, of t]
  obtain k where k: "0 < k" "k \<le> 3" "t = (next_process ?b ^^ k) ?c"
  proof -
    have "t = (next_process ?b ^^ 1) ?c \<or> t = (next_process ?b ^^ 2) ?c \<or> t = (next_process ?b ^^ 3) ?c"
      using reach assms(2)
      by (simp add: terminal_task_def numeral_2_eq_2 numeral_3_eq_3)
    then show ?thesis using that [of 1] that [of 2] that [of 3] by auto
  qed
  have "k \<le> ticks (\<lambda>i. timer_step c j l (s i) (s (Suc i))) n" using k(2) assms(4) by (simp add: ticks_def)
  from schedule.turn_reached [where s = s and n = n and c = c and threads = threads and b = "?b", OF _ assms(3) k(1) this]
  obtain i where i: "i < n" "timer_step c j l (s i) (s (Suc i))" "multitasking c threads (s i)"
    "multitasking c threads (s (Suc i))" "cur_process (s (Suc i)) = t" "base_shell_booted_bitmask (s i) = ?b"
    using assms(1) k(3) by auto
  from i(3) obtain ctxs where tk: "tasks c threads ctxs (s i)" by (auto simp: multitasking_def)
  note t = timer_step_next [OF i(2) tk]
  have bt: "booted_terminal (base_shell_booted_bitmask (s i)) t" using assms(2) i(6) by (simp add: terminal_task_def)
  have "user_page (last (threads t)) (phys (s (Suc i))) = user_page (last (threads t)) (phys (s i))"
    by (rule user_page_frames) (use top_range [OF tk bt] t(4) in simp_all)
  then show ?thesis using i t(2) task_user_page [OF t(3)] by (intro exI [of _ i]) simp
qed

section \<open>Witnesses\<close>

lemma machine_program: "context_of machine = (context_of bare_machine)\<lparr>c_esp := 0x83FFFC0, c_ebp := 0x83FFFE0, c_flags := flags machine\<rparr>"
  by (rule machine_same)

lemma timer_switches_witness:
  "\<forall>j l. \<exists>st'. deliver machine_code j l 0 0x20 [] machine = Some (Inr st') \<and> cur_process st' = 2 \<and>
    context_of st' = waiting_context"
proof (intro allI)
  fix j and l :: "unit cpu_ext entry_ext kernel_scheme call_params"
  have "next_process 3 1 = 2" by (simp add: next_process_cases)
  then show "\<exists>st'. deliver machine_code j l 0 0x20 [] machine = Some (Inr st') \<and> cur_process st' = 2 \<and>
    context_of st' = waiting_context"
    using timer_switches [OF machine_tasks, of j l 0] by (auto simp: machine_fields)
qed

lemma two_turns:
  obtains st1 st2 where "deliver machine_code j l 0 0x20 [] machine = Some (Inr st1)" "cur_process st1 = 2"
    "deliver machine_code j l 0 0x20 [] st1 = Some (Inr st2)" "cur_process st2 = 1"
proof -
  obtain st1 where s1: "deliver machine_code j l 0 0x20 [] machine = Some (Inr st1)"
    "tasks machine_code system_threads ((\<lambda>_. waiting_context)(cur_process machine := context_of machine)) st1"
    "cur_process st1 = 2" "base_shell_booted_bitmask st1 = 3"
    by (rule timer_tasks [OF machine_tasks, of j l 0]) (simp add: machine_fields next_process_cases)
  show ?thesis
    by (rule timer_tasks [OF s1(2), of j l 0]) (use that s1 in \<open>simp add: next_process_cases\<close>)
qed

lemma terminals_separated_witness:
  "\<forall>j l. \<exists>st1 st2. deliver machine_code j l 0 0x20 [] machine = Some (Inr st1) \<and> cur_process st1 = 2 \<and>
    deliver machine_code j l 0 0x20 [] st1 = Some (Inr st2) \<and> cur_process st2 = 1 \<and>
    context_of st2 = context_of machine \<and> vmem st2 0x8048000 = vmem machine 0x8048000"
proof (intro allI)
  fix j and l :: "unit cpu_ext entry_ext kernel_scheme call_params"
  obtain st1 st2 where s: "deliver machine_code j l 0 0x20 [] machine = Some (Inr st1)" "cur_process st1 = 2"
    "deliver machine_code j l 0 0x20 [] st1 = Some (Inr st2)" "cur_process st2 = 1" by (rule two_turns)
  have "(\<lambda>s s'. kernel_step machine_code j l s s' \<and> (cur_process s \<noteq> 1 \<or> cur_process s' \<noteq> 1))\<^sup>*\<^sup>* machine st2"
    using s kernel_step.timer [OF s(1)] kernel_step.timer [OF s(3)]
    by (intro rtranclp.rtrancl_into_rtrancl [OF r_into_rtranclp, of _ machine st1]) simp_all
  moreover have "multitasking machine_code system_threads machine" using machine_tasks by (auto simp: multitasking_def)
  moreover have "terminal_task system_threads 1 machine" by (simp add: terminal_task_def booted_terminal_def)
  ultimately have "context_of st2 = context_of machine \<and> (\<forall>a. drop_bit 22 a = 32 \<longrightarrow> vmem st2 a = vmem machine a)"
    using terminals_separated [of machine_code system_threads machine 1 j l st2] s(4) by (simp add: machine_fields)
  then show "\<exists>st1 st2. deliver machine_code j l 0 0x20 [] machine = Some (Inr st1) \<and> cur_process st1 = 2 \<and>
    deliver machine_code j l 0 0x20 [] st1 = Some (Inr st2) \<and> cur_process st2 = 1 \<and>
    context_of st2 = context_of machine \<and> vmem st2 0x8048000 = vmem machine 0x8048000"
    using s by auto
qed

lemma scheduler_fair_witness:
  "\<forall>j l. \<exists>s :: nat \<Rightarrow> cpu. s 0 = machine \<and> (\<exists>i<3. timer_step machine_code j l (s i) (s (Suc i)) \<and>
    cur_process (s (Suc i)) = 2 \<and> context_of (s (Suc i)) = task_context system_threads 2 (s i))"
proof (intro allI)
  fix j and l :: "unit cpu_ext entry_ext kernel_scheme call_params"
  have m: "multitasking machine_code system_threads machine" using machine_tasks by (auto simp: multitasking_def)
  have nxt: "\<exists>st'. timer_step machine_code j l st st' \<and> multitasking machine_code system_threads st'"
    if mt: "multitasking machine_code system_threads st" for st :: cpu
  proof -
    obtain ctxs where tk: "tasks machine_code system_threads ctxs st" using mt by (auto simp: multitasking_def)
    obtain st' where "deliver machine_code j l 0 0x20 [] st = Some (Inr st')"
      "tasks machine_code system_threads (ctxs(cur_process st := context_of st)) st'"
      by (rule timer_tasks [OF tk, of j l 0]) (rule that, assumption+)
    then show ?thesis by (auto simp: multitasking_def intro: timer_step.intros)
  qed
  from m nxt obtain s1 where s1: "timer_step machine_code j l machine s1" "multitasking machine_code system_threads s1" by blast
  from nxt [OF s1(2)] obtain s2 where s2: "timer_step machine_code j l s1 s2" "multitasking machine_code system_threads s2" by blast
  from nxt [OF s2(2)] obtain s3 where s3: "timer_step machine_code j l s2 s3" by blast
  define s where "s = (\<lambda>i :: nat. if i = 0 then machine else if i = 1 then s1 else if i = 2 then s2 else s3 :: cpu)"
  have s0: "s 0 = machine" by (simp add: s_def)
  have st: "timer_step machine_code j l (s i) (s (Suc i))" if "i < 3" for i
  proof -
    have "i = 0 \<or> i = 1 \<or> i = 2" using that by arith
    then show ?thesis using s1(1) s2(1) s3 by (auto simp: s_def)
  qed
  have "kernel_step machine_code j l (s i) (s (Suc i))" if "i < 3" for i
    using st [OF that] by (auto simp: timer_step.simps intro: kernel_step.timer)
  moreover have "3 \<le> length (filter (\<lambda>i. timer_step machine_code j l (s i) (s (Suc i))) [0..<3])"
    using st by (simp add: upt_rec)
  moreover have "terminal_task system_threads 2 (s 0)"
    by (simp add: s_def terminal_task_def booted_terminal_def machine_fields)
  ultimately have "\<exists>i<3. timer_step machine_code j l (s i) (s (Suc i)) \<and> cur_process (s (Suc i)) = 2 \<and>
      context_of (s (Suc i)) = task_context system_threads 2 (s i)"
    using scheduler_fair [of machine_code system_threads s 2 3 j l] m s0 by metis
  then show "\<exists>s :: nat \<Rightarrow> cpu. s 0 = machine \<and> (\<exists>i<3. timer_step machine_code j l (s i) (s (Suc i)) \<and>
    cur_process (s (Suc i)) = 2 \<and> context_of (s (Suc i)) = task_context system_threads 2 (s i))"
    using s0 by blast
qed

lemma machine_side: "sites_ok machine_code" "segments_ok machine" "room_for 4 machine" "installed machine_code machine"
  using kernel_side(3,4) [OF machine_tasks] by (simp_all add: machine_sites machine_installed machine_fields system_threads_def)

lemma clock_transparent_witness:
  "\<forall>j l. \<exists>st'. deliver machine_code j l 0 0x28 [] machine = Some (Inr st') \<and> context_of st' = context_of machine \<and>
    vmem st' 0x8048000 = vmem machine 0x8048000"
proof (intro allI)
  fix j and l :: "unit cpu_ext entry_ext kernel_scheme call_params"
  obtain r where "RTC_handler machine = Inr r"
    by (simp add: RTC_handler_def get_current_process_def machine_fields processes_active_def upt_rec Let_def)
  from clock_transparent [OF machine_side this, of j l 0] show "\<exists>st'. deliver machine_code j l 0 0x28 [] machine = Some (Inr st') \<and>
    context_of st' = context_of machine \<and> vmem st' 0x8048000 = vmem machine 0x8048000"
    by (auto simp: same_outside_def inside_def pcb_at_numerals)
qed

lemma bad_call_number_witness:
  "\<forall>j l. \<exists>st'. deliver machine_code j l 0 0x80 [] machine = Some (Inr st') \<and> c_eax (context_of st') = - 1 \<and>
    c_ebx (context_of st') = 2"
proof (intro allI)
  fix j and l :: "unit cpu_ext entry_ext kernel_scheme call_params"
  have c: "eax machine = 11" "ebx machine = 2"
    using arg_cong [OF machine_program, of c_eax] arg_cong [OF machine_program, of c_ebx]
    by (simp_all add: context_of_def bare_machine_def kernel.defs entry.defs cpu.defs)
  then show "\<exists>st'. deliver machine_code j l 0 0x80 [] machine = Some (Inr st') \<and> c_eax (context_of st') = - 1 \<and>
    c_ebx (context_of st') = 2"
    using bad_call_number [OF machine_side(1,4,2,3), of j l 0]
    by (auto simp: context_of_def word_sless_alt)
qed

end
