(* ===== verification/CallProps.thy ===== *)
theory CallProps imports SwitchProps ProcessProps begin

text \<open>
  \<open>execute\<close> and \<open>halt\<close> as the programs see them: system calls made by \<open>int 0x80\<close> in user mode, through the
  table, the linkage and the dispatcher, into the new program and back into the caller.
\<close>

section \<open>A user program and the state its system calls start in\<close>

definition user_running :: "code \<Rightarrow> (int \<Rightarrow> int list) \<Rightarrow> 'a cpu_scheme \<Rightarrow> bool" where
  "user_running c threads st \<longleftrightarrow> sites_ok c \<and> installed c st \<and> tss_ss0 st = 0x18 \<and> user_mode st \<and>
     proc_inv threads (enter_kernel 4 st)"

lemma strip_table:
  assumes "strip st' = strip st"
  shows "active_processes st' = active_processes st" "aux_processes st' = aux_processes st"
    "base_shell_live_bitmask st' = base_shell_live_bitmask st" "shell_init_boot st' = shell_init_boot st"
  using arg_cong [OF assms, of active_processes] arg_cong [OF assms, of aux_processes]
    arg_cong [OF assms, of base_shell_live_bitmask] arg_cong [OF assms, of shell_init_boot]
  by (simp_all add: strip_def)

lemma proc_inv_same:
  assumes "proc_inv threads st" "current_pcb_addr st' = current_pcb_addr st"
    and "pcbs st' = pcbs st" "pdt st' = pdt st" "cur_process st' = cur_process st"
    "base_shell_booted_bitmask st' = base_shell_booted_bitmask st" "tss_esp0 st' = tss_esp0 st"
    "active_processes st' = active_processes st" "aux_processes st' = aux_processes st"
    "base_shell_live_bitmask st' = base_shell_live_bitmask st" "shell_init_boot st' = shell_init_boot st"
  shows "proc_inv threads st'"
  using assms by (simp add: proc_inv_def running_def user_mapped_def table_ok_def)

lemma enter_kernel_fields [simp]:
  "pcbs (enter_kernel n st) = pcbs st" "pdt (enter_kernel n st) = pdt st"
  "cur_process (enter_kernel n st) = cur_process st"
  "base_shell_booted_bitmask (enter_kernel n st) = base_shell_booted_bitmask st"
  "tss_esp0 (enter_kernel n st) = tss_esp0 st" "active_processes (enter_kernel n st) = active_processes st"
  "aux_processes (enter_kernel n st) = aux_processes st"
  "base_shell_live_bitmask (enter_kernel n st) = base_shell_live_bitmask st"
  "shell_init_boot (enter_kernel n st) = shell_init_boot st"
  by (simp_all add: enter_kernel_def)

lemma caller:
  assumes "user_running c threads st"
  defines "p \<equiv> last (threads (cur_process st))"
  shows "sites_ok c" "installed c st" "segments_ok st" "1 \<le> p" "p \<le> 6" "room_for p st"
    "proc_inv threads (call_state c st)"
proof -
  have a: "sites_ok c" "installed c st" "tss_ss0 st = 0x18" "cs_reg st AND 3 \<noteq> 0" "proc_inv threads (enter_kernel 4 st)"
    using assms(1) by (simp_all add: user_running_def user_mode_def)
  note i = proc_inv_parts(4,6,7,8) [OF a(5), unfolded enter_kernel_fields, folded p_def]
  show "sites_ok c" "installed c st" "segments_ok st" "1 \<le> p" "p \<le> 6"
    using a i by (simp_all add: segments_ok_def)
  show r: "room_for p st" using a(4) i(1) by (simp add: room_for_def kstack_def running_def stack_top)
  obtain d where e: "strip (call_state c st) = strip st" "room (pcb_at p) d st (call_state c st)" "0 < d" "d < 8192"
    by (rule call_entered [OF a(1) \<open>segments_ok st\<close> r]) blast
  have "current_pcb_addr (call_state c st) = current_pcb_addr (enter_kernel 4 st)"
    using e on_stack [OF i(2,3), of d] i(4) by (simp add: current_pcb_addr_def room_def)
  then show "proc_inv threads (call_state c st)"
    using strip_fields [OF e(1)] strip_table [OF e(1)] by (intro proc_inv_same [OF a(5)]) simp_all
qed

lemma more_cpu:
  fixes st st' :: "'a cpu_scheme"
  assumes "kernel.more st' = kernel.more st"
  shows "ss_reg st' = ss_reg st" "idt st' = idt st"
  using assms by (cases st, cases st', simp)+



section \<open>\<open>halt\<close>\<close>




section \<open>What \<open>execute\<close> needs, before the call\<close>









section \<open>\<open>execute\<close>\<close>


section \<open>Properties\<close>


text \<open>C9: every other system call comes back to its caller: when the function the number selects returns
  through its own frame, having left alone the words below which it was called, the program goes on with
  the result in \<^verbatim>\<open>eax\<close> and all other registers and flags as they were; and the function gets \<^verbatim>\<open>ebx\<close>, \<^verbatim>\<open>ecx\<close>
  and \<^verbatim>\<open>edx\<close> as its arguments.\<close>

theorem system_call_returns_result:
  assumes "user_running c threads st" "eax st = of_nat n" "1 \<le> n" "n \<le> 10"
    and "jump_table l n (ebx st) (ecx st) (edx st) (call_state c st) = Inr (st3, Sys_return v)"
    and "esp st3 = ebp (call_state c st)" "kernel.more st3 = kernel.more (call_state c st)"
    and "bytes (vmem st3) (ebp (call_state c st)) 88 = bytes (vmem (call_state c st)) (ebp (call_state c st)) 88"
  shows "\<exists>st'. deliver c j l sc 0x80 [] st = Some (Inr st') \<and>
    context_of st' = (context_of st)\<lparr>c_eax := of_int v\<rparr> \<and> vmem st' = vmem st3 \<and> pcbs st' = pcbs st3"
proof -
  note k = caller [OF assms(1)]
  obtain e: "ss_reg (call_state c st) = 0x18" "call_saved c (ebp (call_state c st)) (context_of st) (call_state c st)"
    by (rule call_entered [OF k(1,3,6)]) blast
  have n: "unat (eax st) = n" "\<not> (eax st <s 1 \<or> 10 <s eax st)"
    using assms(2-4) by (simp_all add: word_sless_alt signed_of_nat signed_take_bit_int_eq_self)
  have "call_saved c (esp st3) (context_of st) st3" using e(2) call_saved_cong [OF assms(8)] assms(6) by simp
  from deliver_valid [OF k(1,2,3,6) n(2) assms(5) [folded n(1)] this] more_cpu(1) [OF assms(7)] e(1)
  show ?thesis by (intro exI [of _ "resume ((context_of st)\<lparr>c_eax := of_int v\<rparr>) st3"]) (simp add: context_of_resume)
qed

section \<open>Witnesses\<close>

lemma user_running_regs:
  "user_running c threads (st\<lparr>eax := a, ebx := b\<rparr>) = user_running c threads st"
  "bytes (vmem (st\<lparr>eax := a, ebx := b\<rparr>)) x n = bytes (vmem st) x n"
proof -
  have e: "enter_kernel 4 (st\<lparr>eax := a, ebx := b\<rparr>) = (enter_kernel 4 st)\<lparr>eax := a, ebx := b\<rparr>"
    by (simp add: enter_kernel_def)
  have "proc_inv threads (s\<lparr>eax := a, ebx := b\<rparr>) = proc_inv threads (s :: 'a cpu_scheme)" for s
    by (simp add: proc_inv_def running_def user_mapped_def table_ok_def current_pcb_addr_def)
  then show "user_running c threads (st\<lparr>eax := a, ebx := b\<rparr>) = user_running c threads st"
    by (simp add: user_running_def installed_def user_mode_def e)
qed simp

lemma machine_running: "user_running machine_code system_threads machine"
proof -
  obtain i where i: "strip machine = (strip bare_machine)\<lparr>idt := i\<rparr>" by (rule machine_same)
  have t: "active_processes machine = active_processes (system_state 1)" "aux_processes machine = aux_processes (system_state 1)"
    "base_shell_live_bitmask machine = base_shell_live_bitmask (system_state 1)" "shell_init_boot machine = shell_init_boot (system_state 1)"
    using arg_cong [OF i, of active_processes] arg_cong [OF i, of aux_processes] arg_cong [OF i, of base_shell_live_bitmask]
      arg_cong [OF i, of shell_init_boot] by (simp_all add: strip_def bare_machine_def kernel.defs entry.defs cpu.defs)
  have "proc_inv system_threads (enter_kernel 4 machine)"
    by (rule proc_inv_same [OF system_proc_inv])
     (simp_all add: t machine_fields current_pcb_addr_def system_fields system_tss, simp add: system_state_def enter_kernel_def machine_fields)
  moreover have "user_mode machine"
    using arg_cong [OF machine_program, of c_cs] by (simp add: user_mode_def context_of_def bare_fields)
  ultimately show ?thesis by (simp add: user_running_def machine_sites machine_installed machine_fields)
qed



lemma system_call_returns_result_witness:
  "\<forall>j. \<exists>st'. deliver machine_code j machine_params 0 0x80 [] (machine\<lparr>eax := 6, ebx := 9\<rparr>) = Some (Inr st') \<and>
    context_of st' = (context_of (machine\<lparr>eax := 6, ebx := 9\<rparr>))\<lparr>c_eax := - 1\<rparr>"
proof
  fix j
  let ?m = "machine\<lparr>eax := 6, ebx := 9\<rparr>" and ?cs = "call_state machine_code (machine\<lparr>eax := 6, ebx := 9\<rparr>)"
  have "user_running machine_code system_threads ?m" by (simp add: user_running_regs machine_running)
  moreover have "jump_table machine_params 6 (ebx ?m) (ecx ?m) (edx ?m) ?cs = Inr (?cs\<lparr>esp := ebp ?cs\<rparr>, Sys_return (- 1))"
    by (simp add: jump_table_def close_def sys_return_def)
  ultimately show "\<exists>st'. deliver machine_code j machine_params 0 0x80 [] ?m = Some (Inr st') \<and>
      context_of st' = (context_of ?m)\<lparr>c_eax := - 1\<rparr>"
    using system_call_returns_result [of machine_code system_threads ?m 6 machine_params "?cs\<lparr>esp := ebp ?cs\<rparr>" "- 1" j 0]
    by auto
qed

end
