(* ===== verification/Printf.thy ===== *)
theory Printf imports Screen begin

text \<open>
  What \<open>puts\<close> and \<open>printf\<close> print: the text a format stands for, and that the loops over the format
  and the conversions through the local buffer return and print exactly this text.
\<close>

section \<open>Characters of one terminal\<close>

text \<open>Program output goes to the page and the cursor of terminal \<open>p\<close>, which is on the display or not.\<close>

definition output_ok :: "int \<Rightarrow> bool \<Rightarrow> 'a console_scheme \<Rightarrow> bool" where
  "output_ok p shown st \<longleftrightarrow> cur_process_local st = Inr p \<and> 1 \<le> p \<and> p \<le> 3 \<and> on_screen (p - 1) st \<and>
     (shown \<longleftrightarrow> cur_terminal st = p)"

definition display :: "int \<Rightarrow> bool \<Rightarrow> u8 \<Rightarrow> 'a console_scheme \<Rightarrow> 'a console_scheme" where
  "display p shown = put_on (page_base shown p) (p - 1) shown"

lemma display_same_kernel: "same_kernel st (display p sh c st)"
  by (simp add: display_def put_on_same_kernel)

lemma display_fold_same_kernel: "same_kernel st (fold (display p sh) cs st)"
  by (induction cs arbitrary: st) (auto intro: same_kernel_trans display_same_kernel)

lemma putc_display: "output_ok p sh st \<Longrightarrow> putc c 0 st = Inr (display p sh c st)"
  by (simp add: output_ok_def putc_def display_def page_base_def)

lemma output_ok_display: "output_ok p sh st \<Longrightarrow> output_ok p sh (display p sh c st)"
  using same_kernel_eqs(3) [OF display_same_kernel [of st p sh c]]
    cur_process_local_same [OF display_same_kernel [of st p sh c]]
  by (simp add: output_ok_def display_def put_on_screen)

lemma output_ok_fold: "output_ok p sh st \<Longrightarrow> output_ok p sh (fold (display p sh) cs st)"
  by (induction cs arbitrary: st) (simp_all add: output_ok_display)

lemma putc_all_display: "output_ok p sh st \<Longrightarrow> putc_all cs 0 st = Inr (fold (display p sh) cs st)"
  by (induction cs arbitrary: st) (simp_all add: putc_display output_ok_display)

lemma output_ok_set_vmem [simp]: "output_ok p sh (set_vmem m st) = output_ok p sh st"
  by (simp add: output_ok_def cur_process_local_def on_screen_def current_pcb_addr_def)

lemma display_outside:
  "output_ok p sh st \<Longrightarrow> \<not> inside (page_base sh p) 4000 a \<Longrightarrow> vmem (display p sh c st) a = vmem st a"
  by (simp add: display_def output_ok_def put_on_outside)

lemma display_fold_outside:
  "output_ok p sh st \<Longrightarrow> \<not> inside (page_base sh p) 4000 a \<Longrightarrow> vmem (fold (display p sh) cs st) a = vmem st a"
  by (induction cs arbitrary: st) (simp_all add: output_ok_display display_outside)

section \<open>States that differ in a buffer\<close>

definition agrees :: "addr \<Rightarrow> nat \<Rightarrow> 'a vmm_scheme \<Rightarrow> 'a vmm_scheme \<Rightarrow> bool" where
  "agrees b n s t \<longleftrightarrow> t = set_vmem (vmem t) s \<and> (\<forall>a. \<not> inside b n a \<longrightarrow> vmem t a = vmem s a)"

lemma agrees_refl [simp]: "agrees b n s s"
  by (simp add: agrees_def paged.set_view_same)

lemma agrees_write: "(\<And>a. \<not> inside b n a \<Longrightarrow> m a = vmem s a) \<Longrightarrow> agrees b n s (set_vmem m s)"
  by (simp add: agrees_def)

lemma agrees_trans:
  assumes "agrees b n s t" "agrees b n t u"
  shows "agrees b n s u"
proof -
  have "t = set_vmem (vmem t) s" "u = set_vmem (vmem u) t" using assms by (simp_all add: agrees_def)
  then have "u = set_vmem (vmem u) s" by (metis paged.set_set)
  then show ?thesis using assms by (simp add: agrees_def)
qed

lemma set_vmem_commutes:
  "outb d q (set_vmem m st) = set_vmem m (outb d q st)"
  "(set_vmem m st')\<lparr>screen_x := f\<rparr> = set_vmem m (st'\<lparr>screen_x := f\<rparr>)"
  "(set_vmem m st')\<lparr>screen_y := f\<rparr> = set_vmem m (st'\<lparr>screen_y := f\<rparr>)"
  by (simp_all add: outb_def set_vmem_def remap_def user_mapped_def)

lemma update_cursor_set_vmem: "update_cursor x y (set_vmem m st) = set_vmem m (update_cursor x y st)"
  by (simp only: update_cursor_def Let_def set_vmem_commutes)

lemma set_vmem_if: "(if b then set_vmem m st else set_vmem m' st') = set_vmem (if b then m else m') (if b then st else st')"
  by simp

lemma update_cursor_screen: "screen_x (update_cursor x y st) = screen_x st" "screen_y (update_cursor x y st) = screen_y st"
  by (simp_all add: update_cursor_def Let_def outb_def)

lemma put_on_set_vmem:
  "put_on base i sh c (set_vmem m st) = set_vmem
     (if c = 10 \<or> c = 13 then if 25 \<le> screen_y st i + 1 then clear_last_line base (scroll_rows base m) else m
      else m(base + of_int ((80 * screen_y st i + screen_x st i) * 2) := c,
             base + of_int ((80 * screen_y st i + screen_x st i) * 2) + 1 := 7)) (put_on base i sh c st)"
proof (cases "c = 10 \<or> c = 13")
  case True
  then show ?thesis
    by (cases sh; cases "25 \<le> screen_y st i + 1")
      (simp_all add: put_on_def Let_def set_vmem_commutes update_cursor_set_vmem update_cursor_screen paged.set_set)
next
  case False
  then show ?thesis
    by (cases sh) (simp_all add: put_on_def Let_def set_vmem_commutes update_cursor_set_vmem update_cursor_screen paged.set_set)
qed

lemma scrolled_cong:
  assumes "bytes m (B + 160) 3840 = bytes m' (B + 160) 3840" "m a = m' a"
  shows "scrolled B m a = scrolled B m' a"
proof -
  have "write_bytes k B xs a = (if inside B (length xs) a then xs ! unat (a - B) else k a)"
    if "length xs = 4000" for k xs using that by (intro write_bytes_apply) simp
  moreover have "length (bytes k (B + 160) 3840 @ concat (replicate 80 [32, 7])) = 4000" for k
    by (simp only: length_append length_bytes length_blank_row)
  ultimately show ?thesis unfolding scrolled_def using assms by metis
qed

lemma display_agrees:
  assumes "agrees b n s t" "on_screen (p - 1) s" "apart (page_base sh p) 4000 b n"
  shows "agrees b n (display p sh c s) (display p sh c t)"
proof -
  let ?B = "page_base sh p" and ?m = "vmem t"
  have t: "t = set_vmem ?m s" and m: "\<And>a. \<not> inside b n a \<Longrightarrow> ?m a = vmem s a"
    using assms(1) by (simp_all add: agrees_def)
  let ?m' = "vmem (display p sh c t)"
  have eq: "display p sh c t = set_vmem ?m' (display p sh c s)"
    by (subst (1 2) t) (simp add: display_def put_on_set_vmem)
  have "bytes ?m (?B + 160) 3840 = bytes (vmem s) (?B + 160) 3840"
  proof (rule bytes_cong)
    fix i :: nat assume "i < 3840"
    then have "inside ?B 4000 (?B + of_nat (160 + i))" by (intro inside_offset) simp_all
    then show "?m (?B + 160 + of_nat i) = vmem s (?B + 160 + of_nat i)"
      using apart_not_inside [OF assms(3)] m by (simp add: algebra_simps)
  qed
  then have scroll: "scrolled ?B ?m a = scrolled ?B (vmem s) a" if "\<not> inside b n a" for a
    using scrolled_cong m [OF that] by blast
  have "?m' a = vmem (display p sh c s) a" if a: "\<not> inside b n a" for a
  proof (cases "c = 10 \<or> c = 13")
    case True
    have ot: "on_screen (p - 1) t" using assms(2) by (subst t) (simp add: on_screen_def)
    have "screen_y t = screen_y s" by (subst t) simp
    then show ?thesis
      using scroll [OF a] m [OF a] True assms(2) ot by (auto simp: display_def put_on_newline)
  next
    case False
    have ot: "on_screen (p - 1) t" using assms(2) by (subst t) (simp add: on_screen_def)
    have "screen_y t = screen_y s" "screen_x t = screen_x s" by (subst t, simp)+
    then show ?thesis using m [OF a] False assms(2) ot by (auto simp: display_def put_on_char)
  qed
  then show ?thesis using eq by (simp add: agrees_def)
qed

lemma display_fold_agrees:
  assumes "agrees b n s t" "output_ok p sh s" "apart (page_base sh p) 4000 b n"
  shows "agrees b n (fold (display p sh) cs s) (fold (display p sh) cs t)"
  using assms(1,2)
proof (induction cs arbitrary: s t)
  case (Cons c cs)
  have "agrees b n (display p sh c s) (display p sh c t)"
    using Cons.prems assms(3) by (intro display_agrees) (simp_all add: output_ok_def)
  then show ?case using Cons.IH Cons.prems(2) by (simp add: output_ok_display)
qed simp

lemma agrees_output_ok: "agrees b n s t \<Longrightarrow> output_ok p sh t = output_ok p sh s"
  by (metis agrees_def output_ok_set_vmem)

section \<open>Strings\<close>

lemma cstring_cong:
  assumes "cstring m s str" "\<And>a. inside s (Suc (length str)) a \<Longrightarrow> m' a = m a" "length str < 4294967295"
  shows "cstring m' s str"
proof -
  have same: "m' (s + of_nat i) = m (s + of_nat i)" if "i \<le> length str" for i
    using that assms(3) by (intro assms(2) inside_offset) simp_all
  have "bytes m' s (length str) = bytes m s (length str)" using same by (intro bytes_cong) simp
  then show ?thesis using assms(1) same [of "length str"] by (simp add: cstring_def)
qed

lemma cstring_Cons: "cstring m s (c # str) \<longleftrightarrow> m s = c \<and> c \<noteq> 0 \<and> cstring m (s + 1) str"
  by (auto simp: cstring_def bytes_Suc algebra_simps)

lemma cstring_Nil: "cstring m s [] \<longleftrightarrow> m s = 0"
  by (simp add: cstring_def)

lemma cstring_display:
  assumes "output_ok p sh st" "cstring (vmem st) s str" "apart (page_base sh p) 4000 s (Suc (length str))"
    "length str < 4294967295"
  shows "cstring (vmem (display p sh c st)) s str"
  using assms(2) _ assms(4)
proof (rule cstring_cong)
  fix a assume "inside s (Suc (length str)) a"
  then have "\<not> inside (page_base sh p) 4000 a" using apart_not_inside [OF apart_sym [OF assms(3)]] by blast
  then show "vmem (display p sh c st) a = vmem st a" by (rule display_outside [OF assms(1)])
qed

lemma apart_tail: "apart b n s (Suc (Suc k)) \<Longrightarrow> k < 4294967294 \<Longrightarrow> apart b n (s + 1) (Suc k)"
  using apart_sub_right [of b n s "Suc (Suc k)" 1 "Suc k"] by simp

lemma puts_loop_displays:
  assumes "output_ok p sh st" "cstring (vmem st) (s + i) str" "apart (page_base sh p) 4000 (s + i) (Suc (length str))"
    "length str < 4294967295"
  shows "puts_loop s i st = Some (Inr (fold (display p sh) str st, i + of_nat (length str)))"
  using assms
proof (induction str arbitrary: st i)
  case Nil
  then show ?case by (subst puts_loop.simps) (simp add: cstring_Nil)
next
  case (Cons c str)
  have tail: "cstring (vmem st) (s + (i + 1)) str" "vmem st (s + i) = c" "c \<noteq> 0"
    using Cons.prems(2) by (simp_all add: cstring_Cons add.assoc)
  have ap: "apart (page_base sh p) 4000 (s + (i + 1)) (Suc (length str))"
    using apart_tail [of "page_base sh p" 4000 "s + i" "length str"] Cons.prems(3,4) by (simp add: add.assoc)
  have "puts_loop s (i + 1) (display p sh c st) =
      Some (Inr (fold (display p sh) str (display p sh c st), i + 1 + of_nat (length str)))"
    using Cons.prems(1,4) tail ap by (intro Cons.IH output_ok_display cstring_display) simp_all
  then show ?case
    using putc_display [OF Cons.prems(1)] tail by (subst puts_loop.simps) (simp add: algebra_simps)
qed

lemma puts_displays:
  assumes "output_ok p sh st" "cstring (vmem st) s str" "apart (page_base sh p) 4000 s (Suc (length str))"
    "length str < 4294967295"
  shows "puts s st = Inr (fold (display p sh) str st, of_nat (length str))"
  using puts_loop_displays [of p sh st s 0 str] assms by (simp add: puts_def run_loop_def)

section \<open>The text of a format\<close>

definition numeral_text :: "nat \<Rightarrow> nat \<Rightarrow> u8 list" where
  "numeral_text r v = map ((!) itoa_lookup) (numeral_digits r v)"

lemma digits_length: "v < r ^ k \<Longrightarrow> length (digits_lsb r v) \<le> k"
proof (induction k arbitrary: v)
  case 0
  then show ?case by (simp add: digits_lsb.simps)
next
  case (Suc k)
  then have "v div r < r ^ k" by (simp add: less_mult_imp_div_less mult.commute)
  then show ?case using Suc.IH by (subst digits_lsb.simps) simp
qed

lemma numeral_text_length: "v < r ^ k \<Longrightarrow> 0 < k \<Longrightarrow> length (numeral_text r v) \<le> k"
  using digits_length [of v r k] by (simp add: numeral_text_def numeral_digits_def)

lemma numeral_text_nz: "2 \<le> r \<Longrightarrow> r \<le> 36 \<Longrightarrow> 0 \<notin> set (numeral_text r v)"
  using itoa_lookup_nz numeral_digits_less [of _ r v] by (fastforce simp: numeral_text_def)

text \<open>
  What one conversion prints, the rest of the arguments behind it, and what a format prints; \<open>alt\<close> says
  that a \<open>#\<close> was seen.  \<open>str\<close> gives the strings that \<open>%s\<close> may print.  A conversion without an argument
  and a format that ends inside a conversion stand for no text.
\<close>

definition word_text :: "bool \<Rightarrow> u8 \<Rightarrow> u32 \<Rightarrow> u8 list" where
  "word_text alt c v =
     (if c = 120 then let h = numeral_text 16 (unat v) in if alt then replicate (8 - length h) 48 @ h else h
      else if c = 117 then numeral_text 10 (unat v)
      else if sint v < 0 then 45 # numeral_text 10 (nat (- sint v)) else numeral_text 10 (nat (sint v)))"

definition converted ::
  "(addr \<Rightarrow> u8 list option) \<Rightarrow> bool \<Rightarrow> u8 \<Rightarrow> u32 list \<Rightarrow> (u8 list \<times> u32 list) option" where
  "converted str alt c vs =
     (if c = 37 then Some ([37], vs)
      else if c \<in> {120, 117, 100, 99, 115} then
        (case vs of
           [] \<Rightarrow> None
         | v # vs \<Rightarrow> map_option (\<lambda>t. (t, vs))
             (if c = 99 then Some [ucast v] else if c = 115 then str v else Some (word_text alt c v)))
      else Some ([], vs))"

primrec printed :: "(addr \<Rightarrow> u8 list option) \<Rightarrow> u8 list \<Rightarrow> bool option \<Rightarrow> u32 list \<Rightarrow> u8 list option" where
  "printed str [] mode vs = (if mode = None then Some [] else None)"
| "printed str (c # f) mode vs =
     (case mode of
        None \<Rightarrow> if c = 37 then printed str f (Some False) vs else map_option ((#) c) (printed str f None vs)
      | Some alt \<Rightarrow>
          if c = 35 then printed str f (Some True) vs
          else (case converted str alt c vs of
                  None \<Rightarrow> None
                | Some (t, vs) \<Rightarrow> map_option ((@) t) (printed str f None vs)))"

section \<open>Conversions\<close>

lemma write_in_buffer:
  assumes "\<not> inside b 64 a" "j + length xs \<le> 64"
  shows "write_bytes m (b + of_nat j) xs a = m a"
proof (rule write_bytes_outside)
  show "\<not> inside (b + of_nat j) (length xs) a"
  proof
    assume "inside (b + of_nat j) (length xs) a"
    then obtain i where "i < length xs" "a = b + of_nat j + of_nat i" by (rule inside_obtain)
    then have "inside b 64 a" using assms(2) inside_offset [of "j + i" 64 b] by (simp add: algebra_simps)
    then show False using assms(1) by simp
  qed
qed (use assms(2) in simp)

lemma cstring_append:
  "cstring m s (xs @ ys) \<longleftrightarrow> bytes m s (length xs) = xs \<and> 0 \<notin> set xs \<and> cstring m (s + of_nat (length xs)) ys"
  by (auto simp: cstring_def bytes_add algebra_simps)

text \<open>Printing from the buffer.\<close>

lemma puts_buffer:
  assumes "output_ok p sh st" "apart (page_base sh p) 4000 b 64"
    and "cstring m (b + of_nat j) txt" "j + Suc (length txt) \<le> 64" "\<And>a. \<not> inside b 64 a \<Longrightarrow> m a = vmem st a"
  shows "\<exists>t. puts (b + of_nat j) (set_vmem m st) = Inr (t, of_nat (length txt)) \<and>
    agrees b 64 (fold (display p sh) txt st) t"
proof -
  have "apart (page_base sh p) 4000 (b + of_nat j) (Suc (length txt))"
    using assms(2,4) by (intro apart_sub_right [of "page_base sh p" 4000 b 64]) simp_all
  then have "puts (b + of_nat j) (set_vmem m st) =
      Inr (fold (display p sh) txt (set_vmem m st), of_nat (length txt))"
    using assms(1,3,4) by (intro puts_displays) simp_all
  moreover have "agrees b 64 (fold (display p sh) txt st) (fold (display p sh) txt (set_vmem m st))"
    using assms by (intro display_fold_agrees agrees_write) simp_all
  ultimately show ?thesis by blast
qed

lemma itoa_st_text:
  "radix \<in> {10, 16} \<Longrightarrow>
    itoa_st v b radix st = Inr (set_vmem (write_bytes (vmem st) b (numeral_text (unat radix) (unat v) @ [0])) st)"
  unfolding itoa_st_def numeral_text_def by (subst itoa_bytes) auto

lemma numeral_text_16: "length (numeral_text 16 (unat (v :: u32))) \<le> 8"
  using numeral_text_length [of "unat v" 16 8] unat_u32_less [of v] by simp

lemma numeral_text_10: "n < 4294967296 \<Longrightarrow> length (numeral_text 10 n) \<le> 10"
  using numeral_text_length [of n 10 10] by simp

lemma puts_numeral:
  assumes "output_ok p sh st" "apart (page_base sh p) 4000 b 64" "n < 4294967296" "r \<in> {10, 16}"
    "\<And>a. \<not> inside b 64 a \<Longrightarrow> m a = vmem st a" "pre = [] \<or> pre = [c] \<and> m b = c" "0 \<notin> set pre"
  shows "\<exists>t. puts b (set_vmem (write_bytes m (b + of_nat (length pre)) (numeral_text r n @ [0])) st) =
      Inr (t, of_nat (length (pre @ numeral_text r n))) \<and>
    agrees b 64 (fold (display p sh) (pre @ numeral_text r n) st) t"
proof -
  let ?m = "write_bytes m (b + of_nat (length pre)) (numeral_text r n @ [0])"
  have len: "length (numeral_text r n) \<le> 10" "length pre \<le> 1"
    using numeral_text_10 [OF assms(3)] numeral_text_16 [of "of_nat n"] assms(3,4,6) by auto
  have num: "cstring ?m (b + of_nat (length pre)) (numeral_text r n)"
    using len numeral_text_nz [of r n] assms(4) by (intro cstring_write) auto
  have "bytes ?m b (length pre) = pre"
    using assms(6)
  proof
    assume pre: "pre = [c] \<and> m b = c"
    have "?m b = m b"
      by (rule write_bytes_outside) (use len pre in \<open>simp_all add: inside_def\<close>)
    then show ?thesis using pre by (simp add: bytes_Suc)
  qed simp
  then have "cstring ?m (b + of_nat 0) (pre @ numeral_text r n)"
    using num assms(7) by (simp add: cstring_append)
  moreover have "?m a = vmem st a" if "\<not> inside b 64 a" for a
    using write_in_buffer [OF that] len assms(5) [OF that] by simp
  ultimately show ?thesis
    using puts_buffer [OF assms(1,2), of ?m 0 "pre @ numeral_text r n"] len by simp
qed

lemma fold_fill: "fold (\<lambda>i m. m(b + of_nat i := x)) [k..<k + n] m = write_bytes m (b + of_nat k) (replicate n x)"
proof (induction n)
  case (Suc n)
  have "replicate (Suc n) x = replicate n x @ [x]" by (metis replicate_Suc replicate_append_same)
  then show ?case using Suc by (simp add: write_bytes_append add.assoc del: replicate.simps fun_upd_apply)
qed simp

text \<open>The alternate form fills the eight bytes before the digits with zeros.\<close>

lemma printf_hex_displays:
  assumes "output_ok p sh st" "apart (page_base sh p) 4000 b 64"
  shows "\<exists>t. printf_hex alt b v st = Inr t \<and> agrees b 64 (fold (display p sh) (word_text alt 120 v) st) t"
proof (cases alt)
  case False
  then show ?thesis
    using puts_numeral [OF assms, of "unat v" 16 "vmem st" "[]" 0] unat_u32_less [of v]
    by (auto simp: printf_hex_def word_text_def itoa_st_text)
next
  case True
  let ?h = "numeral_text 16 (unat v)"
  let ?m1 = "write_bytes (vmem st) (b + of_nat 8) (?h @ [0])"
  define n where "n = 8 - length ?h"
  let ?m2 = "write_bytes ?m1 (b + of_nat (length ?h)) (replicate n 48)"
  have h: "length ?h \<le> 8" "length ?h + n = 8" using numeral_text_16 [of v] by (simp_all add: n_def)
  have c1: "cstring ?m1 (b + of_nat 8) ?h" using h numeral_text_nz [of 16] by (intro cstring_write) auto
  then have len: "strlen ?m1 (b + 8) = Some (of_nat (length ?h))" using strlen_cstring by simp
  have fill: "fold (\<lambda>i m. m(b + of_nat i := 48)) [length ?h..<8] ?m1 = ?m2"
    using fold_fill [of b 48 "length ?h" n ?m1] h(2) by simp
  have "cstring ?m2 (b + of_nat 8) ?h"
    using c1
  proof (rule cstring_cong)
    fix a assume "inside (b + of_nat 8) (Suc (length ?h)) a"
    then obtain i where i: "i < Suc (length ?h)" "a = b + of_nat 8 + of_nat i" by (rule inside_obtain)
    then have "a - (b + of_nat (length ?h)) = of_nat (n + i)" using h(2) by (simp add: algebra_simps flip: h(2))
    then have "\<not> inside (b + of_nat (length ?h)) n a"
      using i h by (simp only: inside_def unat_of_nat_u32)
    then show "?m2 a = ?m1 a" using h by (intro write_bytes_outside) simp_all
  qed (use h in simp)
  moreover have "b + of_nat (length ?h) + of_nat n = b + of_nat 8" by (simp flip: h(2))
  moreover have "bytes ?m2 (b + of_nat (length ?h)) n = replicate n 48" using h by (intro bytes_write_same) simp_all
  ultimately have "cstring ?m2 (b + of_nat (length ?h)) (replicate n 48 @ ?h)"
    by (simp only: cstring_append length_replicate) simp
  moreover have "?m2 a = vmem st a" if "\<not> inside b 64 a" for a
    using write_in_buffer [OF that, of "length ?h" "replicate n 48"]
      write_in_buffer [OF that, of 8 "?h @ [0]"] h by simp
  ultimately obtain t where "puts (b + of_nat (length ?h)) (set_vmem ?m2 st) = Inr (t, of_nat (length (replicate n 48 @ ?h)))"
    "agrees b 64 (fold (display p sh) (replicate n 48 @ ?h) st) t"
    using puts_buffer [OF assms, of ?m2 "length ?h" "replicate n 48 @ ?h"] h by auto
  then show ?thesis
    using True len fill h
    by (simp add: printf_hex_def word_text_def itoa_st_text Let_def n_def paged.set_set)
qed

lemma printf_dec_displays:
  assumes "output_ok p sh st" "apart (page_base sh p) 4000 b 64"
  shows "\<exists>t. printf_dec b v st = Inr t \<and> agrees b 64 (fold (display p sh) (word_text alt 100 v) st) t"
proof (cases "sint v < 0")
  case True
  have r: "- 2147483648 \<le> sint v" using sint_greater_eq [of v] by simp
  have "- v = of_nat (nat (- sint v))" using True by (simp add: of_nat_nat)
  then have u: "unat (- v) = nat (- sint v)" using r True by (simp only: unat_of_nat_u32)
  have n: "nat (- sint v) < 4294967296" using r True by linarith
  have "\<not> inside b 64 a \<Longrightarrow> a \<noteq> b" for a by (auto simp: inside_def)
  then show ?thesis
    using puts_numeral [OF assms, of "nat (- sint v)" 10 "(vmem st)(b := 45)" "[45]" 45] n True
    by (auto simp: printf_dec_def word_text_def itoa_st_text u word_sless_alt paged.set_set)
next
  case False
  have r: "sint v < 2147483648" using sint_less [of v] by simp
  have n: "nat (sint v) < 4294967296" using r False by linarith
  have "of_nat (nat (sint v)) = v" using False by (simp add: of_nat_nat)
  moreover have "unat (of_nat (nat (sint v)) :: u32) = nat (sint v)" using r False by (intro unat_of_nat_u32) simp
  ultimately have u: "unat v = nat (sint v)" by simp
  show ?thesis
    using puts_numeral [OF assms, of "nat (sint v)" 10 "vmem st" "[]" 0] n False
    by (auto simp: printf_dec_def word_text_def itoa_st_text u word_sless_alt)
qed

section \<open>The format loop\<close>

text \<open>The strings \<open>%s\<close> may print are in memory, where neither the page nor the buffer overlaps them.\<close>

definition texts_ok :: "mem \<Rightarrow> addr \<Rightarrow> addr \<Rightarrow> (addr \<Rightarrow> u8 list option) \<Rightarrow> bool" where
  "texts_ok m page b str \<longleftrightarrow> (\<forall>v t. str v = Some t \<longrightarrow> cstring m v t \<and> length t < 4294967295 \<and>
     apart page 4000 v (Suc (length t)) \<and> apart b 64 v (Suc (length t)))"

lemma converted_displays:
  assumes "output_ok p sh st" "apart (page_base sh p) 4000 b 64" "texts_ok (vmem st) (page_base sh p) b str"
    and "converted str alt c vs = Some (out, vs')"
  shows "\<exists>t. printf_conv b c alt vs st = Inr (t, vs') \<and> agrees b 64 (fold (display p sh) out st) t"
proof -
  note d = printf_hex_displays [OF assms(1,2)] printf_dec_displays [OF assms(1,2)]
  consider "c = 37" | v where "vs = v # vs'" "c \<in> {120, 117, 100}" "out = word_text alt c v"
    | v where "vs = v # vs'" "c = 99" "out = [ucast v]" | v where "vs = v # vs'" "c = 115" "str v = Some out"
    | "c \<notin> {37, 120, 117, 100, 99, 115}"
    using assms(4) by (auto simp: converted_def split: list.splits if_splits)
  then show ?thesis
  proof cases
    case 1
    then show ?thesis using assms(4) putc_display [OF assms(1)] by (auto simp: printf_conv_def converted_def)
  next
    case 2
    then show ?thesis
      using d(1) [of alt v] d(2) [of v] puts_numeral [OF assms(1,2), of "unat v" 10 "vmem st" "[]" 0] unat_u32_less [of v]
      by (auto simp: printf_conv_def next_arg_def word_text_def itoa_st_text)
  next
    case 3
    then show ?thesis using putc_display [OF assms(1)] by (simp add: printf_conv_def next_arg_def)
  next
    case 4
    then have "cstring (vmem st) v out" "apart (page_base sh p) 4000 v (Suc (length out))" "length out < 4294967295"
      using assms(3) by (auto simp: texts_ok_def)
    then show ?thesis using 4 puts_displays [OF assms(1)] by (simp add: printf_conv_def next_arg_def)
  next
    case 5
    then show ?thesis using assms(4) by (simp add: printf_conv_def converted_def)
  qed
qed

lemma format_char_switch_skips:
  assumes "cstring m b f" "length f < 4294967295" "printed str f (Some alt) vs = Some out"
  shows "\<exists>k c f' alt' t vs' out'. format_char_switch m b alt = Some (b + of_nat k, alt') \<and> f = replicate k 35 @ c # f' \<and>
    c \<noteq> 35 \<and> converted str alt' c vs = Some (t, vs') \<and> printed str f' None vs' = Some out' \<and> out = t @ out'"
  using assms
proof (induction f arbitrary: b alt)
  case (Cons c f)
  have m: "m b = c" "cstring m (b + 1) f" using Cons.prems(1) by (simp_all add: cstring_Cons)
  show ?case
  proof (cases "c = 35")
    case True
    then have "printed str f (Some True) vs = Some out" using Cons.prems(3) by simp
    from Cons.IH [OF m(2) _ this] Cons.prems(2) obtain k d f' alt' t vs' out' where
      "format_char_switch m (b + 1) True = Some (b + 1 + of_nat k, alt')" "f = replicate k 35 @ d # f'" "d \<noteq> 35"
      "converted str alt' d vs = Some (t, vs')" "printed str f' None vs' = Some out'" "out = t @ out'" by auto
    then show ?thesis
      using True m(1) by (subst format_char_switch.simps) (auto intro!: exI [of _ "Suc k"] simp: algebra_simps)
  next
    case False
    then show ?thesis
      using Cons.prems(3) m(1)
      by (subst format_char_switch.simps) (auto split: option.splits intro!: exI [of _ "0 :: nat"])
  qed
qed simp

lemma texts_ok_cong:
  assumes "texts_ok m page b str" "\<And>a. \<not> inside page 4000 a \<Longrightarrow> \<not> inside b 64 a \<Longrightarrow> m' a = m a"
  shows "texts_ok m' page b str"
  unfolding texts_ok_def
proof (intro allI impI)
  fix v t assume t: "str v = Some t"
  then have ok: "cstring m v t" "length t < 4294967295" "apart page 4000 v (Suc (length t))" "apart b 64 v (Suc (length t))"
    using assms(1) by (auto simp: texts_ok_def)
  have "m' a = m a" if "inside v (Suc (length t)) a" for a
    using assms(2) apart_not_inside [OF apart_sym [OF ok(3)] that] apart_not_inside [OF apart_sym [OF ok(4)] that] by blast
  then show "cstring m' v t \<and> length t < 4294967295 \<and> apart page 4000 v (Suc (length t)) \<and> apart b 64 v (Suc (length t))"
    using cstring_cong [OF ok(1)] ok by blast
qed

text \<open>The format is such a string too: the loop is followed on a state that differs in the buffer.\<close>

lemma printf_loop_displays:
  assumes "printed str f None vs = Some out" "output_ok p sh st" "agrees b 64 st u"
    and "apart (page_base sh p) 4000 b 64" "texts_ok (vmem u) (page_base sh p) b (str(a \<mapsto> f))"
    and "texts_ok (vmem u) (page_base sh p) b str"
  shows "\<exists>t. printf_loop b a vs u = Some (Inr (t, a + of_nat (length f))) \<and>
    agrees b 64 (fold (display p sh) out st) t"
  using assms
proof (induction "length f" arbitrary: f vs out st u a rule: less_induct)
  case less
  have oku: "output_ok p sh u" using less.prems(2) agrees_output_ok [OF less.prems(3)] by simp
  have f: "cstring (vmem u) a f" "length f < 4294967295" "apart (page_base sh p) 4000 a (Suc (length f))"
      "apart b 64 a (Suc (length f))"
    using less.prems(5) [unfolded texts_ok_def, rule_format, of a f] by simp_all
  have step: "\<exists>t. printf_loop b (a + of_nat k) vs' u' = Some (Inr (t, a + of_nat (length f))) \<and>
      agrees b 64 (fold (display p sh) (pre @ out') st) t"
    if g: "length f = k + length g" "0 < k" "cstring (vmem u) (a + of_nat k) g" "printed str g None vs' = Some out'"
      and u': "agrees b 64 (fold (display p sh) pre u) u'" for k g vs' pre out' u'
  proof -
    have agr: "agrees b 64 (fold (display p sh) pre st) u'"
      using agrees_trans [OF display_fold_agrees [OF less.prems(3,2,4)] u'] .
    have mem: "vmem u' x = vmem u x" if "\<not> inside (page_base sh p) 4000 x" "\<not> inside b 64 x" for x
      using u' that display_fold_outside [OF oku that(1)] by (simp add: agrees_def)
    have "apart (page_base sh p) 4000 (a + of_nat k) (Suc (length g))" "apart b 64 (a + of_nat k) (Suc (length g))"
      using f g(1) by (auto intro: apart_sub_right)
    then have "texts_ok (vmem u) (page_base sh p) b (str(a + of_nat k \<mapsto> g))"
      using less.prems(6) g f(2) by (simp add: texts_ok_def)
    then have "texts_ok (vmem u') (page_base sh p) b (str(a + of_nat k \<mapsto> g))"
      "texts_ok (vmem u') (page_base sh p) b str"
      using mem less.prems(6) texts_ok_cong by blast+
    from less.hyps [OF _ g(4) output_ok_fold [OF less.prems(2)] agr less.prems(4) this] g(1,2)
    show ?thesis by (simp add: add.assoc)
  qed
  show ?case
  proof (cases f)
    case Nil
    then show ?thesis
      using less.prems(1,3) f(1) by (subst printf_loop.simps) (simp add: cstring_Nil)
  next
    case (Cons c g)
    have c: "vmem u a = c" "c \<noteq> 0" "cstring (vmem u) (a + 1) g" using f(1) Cons by (simp_all add: cstring_Cons)
    show ?thesis
    proof (cases "c = 37")
      case False
      then obtain out' where "printed str g None vs = Some out'" "out = c # out'" using less.prems(1) Cons by auto
      then show ?thesis
        using step [of 1 g vs out' "[c]" "display p sh c u"] False c Cons putc_display [OF oku]
        by (subst printf_loop.simps) (simp add: add.commute)
    next
      case True
      then have "printed str g (Some False) vs = Some out" using less.prems(1) Cons by simp
      from format_char_switch_skips [OF c(3) _ this] Cons f(2) obtain k d g' alt t vs' out' where
        sw: "format_char_switch (vmem u) (a + 1) False = Some (a + 1 + of_nat k, alt)" "g = replicate k 35 @ d # g'"
        "converted str alt d vs = Some (t, vs')" "printed str g' None vs' = Some out'" "out = t @ out'" by auto
      have d: "vmem u (a + 1 + of_nat k) = d" "cstring (vmem u) (a + of_nat (k + 2)) g'"
        using c(3) sw(2) by (simp_all add: cstring_append cstring_Cons algebra_simps)
      obtain u' where u': "printf_conv b d alt vs u = Inr (u', vs')" "agrees b 64 (fold (display p sh) t u) u'"
        using converted_displays [OF oku less.prems(4,6) sw(3)] by blast
      obtain s where s: "printf_loop b (a + of_nat (k + 2)) vs' u' = Some (Inr (s, a + of_nat (length f)))"
        "agrees b 64 (fold (display p sh) out st) s"
        using step [OF _ _ d(2) sw(4) u'(2)] Cons sw(2,5) by auto
      have "a + 1 + of_nat k + 1 = a + of_nat (k + 2)" by simp
      then have "printf_loop b (a + 1 + of_nat k + 1) vs' u' = Some (Inr (s, a + of_nat (length f)))"
        using s(1) by (simp only:)
      then show ?thesis
        using True c(1) sw(1) d(1) u'(1) s(2) by (subst printf_loop.simps) simp
    qed
  qed
qed

lemma printf_displays:
  assumes "printed str f None vs = Some out" "output_ok p sh st"
    and "apart (page_base sh p) 4000 b 64" "texts_ok (vmem st) (page_base sh p) b (str(a \<mapsto> f))"
    and "texts_ok (vmem st) (page_base sh p) b str"
  obtains t where "printf b a vs st = Inr (t, of_nat (length f))"
    "agrees b 64 (fold (display p sh) out st) t" "output_ok p sh t" "same_kernel st t"
    "\<And>x. \<not> inside (page_base sh p) 4000 x \<Longrightarrow> \<not> inside b 64 x \<Longrightarrow> vmem t x = vmem st x"
proof -
  obtain t where t: "printf_loop b a vs st = Some (Inr (t, a + of_nat (length f)))"
    "agrees b 64 (fold (display p sh) out st) t"
    using printf_loop_displays [OF assms(1,2) agrees_refl assms(3-5)] by blast
  have "same_kernel st t"
  proof (rule same_kernel_trans [OF display_fold_same_kernel [of st p sh out]])
    have eq: "t = set_vmem (vmem t) (fold (display p sh) out st)" using t(2) by (simp add: agrees_def)
    show "same_kernel (fold (display p sh) out st) t" by (subst eq) (intro same_kernel_steps same_kernel_refl)
  qed
  moreover have "vmem t x = vmem st x" if "\<not> inside (page_base sh p) 4000 x" "\<not> inside b 64 x" for x
    using t(2) that display_fold_outside [OF assms(2) that(1)] by (simp add: agrees_def)
  moreover have "output_ok p sh t" using agrees_output_ok [OF t(2)] output_ok_fold [OF assms(2)] by simp
  ultimately show thesis using t that by (simp add: printf_def run_loop_def)
qed

end
