(* ===== verification/Boot.thy ===== *)
theory Boot imports Printf Linkage begin

text \<open>
  The way from the boot loader to the first program: \<^verbatim>\<open>_start\<close> of \<^verbatim>\<open>src/src/boot.S\<close> and \<open>entry\<close> of
  \<^verbatim>\<open>src/src/kernel.c\<close>, with the report on the multiboot information (\<^verbatim>\<open>src/src/multiboot.h\<close>) and the descriptors
  of the LDT and the TSS (\<^verbatim>\<open>src/src/x86_desc.h\<close>, \<^verbatim>\<open>src/src/x86_desc.S\<close>).
\<close>

section \<open>Data\<close>

record seg_desc =
  seg_lim_15_00 :: u16
  base_15_00 :: u16
  base_23_16 :: u8
  seg_type :: "4 word"
  seg_sys :: "1 word"
  seg_dpl :: "2 word"
  seg_present :: "1 word"
  seg_lim_19_16 :: "4 word"
  seg_avail :: "1 word"
  seg_reserved :: "1 word"
  seg_opsize :: "1 word"
  seg_granularity :: "1 word"
  base_31_24 :: u8

text \<open>The two descriptors of the GDT that are filled at run time, the selector in the TSS and the two registers.\<close>

record boot = cpu +
  ldt_desc_ptr :: seg_desc
  tss_desc_ptr :: seg_desc
  tss_ldt_segment_selector :: u16
  ldtr :: u16
  tr :: u16

datatype boot_msg =
    Invalid_magic | Flags | Mem | Boot_device | Cmdline | Module_start | Module_end | First_bytes | Byte_value
  | Newline | Both_bits | Elf_sec | Mmap | Mmap_entry | Enabling

text \<open>The format strings of \<open>entry\<close>.\<close>

fun boot_text :: "boot_msg \<Rightarrow> u8 list" where
  "boot_text Invalid_magic = ascii ''Invalid magic number: 0x%#x'' @ [10]"
| "boot_text Flags = ascii ''flags = 0x%#x'' @ [10]"
| "boot_text Mem = ascii ''mem_lower = %uKB, mem_upper = %uKB'' @ [10]"
| "boot_text Boot_device = ascii ''boot_device = 0x%#x'' @ [10]"
| "boot_text Cmdline = ascii ''cmdline = %s'' @ [10]"
| "boot_text Module_start = ascii ''Module %d loaded at address: 0x%#x'' @ [10]"
| "boot_text Module_end = ascii ''Module %d ends at address: 0x%#x'' @ [10]"
| "boot_text First_bytes = ascii ''First few bytes of module:'' @ [10]"
| "boot_text Byte_value = ascii ''0x%x ''"
| "boot_text Newline = [10]"
| "boot_text Both_bits = ascii ''Both bits 4 and 5 are set.'' @ [10]"
| "boot_text Elf_sec = ascii ''elf_sec: num = %u, size = 0x%#x, addr = 0x%#x, shndx = 0x%#x'' @ [10]"
| "boot_text Mmap = ascii ''mmap_addr = 0x%#x, mmap_length = 0x%x'' @ [10]"
| "boot_text Mmap_entry = ascii ''    size = 0x%x, base_addr = 0x%#x%#x'' @ [10] @
     ascii ''    type = 0x%x,  length    = 0x%#x%#x'' @ [10]"
| "boot_text Enabling = ascii ''Enabling Interrupts'' @ [10]"

text \<open>
  What compiler, linker and hardware choose: the addresses of \<open>ldt\<close>, \<open>tss\<close>, of the literals and of the local
  buffer of \<open>printf\<close>; what uninitialised locals hold; the bytes read from the RTC and from the cursor's
  registers; the size of \<open>entry\<close>'s frame and the address behind its call.
\<close>

record boot_locals =
  at_ldt :: addr
  at_tss :: addr
  at_boot_buf :: addr
  at_msg :: "boot_msg \<Rightarrow> addr"
  at_shell_name :: addr
  junk_paging :: paging_locals
  junk_gate :: idt_desc
  junk_desc :: seg_desc
  rtc_register_b :: u8
  cursor_start :: u8
  cursor_end :: u8
  boot_execute :: execute_locals
  size_entry :: u32
  ret_start :: addr

section \<open>Reporting the multiboot information\<close>

definition say :: "boot_locals \<Rightarrow> boot_msg \<Rightarrow> u32 list \<Rightarrow> 'a console_scheme \<Rightarrow> 'a console_scheme res" where
  "say l msg vs st = andthen (printf (at_boot_buf l) (at_msg l msg) vs st) (\<lambda>(st, n). Inr st)"

definition say_if ::
  "bool \<Rightarrow> boot_locals \<Rightarrow> boot_msg \<Rightarrow> u32 list \<Rightarrow> 'a console_scheme \<Rightarrow> 'a console_scheme res" where
  "say_if b l msg vs st = (if b then say l msg vs st else Inr st)"

text \<open>The 16 bytes are passed as \<open>char\<close>, which is signed.\<close>

primrec module_bytes :: "boot_locals \<Rightarrow> addr \<Rightarrow> nat list \<Rightarrow> 'a console_scheme \<Rightarrow> 'a console_scheme res" where
  "module_bytes l md [] st = Inr st"
| "module_bytes l md (i # is) st =
     andthen (say l Byte_value [scast (vmem st (read32 (vmem st) md + of_nat i))] st) (module_bytes l md is)"

definition module_report :: "boot_locals \<Rightarrow> u32 \<Rightarrow> addr \<Rightarrow> 'a console_scheme \<Rightarrow> 'a console_scheme res" where
  "module_report l mod_count md st =
     andthen (say l Module_start [mod_count, read32 (vmem st) md] st) (\<lambda>st.
     andthen (say l Module_end [mod_count, read32 (vmem st) (md + 4)] st) (\<lambda>st.
     andthen (say l First_bytes [] st) (\<lambda>st.
     andthen (module_bytes l md [0..<16] st) (\<lambda>st. say l Newline [] st))))"

partial_function (option) modules_loop ::
  "boot_locals \<Rightarrow> addr \<Rightarrow> u32 \<Rightarrow> addr \<Rightarrow> 'a console_scheme \<Rightarrow> 'a console_scheme res option" where
  "modules_loop l mbi mod_count md st =
     (if mod_count < read32 (vmem st) (mbi + 20)
      then (case module_report l mod_count md st of
              Inl e \<Rightarrow> Some (Inl e)
            | Inr st' \<Rightarrow> modules_loop l mbi (mod_count + 1) (md + 16) st')
      else Some (Inr st))"

definition modules :: "boot_locals \<Rightarrow> addr \<Rightarrow> 'a console_scheme \<Rightarrow> 'a console_scheme res" where
  "modules l mbi st =
     (if bit (read32 (vmem st) mbi) 3
      then (let md = read32 (vmem st) (mbi + 24)
            in run_loop (modules_loop l mbi 0 md (fileSystem_init (read32 (vmem st) md) st)))
      else Inr st)"

partial_function (option) mmap_loop ::
  "boot_locals \<Rightarrow> addr \<Rightarrow> addr \<Rightarrow> 'a console_scheme \<Rightarrow> 'a console_scheme res option" where
  "mmap_loop l mbi mmap st =
     (if mmap < read32 (vmem st) (mbi + 48) + read32 (vmem st) (mbi + 44)
      then (let r = (\<lambda>i. read32 (vmem st) (mmap + i))
            in case say l Mmap_entry [r 0, r 8, r 4, r 20, r 16, r 12] st of
                 Inl e \<Rightarrow> Some (Inl e)
               | Inr st' \<Rightarrow> mmap_loop l mbi (mmap + read32 (vmem st') mmap + 4) st')
      else Some (Inr st))"

definition memory_map :: "boot_locals \<Rightarrow> addr \<Rightarrow> 'a console_scheme \<Rightarrow> 'a console_scheme res" where
  "memory_map l mbi st =
     (if bit (read32 (vmem st) mbi) 6
      then andthen (say l Mmap [read32 (vmem st) (mbi + 48), read32 (vmem st) (mbi + 44)] st) (\<lambda>st.
             run_loop (mmap_loop l mbi (read32 (vmem st) (mbi + 48)) st))
      else Inr st)"

text \<open>The first half of \<open>entry\<close>; the result says whether it goes on or returns.\<close>

definition report ::
  "boot_locals \<Rightarrow> u32 \<Rightarrow> addr \<Rightarrow> 'a console_scheme \<Rightarrow> ('a console_scheme \<times> bool) res" where
  "report l magic mbi st =
     andthen (clear st) (\<lambda>st.
       if magic \<noteq> 0x2BADB002 then andthen (say l Invalid_magic [magic] st) (\<lambda>st. Inr (st, False))
       else
         (let get = (\<lambda>st i. read32 (vmem st) (mbi + i)); flag = (\<lambda>st b. bit (get st 0) b) in
          andthen (say l Flags [get st 0] st) (\<lambda>st.
          andthen (say_if (flag st 0) l Mem [get st 4, get st 8] st) (\<lambda>st.
          andthen (say_if (flag st 1) l Boot_device [get st 12] st) (\<lambda>st.
          andthen (say_if (flag st 2) l Cmdline [get st 16] st) (\<lambda>st.
          andthen (modules l mbi st) (\<lambda>st.
            if flag st 4 \<and> flag st 5 then andthen (say l Both_bits [] st) (\<lambda>st. Inr (st, False))
            else
              andthen (say_if (flag st 5) l Elf_sec [get st 28, get st 32, get st 36, get st 40] st) (\<lambda>st.
              andthen (memory_map l mbi st) (\<lambda>st. Inr (st, True))))))))))"

section \<open>Descriptors\<close>

definition SET_LDT_PARAMS :: "seg_desc \<Rightarrow> u32 \<Rightarrow> u32 \<Rightarrow> seg_desc" where
  "SET_LDT_PARAMS str a lim =
     (let str = str\<lparr>base_31_24 := ucast (drop_bit 24 (a AND 0xFF000000))\<rparr>;
          str = str\<lparr>base_23_16 := ucast (drop_bit 16 (a AND 0x00FF0000))\<rparr>;
          str = str\<lparr>base_15_00 := ucast (a AND 0x0000FFFF)\<rparr>;
          str = str\<lparr>seg_lim_19_16 := ucast (drop_bit 16 (lim AND 0x000F0000))\<rparr>
      in str\<lparr>seg_lim_15_00 := ucast (lim AND 0x0000FFFF)\<rparr>)"

definition SET_TSS_PARAMS :: "seg_desc \<Rightarrow> u32 \<Rightarrow> u32 \<Rightarrow> seg_desc" where
  "SET_TSS_PARAMS str a lim =
     (let str = str\<lparr>base_31_24 := ucast (drop_bit 24 (a AND 0xFF000000))\<rparr>;
          str = str\<lparr>base_23_16 := ucast (drop_bit 16 (a AND 0x00FF0000))\<rparr>;
          str = str\<lparr>base_15_00 := ucast (a AND 0x0000FFFF)\<rparr>;
          str = str\<lparr>seg_lim_19_16 := ucast (drop_bit 16 (lim AND 0x000F0000))\<rparr>
      in str\<lparr>seg_lim_15_00 := ucast (lim AND 0x0000FFFF)\<rparr>)"

abbreviation ldt_size :: u32 where "ldt_size \<equiv> 31"
abbreviation tss_size :: u32 where "tss_size \<equiv> 103"

definition setup_ldt :: "boot_locals \<Rightarrow> 'a boot_scheme \<Rightarrow> 'a boot_scheme" where
  "setup_ldt l st =
     (let the_ldt_desc = (junk_desc l)\<lparr>seg_granularity := 0, seg_opsize := 1, seg_reserved := 0, seg_avail := 0,
            seg_present := 1, seg_dpl := 0, seg_sys := 0, seg_type := 2\<rparr>;
          the_ldt_desc = SET_LDT_PARAMS the_ldt_desc (at_ldt l) ldt_size;
          st = st\<lparr>ldt_desc_ptr := the_ldt_desc\<rparr>
      in st\<lparr>ldtr := 0x38\<rparr>)"

definition setup_tss :: "boot_locals \<Rightarrow> 'a boot_scheme \<Rightarrow> 'a boot_scheme" where
  "setup_tss l st =
     (let the_tss_desc = (junk_desc l)\<lparr>seg_granularity := 0, seg_opsize := 0, seg_reserved := 0, seg_avail := 0,
            seg_lim_19_16 := ucast ((104 :: u32) AND 0x000F0000), seg_present := 1, seg_dpl := 0, seg_sys := 0, seg_type := 9,
            seg_lim_15_00 := ucast ((104 :: u32) AND 0x0000FFFF)\<rparr>;
          the_tss_desc = SET_TSS_PARAMS the_tss_desc (at_tss l) tss_size;
          st = st\<lparr>tss_desc_ptr := the_tss_desc\<rparr>;
          st = st\<lparr>tss_ldt_segment_selector := 0x38\<rparr>;
          st = st\<lparr>tss_ss0 := 0x18\<rparr>;
          st = st\<lparr>tss_esp0 := 0x800000\<rparr>
      in st\<lparr>tr := 0x30\<rparr>)"

section \<open>Starting the system\<close>

text \<open>What \<open>entry\<close> sets up before it prints its last message: the tables, then the devices.\<close>

definition boot_tables :: "code \<Rightarrow> boot_locals \<Rightarrow> 'a boot_scheme \<Rightarrow> 'a boot_scheme" where
  "boot_tables c l st =
     (let st = setup_ldt l st;
          st = setup_tss l st;
          st = setup_kernel_paging (junk_paging l) st;
          st = enable_paging st
      in setup_IDT (linkage c) (junk_gate l) st)"

definition boot_devices :: "boot_locals \<Rightarrow> 'a kernel_scheme \<Rightarrow> 'a kernel_scheme" where
  "boot_devices l st =
     (let st = outb 0xFF 0x21 st;
          st = outb 0xFF 0xA1 st;
          st = i8259_init st;
          st = keyboard_init st;
          st = RTC_init (rtc_register_b l) st;
          st = pit_init st;
          st = enable_cursor (cursor_start l) (cursor_end l) st
      in update_cursor 0 0 st)"

definition boot_setup :: "code \<Rightarrow> boot_locals \<Rightarrow> 'a boot_scheme \<Rightarrow> 'a boot_scheme" where
  "boot_setup c l st = boot_devices l (boot_tables c l st)"

text \<open>
  The frame the shell starts with, or None when \<open>entry\<close> returns.  When \<open>execute\<close> fails it jumps to the end
  of the dispatcher from a frame the dispatcher did not build.
\<close>

definition boot_kernel ::
  "code \<Rightarrow> boot_locals \<Rightarrow> 'a boot_scheme \<Rightarrow> ('a boot_scheme \<times> user_frame option) res" where
  "boot_kernel c l st =
     andthen (say l Enabling [] (boot_setup c l st)) (\<lambda>st.
     andthen (clear st) (\<lambda>st.
     andthen (only_to_user (execute (boot_execute l) (at_shell_name l) st)) (\<lambda>(st, out).
       Inr (st, case out of To_user frame \<Rightarrow> Some frame | _ \<Rightarrow> None))))"

definition entry_point ::
  "code \<Rightarrow> boot_locals \<Rightarrow> u32 \<Rightarrow> addr \<Rightarrow> 'a boot_scheme \<Rightarrow> ('a boot_scheme \<times> user_frame option) res" where
  "entry_point c l magic mbi st =
     andthen (report l magic mbi st) (\<lambda>(st, go_on). if go_on then boot_kernel c l st else Inr (st, None))"

text \<open>\<^verbatim>\<open>_start\<close>: the boot loader leaves the magic number in \<open>eax\<close> and the address of its information in \<open>ebx\<close>.\<close>

definition start ::
  "code \<Rightarrow> boot_locals \<Rightarrow> 'a boot_scheme \<Rightarrow> ('a boot_scheme \<times> user_frame option) res" where
  "start c l st =
     (let st = cli st;
          st = st\<lparr>cs_reg := 0x10\<rparr>;
          st = st\<lparr>esp := 0x800000\<rparr>;
          st = st\<lparr>ecx := put_bits 0 16 0x18 (ecx st)\<rparr>;
          st = st\<lparr>ss_reg := 0x18\<rparr>;
          st = push (ebx st) st;
          st = push (eax st) st;
          st = c_enter (size_entry l) (push (ret_start l) st)
      in entry_point c l (read32 (vmem st) (ebp st + 8)) (read32 (vmem st) (ebp st + 12)) st)"

end
