(* ===== verification/BootReport.thy ===== *)
theory BootReport imports Boot begin

text \<open>
  The report on the multiboot information returns: every message is printed, the loops over the modules and
  over the memory map end, and nothing but the console's page and the buffer of \<open>printf\<close> is written.
\<close>

section \<open>Clearing the screen\<close>

lemma prompt_shown:
  assumes "cur_process_local st = Inr p" "on_screen (cur_terminal st - 1) st"
  shows "\<exists>t. putc_all cs 1 st = Inr t \<and> same_kernel st t \<and> on_screen (cur_terminal st - 1) t \<and>
    (\<forall>i. i \<noteq> cur_terminal st - 1 \<longrightarrow> screen_x t i = screen_x st i \<and> screen_y t i = screen_y st i) \<and>
    (\<forall>a. \<not> inside 0xB8000 4000 a \<longrightarrow> vmem t a = vmem st a)"
  using assms
proof (induction cs arbitrary: st)
  case (Cons c cs)
  let ?i = "cur_terminal st - 1" and ?s = "put_on 0xB8000 (cur_terminal st - 1) True c st"
  have k: "same_kernel st ?s" by (rule put_on_same_kernel)
  have s: "putc c 1 st = Inr ?s" by (simp add: putc_def Cons.prems(1))
  have scr: "screen_x ?s j = screen_x st j \<and> screen_y ?s j = screen_y st j" if "j \<noteq> ?i" for j
    using Cons.prems(2) that by (cases "c = 10 \<or> c = 13") (auto simp: put_on_newline put_on_char)
  have mem: "\<not> inside 0xB8000 4000 a \<Longrightarrow> vmem ?s a = vmem st a" for a
    by (rule put_on_outside [OF Cons.prems(2)])
  have "on_screen ?i ?s" using put_on_screen [OF Cons.prems(2,2)] .
  then obtain t where "putc_all cs 1 ?s = Inr t" "same_kernel ?s t" "on_screen ?i t"
    "\<forall>i. i \<noteq> ?i \<longrightarrow> screen_x t i = screen_x ?s i \<and> screen_y t i = screen_y ?s i"
    "\<forall>a. \<not> inside 0xB8000 4000 a \<longrightarrow> vmem t a = vmem ?s a"
    using Cons.IH [of ?s] Cons.prems(1) cur_process_local_same [OF k] same_kernel_eqs(3) [OF k] by auto
  then show ?case using s scr mem same_kernel_trans [OF k] by auto
qed auto

lemma clear_cells_outside:
  assumes "\<not> inside base 4000 a" "n \<le> 2000"
  shows "fold (\<lambda>i m. clear_cell base i m) [0..<n] m a = m a"
  using assms(2)
proof (induction n)
  case (Suc n)
  have "inside base 4000 (base + of_nat (n * 2))" "inside base 4000 (base + of_nat (Suc (n * 2)))"
    using Suc.prems by (intro inside_offset; simp)+
  then have "a \<noteq> base + of_nat (n * 2)" "a \<noteq> base + of_nat (n * 2) + 1"
    using assms(1) by (auto simp: add.commute add.left_commute)
  then show ?case using Suc by (simp add: clear_cell_def)
qed simp

lemma clear_returns:
  assumes "cur_process_local st = Inr p"
  shows "\<exists>t. clear st = Inr t \<and> same_kernel st t \<and> on_screen (cur_terminal st - 1) t \<and>
    (\<forall>i. i \<noteq> cur_terminal st - 1 \<longrightarrow> screen_x t i = screen_x st i \<and> screen_y t i = screen_y st i) \<and>
    (\<forall>a. \<not> inside 0xB8000 4000 a \<longrightarrow> vmem t a = vmem st a)"
proof -
  let ?i = "cur_terminal st - 1"
  define m where "m = fold (\<lambda>i m. clear_cell 0xB8000 i m) [0..<2000] (vmem st)"
  define s where "s = update_cursor 0 0 ((set_vmem m st)\<lparr>screen_y := (screen_y st)(?i := 0), screen_x := (screen_x st)(?i := 0)\<rparr>)"
  have k: "same_kernel st s"
    unfolding s_def by (intro same_kernel_steps update_cursor_same_kernel same_kernel_refl)
  have scr: "screen_x s = (screen_x st)(?i := 0)" "screen_y s = (screen_y st)(?i := 0)"
    by (simp_all add: s_def update_cursor_screen)
  have "vmem s = m" by (simp add: s_def update_cursor_def Let_def)
  then have mem: "\<not> inside 0xB8000 4000 a \<Longrightarrow> vmem s a = vmem st a" for a
    using clear_cells_outside [where base = "0xB8000" and n = 2000] by (simp add: m_def)
  have c: "clear st = (if process_id (current_pcb s) \<in> {1, 2, 3} then putc_all [51, 57, 49, 79, 83, 62, 32] 1 s else Inr s)"
    by (simp add: clear_def Let_def m_def s_def)
  show ?thesis
  proof (cases "process_id (current_pcb s) \<in> {1, 2, 3}")
    case False
    then show ?thesis using c k scr mem by (auto simp: on_screen_def)
  next
    case True
    have "on_screen ?i s" by (simp add: on_screen_def scr)
    then obtain t where "putc_all [51, 57, 49, 79, 83, 62, 32] 1 s = Inr t" "same_kernel s t" "on_screen ?i t"
      "\<forall>i. i \<noteq> ?i \<longrightarrow> screen_x t i = screen_x s i \<and> screen_y t i = screen_y s i"
      "\<forall>a. \<not> inside 0xB8000 4000 a \<longrightarrow> vmem t a = vmem s a"
      using prompt_shown [of s p "[51, 57, 49, 79, 83, 62, 32]"] assms cur_process_local_same [OF k]
        same_kernel_eqs(3) [OF k] by (auto simp del: putc_all.simps)
    then show ?thesis using c True scr mem same_kernel_trans [OF k] by auto
  qed
qed

section \<open>Messages\<close>

text \<open>\<open>said l p sh s t\<close>: between \<open>s\<close> and \<open>t\<close> there was only output to the page of terminal \<open>p\<close>.\<close>

definition said :: "boot_locals \<Rightarrow> int \<Rightarrow> bool \<Rightarrow> 'a console_scheme \<Rightarrow> 'a console_scheme \<Rightarrow> bool" where
  "said l p sh s t \<longleftrightarrow> same_kernel s t \<and> output_ok p sh t \<and>
     (\<forall>a. \<not> inside (page_base sh p) 4000 a \<longrightarrow> \<not> inside (at_boot_buf l) 64 a \<longrightarrow> vmem t a = vmem s a)"

definition msgs_ok :: "boot_locals \<Rightarrow> int \<Rightarrow> bool \<Rightarrow> mem \<Rightarrow> bool" where
  "msgs_ok l p sh m \<longleftrightarrow> apart (page_base sh p) 4000 (at_boot_buf l) 64 \<and>
     (\<forall>msg. texts_ok m (page_base sh p) (at_boot_buf l) [at_msg l msg \<mapsto> boot_text msg])"

lemma said_trans: "said l p sh s t \<Longrightarrow> said l p sh t u \<Longrightarrow> said l p sh s u"
  by (auto simp: said_def intro: same_kernel_trans)

lemma say_said:
  assumes "said l p sh s t" "msgs_ok l p sh (vmem s)" "printed str (boot_text msg) None vs = Some out"
    and "texts_ok (vmem s) (page_base sh p) (at_boot_buf l) str"
  shows "\<exists>u. say l msg vs t = Inr u \<and> said l p sh s u"
proof -
  let ?B = "page_base sh p" and ?b = "at_boot_buf l"
  have mem: "\<And>a. \<not> inside ?B 4000 a \<Longrightarrow> \<not> inside ?b 64 a \<Longrightarrow> vmem t a = vmem s a" and ok: "output_ok p sh t"
    using assms(1) by (simp_all add: said_def)
  have "texts_ok (vmem s) ?B ?b [at_msg l msg \<mapsto> boot_text msg]" using assms(2) by (simp add: msgs_ok_def)
  then have "texts_ok (vmem s) ?B ?b (str(at_msg l msg \<mapsto> boot_text msg))"
    using assms(4) by (simp add: texts_ok_def)
  then have "texts_ok (vmem t) ?B ?b (str(at_msg l msg \<mapsto> boot_text msg))" by (rule texts_ok_cong) (rule mem)
  moreover have "texts_ok (vmem t) ?B ?b str" using assms(4) by (rule texts_ok_cong) (rule mem)
  moreover have "apart ?B 4000 ?b 64" using assms(2) by (simp add: msgs_ok_def)
  ultimately obtain u where "printf ?b (at_msg l msg) vs t = Inr (u, of_nat (length (boot_text msg)))"
    "output_ok p sh u" "same_kernel t u" "\<And>x. \<not> inside ?B 4000 x \<Longrightarrow> \<not> inside ?b 64 x \<Longrightarrow> vmem u x = vmem t x"
    using printf_displays [OF assms(3) ok] by metis
  then show ?thesis using assms(1) said_trans [OF assms(1), of u] by (auto simp: say_def said_def)
qed

text \<open>The number of arguments each message takes; \<open>%s\<close> is the only conversion that needs a string.\<close>

fun boot_args :: "boot_msg \<Rightarrow> nat" where
  "boot_args Invalid_magic = 1" | "boot_args Flags = 1" | "boot_args Mem = 2" | "boot_args Boot_device = 1"
| "boot_args Cmdline = 1" | "boot_args Module_start = 2" | "boot_args Module_end = 2" | "boot_args First_bytes = 0"
| "boot_args Byte_value = 1" | "boot_args Newline = 0" | "boot_args Both_bits = 0" | "boot_args Elf_sec = 4"
| "boot_args Mmap = 2" | "boot_args Mmap_entry = 6" | "boot_args Enabling = 0"

text \<open>The number of arguments of a format without \<open>%s\<close>.\<close>

primrec wants :: "u8 list \<Rightarrow> bool \<Rightarrow> nat option" where
  "wants [] conv = (if conv then None else Some 0)"
| "wants (c # f) conv =
     (if \<not> conv then wants f (c = 37) else if c = 35 then wants f True else if c = 115 then None
      else if c \<in> {120, 117, 100, 99} then map_option Suc (wants f False) else wants f False)"

lemma printed_wants:
  "wants f (mode \<noteq> None) = Some (length vs) \<Longrightarrow> \<exists>out. printed str f mode vs = Some out"
proof (induction f arbitrary: mode vs)
  case (Cons c f)
  show ?case
  proof (cases mode)
    case None
    then show ?thesis
      using Cons.IH [of "Some False" vs] Cons.IH [of None vs] Cons.prems by (cases "c = 37") auto
  next
    case (Some alt)
    consider "c = 35" | "c = 37" | v ws where "c \<in> {120, 117, 100, 99}" "vs = v # ws" "wants f False = Some (length ws)"
      | "c \<notin> {35, 37, 120, 117, 100, 99, 115}" "wants f False = Some (length vs)"
      using Cons.prems Some by (cases vs) (auto split: if_splits)
    then show ?thesis
    proof cases
      case 1
      then show ?thesis using Cons.IH [of "Some True" vs] Cons.prems Some by auto
    next
      case 2
      then show ?thesis using Cons.IH [of None vs] Cons.prems Some by (auto simp: converted_def)
    next
      case 3
      then show ?thesis using Cons.IH [of None ws] Some by (auto simp: converted_def)
    next
      case 4
      then show ?thesis using Cons.IH [of None vs] Some by (auto simp: converted_def)
    qed
  qed
qed (auto split: if_splits)

lemma wants_boot_text: "msg \<noteq> Cmdline \<Longrightarrow> wants (boot_text msg) False = Some (boot_args msg)"
proof -
  have "list_all (\<lambda>m. wants (boot_text m) False = Some (boot_args m)) [Invalid_magic, Flags, Mem, Boot_device, Module_start,
    Module_end, First_bytes, Byte_value, Newline, Both_bits, Elf_sec, Mmap, Mmap_entry, Enabling]" by code_simp
  then show "msg \<noteq> Cmdline \<Longrightarrow> wants (boot_text msg) False = Some (boot_args msg)" by (cases msg) simp_all
qed

lemma texts_ok_empty [simp]: "texts_ok m page b Map.empty"
  by (simp add: texts_ok_def)

lemma say_plain:
  assumes "said l p sh s t" "msgs_ok l p sh (vmem s)" "msg \<noteq> Cmdline" "length vs = boot_args msg"
  shows "\<exists>u. say l msg vs t = Inr u \<and> said l p sh s u"
proof -
  obtain out where "printed Map.empty (boot_text msg) None vs = Some out"
    using printed_wants [of "boot_text msg" None vs] wants_boot_text [OF assms(3)] assms(4) by auto
  then show ?thesis by (rule say_said [OF assms(1,2)]) simp
qed

lemma say_if_plain:
  assumes "said l p sh s t" "msgs_ok l p sh (vmem s)" "msg \<noteq> Cmdline" "length vs = boot_args msg"
  shows "\<exists>u. say_if b l msg vs t = Inr u \<and> said l p sh s u"
  using say_plain [OF assms] assms(1) by (simp add: say_if_def)

lemma say_cmdline:
  assumes "said l p sh s t" "msgs_ok l p sh (vmem s)" "texts_ok (vmem s) (page_base sh p) (at_boot_buf l) [v \<mapsto> cmd]"
  shows "\<exists>u. say l Cmdline [v] t = Inr u \<and> said l p sh s u"
proof -
  have b: "boot_text Cmdline = [99, 109, 100, 108, 105, 110, 101, 32, 61, 32, 37, 115, 10]" by code_simp
  have "\<exists>out. printed [v \<mapsto> cmd] (boot_text Cmdline) None [v] = Some out"
    unfolding b by (simp add: converted_def)
  then show ?thesis using say_said [OF assms(1,2) _ assms(3)] by blast
qed

section \<open>The loops\<close>

text \<open>A region the report does not write to.\<close>

definition quiet :: "boot_locals \<Rightarrow> int \<Rightarrow> bool \<Rightarrow> addr \<Rightarrow> nat \<Rightarrow> bool" where
  "quiet l p sh a n \<longleftrightarrow> apart (page_base sh p) 4000 a n \<and> apart (at_boot_buf l) 64 a n \<and> n \<le> 4294967296"

lemma said_quiet:
  assumes "said l p sh s t" "quiet l p sh a n"
  shows "bytes (vmem t) a n = bytes (vmem s) a n"
proof (rule bytes_cong)
  fix i assume "i < n"
  then have "inside a n (a + of_nat i)" using assms(2) by (intro inside_offset) (simp_all add: quiet_def)
  then show "vmem t (a + of_nat i) = vmem s (a + of_nat i)"
    using assms apart_not_inside apart_sym unfolding said_def quiet_def by metis
qed

lemma said_quiet32:
  assumes "said l p sh s t" "quiet l p sh a n" "i + 4 \<le> n"
  shows "read32 (vmem t) (a + of_nat i) = read32 (vmem s) (a + of_nat i)"
proof (rule read32_cong)
  have "bytes m (a + of_nat i) 4 = take 4 (drop i (bytes m a n))" for m using assms(3) by (simp add: drop_bytes take_bytes)
  then show "bytes (vmem t) (a + of_nat i) 4 = bytes (vmem s) (a + of_nat i) 4" using said_quiet [OF assms(1,2)] by simp
qed

lemma said_refl: "output_ok p sh s \<Longrightarrow> said l p sh s s"
  by (simp add: said_def)

lemma module_bytes_said:
  assumes "said l p sh s t" "msgs_ok l p sh (vmem s)"
  shows "\<exists>u. module_bytes l md is t = Inr u \<and> said l p sh s u"
  using assms(1)
proof (induction "is" arbitrary: t)
  case (Cons i "is")
  obtain u where "say l Byte_value [scast (vmem t (read32 (vmem t) md + of_nat i))] t = Inr u" "said l p sh s u"
    using say_plain [OF Cons.prems assms(2), of Byte_value "[scast (vmem t (read32 (vmem t) md + of_nat i))]"] by auto
  then show ?case using Cons.IH by simp
qed simp

lemma module_report_said:
  assumes "said l p sh s t" "msgs_ok l p sh (vmem s)"
  shows "\<exists>u. module_report l k md t = Inr u \<and> said l p sh s u"
proof -
  note say = say_plain [OF _ assms(2)]
  obtain t1 where t1: "say l Module_start [k, read32 (vmem t) md] t = Inr t1" "said l p sh s t1"
    using say [OF assms(1), of Module_start "[k, read32 (vmem t) md]"] by auto
  obtain t2 where t2: "say l Module_end [k, read32 (vmem t1) (md + 4)] t1 = Inr t2" "said l p sh s t2"
    using say [OF t1(2), of Module_end "[k, read32 (vmem t1) (md + 4)]"] by auto
  obtain t3 where t3: "say l First_bytes [] t2 = Inr t3" "said l p sh s t3"
    using say [OF t2(2), of First_bytes "[]"] by auto
  obtain t4 where t4: "module_bytes l md [0..<16] t3 = Inr t4" "said l p sh s t4"
    using module_bytes_said [OF t3(2) assms(2)] by blast
  obtain t5 where "say l Newline [] t4 = Inr t5" "said l p sh s t5"
    using say [OF t4(2), of Newline "[]"] by auto
  then show ?thesis using t1 t2 t3 t4 by (simp add: module_report_def)
qed

lemma modules_loop_said:
  assumes "said l p sh s t" "msgs_ok l p sh (vmem s)" "quiet l p sh mbi 52"
    and "k \<le> read32 (vmem s) (mbi + 20)"
  shows "\<exists>u. modules_loop l mbi k md t = Some (Inr u) \<and> said l p sh s u"
  using assms(1,4)
proof (induction "unat (read32 (vmem s) (mbi + 20) - k)" arbitrary: k md t rule: less_induct)
  case less
  have n: "read32 (vmem t) (mbi + 20) = read32 (vmem s) (mbi + 20)"
    using said_quiet32 [OF less.prems(1) assms(3), of 20] by simp
  show ?case
  proof (cases "k < read32 (vmem s) (mbi + 20)")
    case False
    then show ?thesis using less.prems n by (subst modules_loop.simps) simp
  next
    case True
    obtain u where u: "module_report l k md t = Inr u" "said l p sh s u"
      using module_report_said [OF less.prems(1) assms(2)] by blast
    have "unat (read32 (vmem s) (mbi + 20) - (k + 1)) < unat (read32 (vmem s) (mbi + 20) - k)"
      using True unat_diff_Suc [of "read32 (vmem s) (mbi + 20)" k] by auto
    moreover have "k + 1 \<le> read32 (vmem s) (mbi + 20)" using True by (rule inc_le)
    ultimately obtain v where "modules_loop l mbi (k + 1) (md + 16) u = Some (Inr v)" "said l p sh s v"
      using less.hyps [OF _ u(2)] by blast
    then show ?thesis using True n u(1) by (subst modules_loop.simps) simp
  qed
qed

text \<open>
  A region that the start of the system does not write to: it overlaps neither the page on the display and
  the hidden page of terminal 1 nor the buffer of \<open>printf\<close>.
\<close>

definition undisturbed :: "boot_locals \<Rightarrow> addr \<Rightarrow> nat \<Rightarrow> bool" where
  "undisturbed l a n \<longleftrightarrow> apart 0xB8000 8192 a n \<and> apart (at_boot_buf l) 64 a n \<and> n \<le> 4294967296"

lemma page_apart: "apart 0xB8000 8192 a n \<Longrightarrow> apart (page_base sh 1) 4000 a n"
  using apart_sub [of "0xB8000" 8192 a n 0 4000] apart_sub [of "0xB8000" 8192 a n 4096 4000] by (simp add: page_base_def)

lemma undisturbed_quiet: "undisturbed l a n \<Longrightarrow> quiet l 1 sh a n"
  by (simp add: undisturbed_def quiet_def page_apart)

text \<open>A memory map of at most \<open>n\<close> entries, from \<open>a\<close> to \<open>e\<close>.\<close>

primrec map_ends :: "boot_locals \<Rightarrow> mem \<Rightarrow> addr \<Rightarrow> nat \<Rightarrow> addr \<Rightarrow> bool" where
  "map_ends l m e 0 a = (e \<le> a)"
| "map_ends l m e (Suc n) a = (e \<le> a \<or> undisturbed l a 4 \<and> map_ends l m e n (a + read32 m a + 4))"

lemma map_end_said:
  assumes "said l p sh s t" "quiet l p sh mbi 52"
  shows "read32 (vmem t) (mbi + 48) + read32 (vmem t) (mbi + 44) = read32 (vmem s) (mbi + 48) + read32 (vmem s) (mbi + 44)"
  using said_quiet32 [OF assms, of 48] said_quiet32 [OF assms, of 44] by simp

lemma mmap_loop_said:
  assumes "said l 1 sh s t" "msgs_ok l 1 sh (vmem s)" "quiet l 1 sh mbi 52"
    and "map_ends l (vmem s) (read32 (vmem s) (mbi + 48) + read32 (vmem s) (mbi + 44)) n a"
  shows "\<exists>u. mmap_loop l mbi a t = Some (Inr u) \<and> said l 1 sh s u"
  using assms(1,4)
proof (induction n arbitrary: a t)
  case 0
  then show ?case using map_end_said [OF 0(1) assms(3)] by (subst mmap_loop.simps) (simp add: leD)
next
  case (Suc n)
  let ?e = "read32 (vmem s) (mbi + 48) + read32 (vmem s) (mbi + 44)" and ?r = "\<lambda>i. read32 (vmem t) (a + i)"
  show ?case
  proof (cases "?e \<le> a")
    case True
    then show ?thesis using map_end_said [OF Suc.prems(1) assms(3)] Suc.prems(1) by (subst mmap_loop.simps) (simp add: leD)
  next
    case False
    then have q: "quiet l 1 sh a 4" "map_ends l (vmem s) ?e n (a + read32 (vmem s) a + 4)" using Suc.prems(2) undisturbed_quiet by auto
    obtain u where u: "say l Mmap_entry [?r 0, ?r 8, ?r 4, ?r 20, ?r 16, ?r 12] t = Inr u" "said l 1 sh s u"
      using say_plain [OF Suc.prems(1) assms(2), of Mmap_entry "[?r 0, ?r 8, ?r 4, ?r 20, ?r 16, ?r 12]"] by auto
    have "read32 (vmem u) a = read32 (vmem s) a" using said_quiet32 [OF u(2) q(1), of 0] by simp
    then obtain v where "mmap_loop l mbi (a + read32 (vmem u) a + 4) u = Some (Inr v)" "said l 1 sh s v"
      using Suc.IH [OF u(2)] q(2) by auto
    then show ?thesis using False map_end_said [OF Suc.prems(1) assms(3)] u(1) by (subst mmap_loop.simps) (simp add: not_le)
  qed
qed

section \<open>The report\<close>

definition boot_texts :: "boot_locals \<Rightarrow> mem \<Rightarrow> bool" where
  "boot_texts l m \<longleftrightarrow> apart 0xB8000 8192 (at_boot_buf l) 64 \<and>
     (\<forall>msg. cstring m (at_msg l msg) (boot_text msg) \<and> undisturbed l (at_msg l msg) (Suc (length (boot_text msg))))"

text \<open>The information is readable, it names a command line \<open>cmd\<close>, a module and a memory map of at most \<open>n\<close> entries.\<close>

definition multiboot_ok :: "boot_locals \<Rightarrow> addr \<Rightarrow> u8 list \<Rightarrow> nat \<Rightarrow> mem \<Rightarrow> bool" where
  "multiboot_ok l mbi cmd n m \<longleftrightarrow>
     (let get = (\<lambda>i. read32 m (mbi + i)); flag = bit (get 0) in
      undisturbed l mbi 52 \<and> flag 3 \<and> \<not> (flag 4 \<and> flag 5) \<and> undisturbed l (get 24) 4 \<and>
      undisturbed l (read32 m (get 24)) 8 \<and>
      (flag 2 \<longrightarrow> cstring m (get 16) cmd \<and> length cmd < 4294967295 \<and> undisturbed l (get 16) (Suc (length cmd))) \<and>
      (flag 6 \<longrightarrow> map_ends l m (get 48 + get 44) n (get 48)))"

text \<open>The file system image: the first module.\<close>

definition first_module :: "addr \<Rightarrow> mem \<Rightarrow> addr" where
  "first_module mbi m = read32 m (read32 m (mbi + 24))"

lemma boot_texts_msgs: "boot_texts l m \<Longrightarrow> msgs_ok l 1 sh m"
proof -
  assume b: "boot_texts l m"
  have "texts_ok m (page_base sh 1) (at_boot_buf l) [at_msg l msg \<mapsto> boot_text msg]" for msg
  proof -
    have "length (boot_text msg) < 4294967295" by (cases msg) (simp_all add: ascii_def)
    then show ?thesis using b by (auto simp: boot_texts_def texts_ok_def undisturbed_def page_apart)
  qed
  then show "msgs_ok l 1 sh m" using b by (simp add: msgs_ok_def boot_texts_def page_apart)
qed

lemma cstring_bytes: "cstring m a str \<longleftrightarrow> bytes m a (Suc (length str)) = str @ [0] \<and> 0 \<notin> set str"
  by (auto simp: cstring_def bytes_Suc_snoc)

text \<open>\<open>touched\<close>: between the states only the two pages, the buffer, ports and cursors were written.\<close>

definition touched :: "boot_locals \<Rightarrow> 'a console_scheme \<Rightarrow> 'a console_scheme \<Rightarrow> bool" where
  "touched l s t \<longleftrightarrow> same_kernel s t \<and>
     (\<forall>a. \<not> inside 0xB8000 8192 a \<longrightarrow> \<not> inside (at_boot_buf l) 64 a \<longrightarrow> vmem t a = vmem s a)"

lemma touched_refl [simp]: "touched l s s"
  by (simp add: touched_def)

lemma touched_trans: "touched l s t \<Longrightarrow> touched l t u \<Longrightarrow> touched l s u"
  by (auto simp: touched_def intro: same_kernel_trans)

lemma touched_bytes:
  assumes "touched l s t" "undisturbed l a n"
  shows "bytes (vmem t) a n = bytes (vmem s) a n"
proof (rule bytes_cong)
  fix i assume "i < n"
  then have "inside a n (a + of_nat i)" using assms(2) by (intro inside_offset) (simp_all add: undisturbed_def)
  then show "vmem t (a + of_nat i) = vmem s (a + of_nat i)"
    using assms apart_not_inside apart_sym unfolding touched_def undisturbed_def by metis
qed

lemma undisturbed_sub: "undisturbed l a n \<Longrightarrow> i + k \<le> n \<Longrightarrow> undisturbed l (a + of_nat i) k"
  by (auto simp: undisturbed_def intro: apart_sub_right)

lemma touched_read32: "touched l s t \<Longrightarrow> undisturbed l a n \<Longrightarrow> i + 4 \<le> n \<Longrightarrow>
    read32 (vmem t) (a + of_nat i) = read32 (vmem s) (a + of_nat i)"
  by (rule read32_cong) (rule touched_bytes [OF _ undisturbed_sub])

lemma in_pages: "inside (page_base sh 1) 4000 a \<Longrightarrow> inside 0xB8000 8192 a"
proof -
  assume "inside (page_base sh 1) 4000 a"
  then obtain i where i: "i < 4000" "a = page_base sh 1 + of_nat i" by (rule inside_obtain)
  have "inside 0xB8000 8192 (0xB8000 + of_nat (if sh then i else 4096 + i))" using i(1) by (intro inside_offset) auto
  then show ?thesis unfolding i(2) by (cases sh) (simp_all add: page_base_def add.assoc)
qed

lemma said_touched: "said l 1 sh s t \<Longrightarrow> touched l s t"
  using in_pages by (auto simp: said_def touched_def)

lemma boot_texts_touched:
  assumes "boot_texts l (vmem s)" "touched l s t"
  shows "boot_texts l (vmem t)"
proof -
  have "cstring (vmem t) (at_msg l msg) (boot_text msg)" for msg
    using assms(1) touched_bytes [OF assms(2)] unfolding boot_texts_def cstring_bytes by metis
  then show ?thesis using assms(1) by (simp add: boot_texts_def)
qed

lemma map_ends_touched:
  assumes "map_ends l (vmem s) e n a" "touched l s t"
  shows "map_ends l (vmem t) e n a"
  using assms(1)
proof (induction n arbitrary: a)
  case (Suc n)
  have "read32 (vmem t) a = read32 (vmem s) a" if "undisturbed l a 4"
    using touched_read32 [OF assms(2) that, of 0] by simp
  then show ?case using Suc by auto
qed simp

lemma multiboot_touched:
  assumes "multiboot_ok l mbi cmd n (vmem s)" "touched l s t"
  shows "multiboot_ok l mbi cmd n (vmem t)" "first_module mbi (vmem t) = first_module mbi (vmem s)"
    "i \<le> 48 \<Longrightarrow> read32 (vmem t) (mbi + of_nat i) = read32 (vmem s) (mbi + of_nat i)"
proof -
  have u: "undisturbed l mbi 52" "undisturbed l (read32 (vmem s) (mbi + 24)) 4"
    using assms(1) by (simp_all add: multiboot_ok_def Let_def)
  have g: "read32 (vmem t) (mbi + of_nat i) = read32 (vmem s) (mbi + of_nat i)" if "i \<le> 48" for i
    using touched_read32 [OF assms(2) u(1)] that by simp
  note g' = g [of 0] g [of 16] g [of 24] g [of 44] g [of 48]
  show "i \<le> 48 \<Longrightarrow> read32 (vmem t) (mbi + of_nat i) = read32 (vmem s) (mbi + of_nat i)" by (rule g)
  have f: "read32 (vmem t) (read32 (vmem s) (mbi + 24)) = read32 (vmem s) (read32 (vmem s) (mbi + 24))"
    using touched_read32 [OF assms(2) u(2), of 0] by simp
  then show "first_module mbi (vmem t) = first_module mbi (vmem s)" using g' by (simp add: first_module_def)
  show "multiboot_ok l mbi cmd n (vmem t)"
    using assms g' f map_ends_touched [OF _ assms(2)] touched_bytes [OF assms(2)]
    by (auto simp: multiboot_ok_def Let_def cstring_bytes)
qed

lemma vmem_fs_fields [simp]:
  "vmem (s\<lparr>g_boot_block := x\<rparr>) = vmem s" "vmem (s\<lparr>g_inodes := x\<rparr>) = vmem s" "vmem (s\<lparr>g_data_blocks := x\<rparr>) = vmem s"
  by (simp_all add: vmem_def remap_def user_mapped_def)

lemma vmem_fileSystem_init [simp]: "vmem (fileSystem_init fs s) = vmem s"
  by (simp add: fileSystem_init_def Let_def)

lemma fileSystem_init_output [simp]: "output_ok p sh (fileSystem_init fs s) = output_ok p sh s"
  by (simp add: fileSystem_init_def Let_def output_ok_def cur_process_local_def current_pcb_addr_def on_screen_def)

lemma fileSystem_init_same:
  assumes "same_kernel s t" "num_inodes (vmem t) fs = num_inodes (vmem s) fs"
  shows "same_kernel (fileSystem_init fs s) (fileSystem_init fs t)"
  unfolding same_kernel_def
proof -
  let ?f = "\<lambda>u. u\<lparr>g_boot_block := fs, g_inodes := fs + 4096, g_data_blocks := fs + (1 + num_inodes (vmem s) fs) * 4096\<rparr>"
  have "fileSystem_init fs s = ?f s" "fileSystem_init fs t = ?f t"
    using assms(2) by (simp_all add: fileSystem_init_def Let_def)
  moreover have "?f t = ?f (s\<lparr>phys := phys t, out_log := out_log t, screen_x := screen_x t, screen_y := screen_y t\<rparr>)"
    by (rule arg_cong [where f = ?f]) (rule assms(1) [unfolded same_kernel_def])
  ultimately show "fileSystem_init fs t = (fileSystem_init fs s)\<lparr>phys := phys (fileSystem_init fs t),
      out_log := out_log (fileSystem_init fs t), screen_x := screen_x (fileSystem_init fs t),
      screen_y := screen_y (fileSystem_init fs t)\<rparr>" by simp
qed

lemma said_fs:
  assumes "said l 1 sh s t" "undisturbed l fs 8"
  shows "said l 1 sh (fileSystem_init fs s) (fileSystem_init fs t)"
proof -
  have "num_inodes (vmem t) fs = num_inodes (vmem s) fs"
    using touched_read32 [OF said_touched [OF assms(1)] assms(2), of 4] by (simp add: num_inodes_def)
  then show ?thesis using assms(1) fileSystem_init_same [of s t fs] by (simp add: said_def)
qed

lemma modules_said:
  assumes "said l 1 sh s t" "boot_texts l (vmem s)" "multiboot_ok l mbi cmd n (vmem s)"
  shows "\<exists>u. modules l mbi t = Inr u \<and> said l 1 sh (fileSystem_init (first_module mbi (vmem s)) s) u"
proof -
  let ?fs = "first_module mbi (vmem s)" and ?md = "read32 (vmem t) (mbi + 24)"
  note m = multiboot_touched [OF assms(3) said_touched [OF assms(1)]]
  have ok: "bit (read32 (vmem t) mbi) 3" "undisturbed l mbi 52" "undisturbed l ?fs 8"
    using m(1) assms(3) by (simp_all add: multiboot_ok_def Let_def first_module_def)
  have fs: "read32 (vmem t) ?md = ?fs" using m(2) by (simp add: first_module_def)
  have "said l 1 sh (fileSystem_init ?fs s) (fileSystem_init ?fs t)" by (rule said_fs [OF assms(1) ok(3)])
  then obtain u where "modules_loop l mbi 0 ?md (fileSystem_init ?fs t) = Some (Inr u)"
    "said l 1 sh (fileSystem_init ?fs s) u"
    using modules_loop_said [of l 1 sh "fileSystem_init ?fs s" "fileSystem_init ?fs t" mbi 0 ?md]
      boot_texts_msgs [OF assms(2)] undisturbed_quiet [OF ok(2)] by auto
  then show ?thesis using ok(1) fs by (simp add: modules_def run_loop_def)
qed

lemma memory_map_said:
  assumes "said l 1 sh s t" "boot_texts l (vmem s)" "multiboot_ok l mbi cmd n (vmem s)"
  shows "\<exists>u. memory_map l mbi t = Inr u \<and> said l 1 sh s u"
proof (cases "bit (read32 (vmem t) mbi) 6")
  case True
  let ?vs = "[read32 (vmem t) (mbi + 48), read32 (vmem t) (mbi + 44)]"
  note msgs = boot_texts_msgs [OF assms(2), of sh]
  obtain t1 where t1: "say l Mmap ?vs t = Inr t1" "said l 1 sh s t1"
    using say_plain [OF assms(1) msgs, of Mmap ?vs] by auto
  have g: "read32 (vmem t) mbi = read32 (vmem s) mbi" "read32 (vmem t1) (mbi + 48) = read32 (vmem s) (mbi + 48)"
    using multiboot_touched(3) [OF assms(3) said_touched [OF assms(1)], of 0]
      multiboot_touched(3) [OF assms(3) said_touched [OF t1(2)], of 48] by simp_all
  have "map_ends l (vmem s) (read32 (vmem s) (mbi + 48) + read32 (vmem s) (mbi + 44)) n (read32 (vmem s) (mbi + 48))"
    "undisturbed l mbi 52"
    using assms(3) True g(1) by (simp_all add: multiboot_ok_def Let_def)
  then obtain u where "mmap_loop l mbi (read32 (vmem s) (mbi + 48)) t1 = Some (Inr u)" "said l 1 sh s u"
    using mmap_loop_said [OF t1(2) msgs undisturbed_quiet] by blast
  then show ?thesis using True t1(1) g(2) by (simp add: memory_map_def run_loop_def)
qed (use assms(1) in \<open>simp add: memory_map_def\<close>)

lemma cmdline_said:
  assumes "said l 1 sh s t" "boot_texts l (vmem s)" "multiboot_ok l mbi cmd n (vmem s)"
  shows "\<exists>u. say_if (bit (read32 (vmem t) mbi) 2) l Cmdline [read32 (vmem t) (mbi + 16)] t = Inr u \<and> said l 1 sh s u"
proof (cases "bit (read32 (vmem t) mbi) 2")
  case True
  have g: "read32 (vmem t) mbi = read32 (vmem s) mbi" "read32 (vmem t) (mbi + 16) = read32 (vmem s) (mbi + 16)"
    using multiboot_touched(3) [OF assms(3) said_touched [OF assms(1)], of 0]
      multiboot_touched(3) [OF assms(3) said_touched [OF assms(1)], of 16] by simp_all
  have "texts_ok (vmem s) (page_base sh 1) (at_boot_buf l) [read32 (vmem s) (mbi + 16) \<mapsto> cmd]"
    using assms(3) True g(1) by (auto simp: multiboot_ok_def Let_def texts_ok_def undisturbed_def page_apart)
  then show ?thesis using say_cmdline [OF assms(1) boot_texts_msgs [OF assms(2)]] True g(2) by (simp add: say_if_def)
qed (use assms(1) in \<open>simp add: say_if_def\<close>)

text \<open>The whole report, from a state in which terminal 1 is not on the display.\<close>

lemma report_returns:
  assumes "cur_process_local s = Inr 1" "cur_terminal s = 0" "on_screen 0 s"
    and "boot_texts l (vmem s)" "multiboot_ok l mbi cmd n (vmem s)"
  shows "\<exists>t. report l 0x2BADB002 mbi s = Inr (t, True) \<and> output_ok 1 False t \<and>
    touched l (fileSystem_init (first_module mbi (vmem s)) s) t"
proof -
  obtain s1 where s1: "clear s = Inr s1" "same_kernel s s1" "on_screen 0 s1"
    "\<And>a. \<not> inside 0xB8000 4000 a \<Longrightarrow> vmem s1 a = vmem s a"
    using clear_returns [OF assms(1)] assms(2,3) by (auto simp: on_screen_def)
  have "inside (page_base True 1) 4000 a \<Longrightarrow> inside 0xB8000 8192 a" for a by (rule in_pages)
  then have t1: "touched l s s1" using s1 by (auto simp: touched_def page_base_def)
  have ok: "output_ok 1 False s1"
    using assms(1,2) s1(3) cur_process_local_same [OF s1(2)] same_kernel_eqs(3) [OF s1(2)] by (simp add: output_ok_def)
  note bt = boot_texts_touched [OF assms(4) t1] and mb = multiboot_touched [OF assms(5) t1]
  let ?fs = "first_module mbi (vmem s)"
  define s2 where "s2 = fileSystem_init ?fs s1"
  have v2: "vmem s2 = vmem s1" by (simp add: s2_def)
  note msgs = boot_texts_msgs [OF bt, of False]
  let ?g = "\<lambda>t i. read32 (vmem t) (mbi + i)"
  let ?f = "\<lambda>t. bit (?g t 0)"
  obtain u1 where u1: "say l Flags [?g s1 0] s1 = Inr u1" "said l 1 False s1 u1"
    using say_plain [OF said_refl [OF ok] msgs, of Flags "[?g s1 0]"] by auto
  obtain u2 where u2: "say_if (?f u1 0) l Mem [?g u1 4, ?g u1 8] u1 = Inr u2" "said l 1 False s1 u2"
    using say_if_plain [OF u1(2) msgs, of Mem "[?g u1 4, ?g u1 8]"] by auto
  obtain u3 where u3: "say_if (?f u2 1) l Boot_device [?g u2 12] u2 = Inr u3" "said l 1 False s1 u3"
    using say_if_plain [OF u2(2) msgs, of Boot_device "[?g u2 12]"] by auto
  obtain u4 where u4: "say_if (?f u3 2) l Cmdline [?g u3 16] u3 = Inr u4" "said l 1 False s1 u4"
    using cmdline_said [OF u3(2) bt mb(1)] by auto
  obtain u5 where u5: "modules l mbi u4 = Inr u5" "said l 1 False s2 u5"
    using modules_said [OF u4(2) bt mb(1)] mb(2) by (auto simp: s2_def)
  have ok5: "\<not> (?f u5 4 \<and> ?f u5 5)"
    using multiboot_touched(1) [of l mbi cmd n s2 u5] mb(1) said_touched [OF u5(2)] by (simp add: v2 multiboot_ok_def Let_def)
  obtain u6 where u6: "say_if (?f u5 5) l Elf_sec [?g u5 28, ?g u5 32, ?g u5 36, ?g u5 40] u5 = Inr u6" "said l 1 False s2 u6"
    using say_if_plain [OF u5(2), of Elf_sec "[?g u5 28, ?g u5 32, ?g u5 36, ?g u5 40]"] msgs by (auto simp: v2)
  obtain u7 where u7: "memory_map l mbi u6 = Inr u7" "said l 1 False s2 u7"
    using memory_map_said [OF u6(2), unfolded v2, OF bt mb(1)] by auto
  have "report l 0x2BADB002 mbi s = Inr (u7, True)"
    unfolding report_def Let_def
    by (simp only: s1(1) u1(1) u2(1) u3(1) u4(1) u5(1) u6(1) u7(1) ok5 andthen_Inr if_False simp_thms)
  moreover have "touched l (fileSystem_init ?fs s) s2"
  proof -
    have "num_inodes (vmem s1) ?fs = num_inodes (vmem s) ?fs"
      using touched_read32 [OF t1, of ?fs 8 4] assms(5) by (simp add: num_inodes_def multiboot_ok_def Let_def first_module_def)
    then show ?thesis using t1 fileSystem_init_same [OF s1(2), of ?fs] by (simp add: touched_def s2_def)
  qed
  ultimately show ?thesis
    using touched_trans [OF _ said_touched [OF u7(2)]] u7(2) by (auto simp: said_def)
qed

text \<open>The only ports the console writes are those of the cursor.\<close>

definition cursor_only :: "'a machine_scheme \<Rightarrow> 'a machine_scheme \<Rightarrow> bool" where
  "cursor_only s t \<longleftrightarrow> (\<exists>ws. out_log t = out_log s @ ws \<and> list_all (\<lambda>(port, v). port = 0x3D4 \<or> port = 0x3D5) ws)"

lemma cursor_only_refl: "out_log t = out_log s \<Longrightarrow> cursor_only s t"
  by (simp add: cursor_only_def)

lemma cursor_only_trans: "cursor_only s t \<Longrightarrow> cursor_only t u \<Longrightarrow> cursor_only s u"
  by (fastforce simp: cursor_only_def)

lemma update_cursor_only: "out_log t = out_log s \<Longrightarrow> cursor_only s (update_cursor x y t)"
  by (simp add: cursor_only_def update_cursor_def outb_def Let_def)

lemma put_on_cursor_only: "cursor_only st (put_on base i sh c st)"
  by (cases "c = 10 \<or> c = 13"; cases sh)
    (auto simp: put_on_def Let_def cursor_only_def update_cursor_def outb_def)

lemma putc_all_cursor_only: "putc_all cs k st = Inr t \<Longrightarrow> cursor_only st t"
proof (induction cs arbitrary: st)
  case (Cons c cs)
  obtain p where "cur_process_local st = Inr p" using Cons.prems by (cases "cur_process_local st") (auto simp: putc_def)
  then have "putc c k st = Inr (put_on 0xB8000 (cur_terminal st - 1) True c st) \<or>
      putc c k st = Inr (put_on (0xB8000 + 4096 * of_int p) (p - 1) False c st)" by (simp add: putc_def)
  then obtain base i sh where "putc c k st = Inr (put_on base i sh c st)" by blast
  then have "putc_all cs k (put_on base i sh c st) = Inr t" using Cons.prems by simp
  from cursor_only_trans [OF put_on_cursor_only Cons.IH [OF this]] show ?case .
qed (simp add: cursor_only_refl)

lemma clear_cursor_only:
  assumes "clear st = Inr t"
  shows "cursor_only st t"
proof -
  define s where "s = update_cursor 0 0 ((set_vmem (fold (\<lambda>i m. clear_cell 0xB8000 i m) [0..<2000] (vmem st)) st)
    \<lparr>screen_y := (screen_y st)(cur_terminal st - 1 := 0), screen_x := (screen_x st)(cur_terminal st - 1 := 0)\<rparr>)"
  have "clear st = (if process_id (current_pcb s) \<in> {1, 2, 3} then putc_all [51, 57, 49, 79, 83, 62, 32] 1 s else Inr s)"
    by (simp add: clear_def Let_def s_def)
  then have "s = t \<or> putc_all [51, 57, 49, 79, 83, 62, 32] 1 s = Inr t" using assms by (auto split: if_splits)
  moreover have "cursor_only st s" unfolding s_def by (rule update_cursor_only) simp
  ultimately show ?thesis using putc_all_cursor_only cursor_only_trans by blast
qed

text \<open>Another loader, or information that has both symbol tables: \<open>entry\<close> returns.\<close>

lemma magic_text:
  "printed Map.empty (boot_text Invalid_magic) None [v] = Some (ascii ''Invalid magic number: 0x'' @ word_text True 120 v @ [10])"
proof -
  have f: "boot_text Invalid_magic = [73, 110, 118, 97, 108, 105, 100, 32, 109, 97, 103, 105, 99, 32, 110, 117, 109, 98, 101, 114,
      58, 32, 48, 120, 37, 35, 120, 10]" by code_simp
  have o: "ascii ''Invalid magic number: 0x'' = [73, 110, 118, 97, 108, 105, 100, 32, 109, 97, 103, 105, 99, 32, 110, 117, 109,
      98, 101, 114, 58, 32, 48, 120]" by code_simp
  show ?thesis unfolding f o by (simp add: converted_def)
qed

lemma report_rejects:
  assumes "cur_process_local s = Inr 1" "cur_terminal s = 0" "on_screen 0 s" "boot_texts l (vmem s)"
    and "magic \<noteq> 0x2BADB002"
  obtains s1 s2 t where "report l magic mbi s = Inr (t, False)" "touched l s t" "clear s = Inr s1"
    "putc_all (ascii ''Invalid magic number: 0x'' @ word_text True 120 magic @ [10]) 0 s1 = Inr s2"
    "agrees (at_boot_buf l) 64 s2 t" "cursor_only s t"
proof -
  obtain s1 where s1: "clear s = Inr s1" "same_kernel s s1" "on_screen 0 s1"
    "\<And>a. \<not> inside 0xB8000 4000 a \<Longrightarrow> vmem s1 a = vmem s a"
    using clear_returns [OF assms(1)] assms(2,3) by (auto simp: on_screen_def)
  have "inside (page_base True 1) 4000 a \<Longrightarrow> inside 0xB8000 8192 a" for a by (rule in_pages)
  then have t1: "touched l s s1" using s1 by (auto simp: touched_def page_base_def)
  have ok: "output_ok 1 False s1"
    using assms(1,2) s1(3) cur_process_local_same [OF s1(2)] same_kernel_eqs(3) [OF s1(2)] by (simp add: output_ok_def)
  note msgs = boot_texts_msgs [OF boot_texts_touched [OF assms(4) t1], of False]
  obtain u where u: "say l Invalid_magic [magic] s1 = Inr u" "said l 1 False s1 u"
    using say_plain [OF said_refl [OF ok] msgs, of Invalid_magic "[magic]"] by auto
  have tx: "apart (page_base False 1) 4000 (at_boot_buf l) 64"
    "texts_ok (vmem s1) (page_base False 1) (at_boot_buf l) [at_msg l Invalid_magic \<mapsto> boot_text Invalid_magic]"
    using msgs unfolding msgs_ok_def by blast+
  define line where "line = ascii ''Invalid magic number: 0x'' @ word_text True 120 magic @ [10]"
  let ?d = "fold (display 1 False) line s1"
  have a: "agrees (at_boot_buf l) 64 ?d u"
  proof (rule printf_displays [OF magic_text [of magic, folded line_def] ok tx texts_ok_empty])
    fix v assume v: "printf (at_boot_buf l) (at_msg l Invalid_magic) [magic] s1 =
      Inr (v, of_nat (length (boot_text Invalid_magic)))" "agrees (at_boot_buf l) 64 ?d v"
    have "v = u" using v(1) u(1) by (simp only: say_def andthen_Inr split_conv sum.inject)
    then show ?thesis using v(2) by (simp only:)
  qed
  have "out_log (set_vmem m s) = out_log s" for m and s :: "'a console_scheme" by simp
  then have "out_log u = out_log ?d" using a unfolding agrees_def by metis
  then have c: "cursor_only ?d u" by (rule cursor_only_refl)
  have p: "putc_all line 0 s1 = Inr ?d" by (rule putc_all_display [OF ok])
  have r: "report l magic mbi s = Inr (u, False)" using s1(1) u(1) assms(5) by (simp add: report_def)
  show ?thesis
    by (rule that [OF r touched_trans [OF t1 said_touched [OF u(2)]] s1(1) p [unfolded line_def] a [unfolded line_def]])
      (rule cursor_only_trans [OF clear_cursor_only [OF s1(1)] cursor_only_trans [OF putc_all_cursor_only [OF p] c]])
qed

end
