(* ===== verification/BootSetup.thy ===== *)
theory BootSetup imports Boot Switching begin

text \<open>
  What \<open>entry\<close> sets up: the descriptors of the LDT and the TSS as the processor reads them, the page tables,
  the interrupt descriptor table, the interrupt controllers.
\<close>

section \<open>Segment descriptors\<close>

definition seg_bytes :: "seg_desc \<Rightarrow> u8 list" where
  "seg_bytes d =
     [ucast (seg_lim_15_00 d), ucast (drop_bit 8 (seg_lim_15_00 d)), ucast (base_15_00 d), ucast (drop_bit 8 (base_15_00 d)),
      base_23_16 d,
      ucast (seg_type d) OR push_bit 4 (ucast (seg_sys d)) OR push_bit 5 (ucast (seg_dpl d)) OR
        push_bit 7 (ucast (seg_present d)),
      ucast (seg_lim_19_16 d) OR push_bit 4 (ucast (seg_avail d)) OR push_bit 5 (ucast (seg_reserved d)) OR
        push_bit 6 (ucast (seg_opsize d)) OR push_bit 7 (ucast (seg_granularity d)),
      base_31_24 d]"

record segment =
  s_base :: u32
  s_limit :: u32
  s_access :: u8

text \<open>A segment of bytes, in a descriptor that is present: its base, its limit and its access byte.\<close>

definition decode_segment :: "u8 list \<Rightarrow> segment option" where
  "decode_segment bs =
     (if bit (bs ! 5) 7 \<and> \<not> bit (bs ! 6) 7 then
        Some \<lparr>s_base = ucast (bs ! 2) OR push_bit 8 (ucast (bs ! 3)) OR push_bit 16 (ucast (bs ! 4)) OR
                push_bit 24 (ucast (bs ! 7)),
              s_limit = ucast (bs ! 0) OR push_bit 8 (ucast (bs ! 1)) OR push_bit 16 (ucast (bs ! 6 AND 0xF)),
              s_access = bs ! 5\<rparr>
      else None)"

lemma param_bytes:
  fixes a :: u32
  shows "(ucast (ucast (a AND 0xFFFF) :: u16) :: u8) = ucast a"
    "(ucast (drop_bit 8 (ucast (a AND 0xFFFF) :: u16)) :: u8) = ucast (drop_bit 8 a)"
    "(ucast (drop_bit 16 (a AND 0xFF0000)) :: u8) = ucast (drop_bit 16 a)"
    "(ucast (drop_bit 24 (a AND 0xFF000000)) :: u8) = ucast (drop_bit 24 a)"
proof -
  have m: "(0xFFFF :: u32) = mask 16" "(0xFF0000 :: u32) = push_bit 16 (mask 8)" "(0xFF000000 :: u32) = push_bit 24 (mask 8)"
    by (simp_all add: mask_eq_exp_minus_1 push_bit_eq_mult)
  show "(ucast (ucast (a AND 0xFFFF) :: u16) :: u8) = ucast a"
    "(ucast (drop_bit 8 (ucast (a AND 0xFFFF) :: u16)) :: u8) = ucast (drop_bit 8 a)"
    "(ucast (drop_bit 16 (a AND 0xFF0000)) :: u8) = ucast (drop_bit 16 a)"
    "(ucast (drop_bit 24 (a AND 0xFF000000)) :: u8) = ucast (drop_bit 24 a)"
    unfolding m by (rule bit_word_eqI; auto simp: bit_simps)+
qed

lemma ucast_low_byte: "(ucast (x AND 255) :: u8) = ucast (x :: u32)"
proof -
  have "(255 :: u32) = mask 8" by (simp add: mask_eq_exp_minus_1)
  show ?thesis unfolding \<open>255 = mask 8\<close> by (rule bit_word_eqI) (auto simp: bit_simps)
qed

lemma join_bytes:
  "ucast (ucast a :: u8) OR push_bit 8 (ucast (ucast (drop_bit 8 a) :: u8)) OR push_bit 16 (ucast (ucast (drop_bit 16 a) :: u8)) OR
     push_bit 24 (ucast (ucast (drop_bit 24 a) :: u8)) = (a :: u32)"
proof (rule bit_word_eqI, goal_cases)
  case (1 n)
  consider "n < 8" | "8 \<le> n" "n < 16" | "16 \<le> n" "n < 24" | "24 \<le> n" by linarith
  then show ?case using 1 by cases (auto simp: bit_simps)
qed

lemma setup_ldt_decodes:
  "decode_segment (seg_bytes (ldt_desc_ptr (setup_ldt l st))) = Some \<lparr>s_base = at_ldt l, s_limit = 31, s_access = 0x82\<rparr>"
proof -
  let ?d = "ldt_desc_ptr (setup_ldt l st)"
  have b: "take 5 (drop 2 (seg_bytes ?d)) @ [seg_bytes ?d ! 7] = [ucast (at_ldt l), ucast (drop_bit 8 (at_ldt l)),
      ucast (drop_bit 16 (at_ldt l)), 0x82, 0x40, ucast (drop_bit 24 (at_ldt l))]" "take 2 (seg_bytes ?d) = [31, 0]"
    by (simp_all add: setup_ldt_def SET_LDT_PARAMS_def Let_def seg_bytes_def param_bytes ucast_low_byte)
  then show ?thesis
    using join_bytes [of "at_ldt l"] by (simp add: decode_segment_def seg_bytes_def)
qed

lemma setup_tss_decodes:
  "decode_segment (seg_bytes (tss_desc_ptr (setup_tss l st))) = Some \<lparr>s_base = at_tss l, s_limit = 103, s_access = 0x89\<rparr>"
proof -
  let ?d = "tss_desc_ptr (setup_tss l st)"
  have b: "take 5 (drop 2 (seg_bytes ?d)) @ [seg_bytes ?d ! 7] = [ucast (at_tss l), ucast (drop_bit 8 (at_tss l)),
      ucast (drop_bit 16 (at_tss l)), 0x89, 0, ucast (drop_bit 24 (at_tss l))]" "take 2 (seg_bytes ?d) = [103, 0]"
    by (simp_all add: setup_tss_def SET_TSS_PARAMS_def Let_def seg_bytes_def param_bytes ucast_low_byte)
  then show ?thesis
    using join_bytes [of "at_tss l"] by (simp add: decode_segment_def seg_bytes_def)
qed

section \<open>Devices\<close>

text \<open>Operations on the interrupt controller and other devices: memory and the kernel's variables stay.\<close>

definition pic_same :: "'a pic_scheme \<Rightarrow> 'a pic_scheme \<Rightarrow> bool" where
  "pic_same s t \<longleftrightarrow> pic.more t = pic.more s \<and> phys t = phys s \<and> esp t = esp s"

lemma pic_same_steps:
  assumes "pic_same s t"
  shows "pic_same s (outb d q t)" "pic_same s (cli t)" "pic_same s (sti t)" "pic_same s (enable_irq n t)"
    "pic_same s (i8259_init t)"
  using assms by (simp_all add: pic_same_def outb_def cli_def sti_def enable_irq_def i8259_init_def Let_def)

lemma pic_same_devices:
  assumes "pic_same s t"
  shows "pic_same s (RTC_init r t)" "pic_same s (pit_init t)" "pic_same s (enable_cursor a b t)" "pic_same s (update_cursor x y t)"
  unfolding RTC_init_def pit_init_def enable_cursor_def update_cursor_def Let_def by (intro pic_same_steps assms)+

lemma pic_same_fields:
  fixes s t :: "'a kernel_scheme"
  assumes "pic_same s t"
  shows "pcbs t = pcbs s" "screen_x t = screen_x s" "screen_y t = screen_y s" "cur_process t = cur_process s"
    "cur_terminal t = cur_terminal s" "aux_processes t = aux_processes s" "active_processes t = active_processes s"
    "base_shell_booted_bitmask t = base_shell_booted_bitmask s" "shell_init_boot t = shell_init_boot s"
    "fs_ptrs t = fs_ptrs s" "g_boot_block t = g_boot_block s" "lit_shell t = lit_shell s" "pdt t = pdt s"
    "tss_ss0 t = tss_ss0 s" "kernel.more t = kernel.more s" "tss_esp0 t = tss_esp0 s" "pt0 t = pt0 s"
    "pt_vidmap t = pt_vidmap s" "at_pt0 t = at_pt0 s" "at_pt_vidmap t = at_pt_vidmap s" "cr0 t = cr0 s" "cr3 t = cr3 s"
    "cr4 t = cr4 s"
  using assms by (cases s, cases t, simp add: pic_same_def fs_ptrs_def)+

lemma boot_devices_fields:
  "pcbs (boot_devices l st) = pcbs st" "phys (boot_devices l st) = phys st" "esp (boot_devices l st) = esp st"
  "screen_x (boot_devices l st) = screen_x st" "screen_y (boot_devices l st) = screen_y st"
  "cur_process (boot_devices l st) = cur_process st" "cur_terminal (boot_devices l st) = 1"
  "aux_processes (boot_devices l st) = aux_processes st" "active_processes (boot_devices l st) = active_processes st"
  "base_shell_booted_bitmask (boot_devices l st) = base_shell_booted_bitmask st"
  "shell_init_boot (boot_devices l st) = shell_init_boot st" "fs_ptrs (boot_devices l st) = fs_ptrs st"
  "g_boot_block (boot_devices l st) = g_boot_block st" "lit_shell (boot_devices l st) = lit_shell st"
  "pdt (boot_devices l st) = pdt st" "tss_ss0 (boot_devices l st) = tss_ss0 st"
  "kernel.more (boot_devices l st) = kernel.more st" "tss_esp0 (boot_devices l st) = tss_esp0 st"
  "pt0 (boot_devices l st) = pt0 st" "pt_vidmap (boot_devices l st) = pt_vidmap st" "at_pt0 (boot_devices l st) = at_pt0 st"
  "at_pt_vidmap (boot_devices l st) = at_pt_vidmap st" "cr0 (boot_devices l st) = cr0 st" "cr3 (boot_devices l st) = cr3 st"
  "cr4 (boot_devices l st) = cr4 st"
proof -
  define s1 where "s1 = enable_irq 1 (i8259_init (outb 0xFF 0xA1 (outb 0xFF 0x21 st)))"
  define k where "k = (s1\<lparr>keyboard_index := (keyboard_index s1)(0 := 0, 1 := 0, 2 := 0), cur_terminal := 1,
    shift_flag := 0, caps_lock_flag := 0, ctrl_flag := 0, enter_flag := (enter_flag s1)(0 := 0, 1 := 0, 2 := 0),
    newline_flag := 0, alt_flag := 0\<rparr>)"
  have refl: "pic_same s s" for s :: "'x pic_scheme" by (simp add: pic_same_def)
  have a: "pic_same st s1" unfolding s1_def by (intro pic_same_steps refl)
  have "boot_devices l st = update_cursor 0 0 (enable_cursor (cursor_start l) (cursor_end l)
      (pit_init (RTC_init (rtc_register_b l) k)))"
    by (simp add: boot_devices_def Let_def keyboard_init_def k_def s1_def)
  then have b: "pic_same k (boot_devices l st)" by (simp only:) (intro pic_same_devices refl)
  note f = pic_same_fields [OF b]
  note g = pic_same_fields [OF a]
  have "phys (boot_devices l st) = phys k" "esp (boot_devices l st) = esp k" "phys s1 = phys st" "esp s1 = esp st"
    using a b by (simp_all add: pic_same_def)
  then show "pcbs (boot_devices l st) = pcbs st" "phys (boot_devices l st) = phys st" "esp (boot_devices l st) = esp st"
    "screen_x (boot_devices l st) = screen_x st" "screen_y (boot_devices l st) = screen_y st"
    "cur_process (boot_devices l st) = cur_process st" "cur_terminal (boot_devices l st) = 1"
    "aux_processes (boot_devices l st) = aux_processes st" "active_processes (boot_devices l st) = active_processes st"
    "base_shell_booted_bitmask (boot_devices l st) = base_shell_booted_bitmask st"
    "shell_init_boot (boot_devices l st) = shell_init_boot st" "fs_ptrs (boot_devices l st) = fs_ptrs st"
    "g_boot_block (boot_devices l st) = g_boot_block st" "lit_shell (boot_devices l st) = lit_shell st"
    "pdt (boot_devices l st) = pdt st" "tss_ss0 (boot_devices l st) = tss_ss0 st"
    "kernel.more (boot_devices l st) = kernel.more st" "tss_esp0 (boot_devices l st) = tss_esp0 st"
  "pt0 (boot_devices l st) = pt0 st" "pt_vidmap (boot_devices l st) = pt_vidmap st" "at_pt0 (boot_devices l st) = at_pt0 st"
  "at_pt_vidmap (boot_devices l st) = at_pt_vidmap st" "cr0 (boot_devices l st) = cr0 st" "cr3 (boot_devices l st) = cr3 st"
  "cr4 (boot_devices l st) = cr4 st"
    using f g by (simp_all add: k_def fs_ptrs_def)
qed

lemma boot_tables_fields:
  fixes st :: "'a boot_scheme"
  shows "pcbs (boot_tables c l st) = pcbs st" "phys (boot_tables c l st) = phys st" "esp (boot_tables c l st) = esp st"
  "screen_x (boot_tables c l st) = screen_x st" "screen_y (boot_tables c l st) = screen_y st"
  "cur_process (boot_tables c l st) = cur_process st" 
  "aux_processes (boot_tables c l st) = aux_processes st" "active_processes (boot_tables c l st) = active_processes st"
  "base_shell_booted_bitmask (boot_tables c l st) = base_shell_booted_bitmask st"
  "base_shell_live_bitmask (boot_tables c l st) = base_shell_live_bitmask st"
  "shell_init_boot (boot_tables c l st) = shell_init_boot st" "fs_ptrs (boot_tables c l st) = fs_ptrs st"
  "g_boot_block (boot_tables c l st) = g_boot_block st" "lit_shell (boot_tables c l st) = lit_shell st"
  "pdt (boot_tables c l st) = pdt (setup_kernel_paging (junk_paging l) st)" "tss_ss0 (boot_tables c l st) = 0x18"
proof -
  let ?X = "enable_paging (setup_kernel_paging (junk_paging l) (setup_tss l (setup_ldt l st)))"
  obtain i where "setup_IDT (linkage c) (junk_gate l) ?X = ?X\<lparr>idt := i\<rparr>" using setup_IDT_only by blast
  then have i: "boot_tables c l st = ?X\<lparr>idt := i\<rparr>" by (simp add: boot_tables_def)
  note d = i setup_tss_def setup_ldt_def enable_paging_def enable_paging_bit_def Let_def
    load_page_directory_def setup_kernel_paging_def write_pdt_def write_pt0_def fs_ptrs_def
  show "pcbs (boot_tables c l st) = pcbs st" "phys (boot_tables c l st) = phys st" "esp (boot_tables c l st) = esp st"
  "screen_x (boot_tables c l st) = screen_x st" "screen_y (boot_tables c l st) = screen_y st"
  "cur_process (boot_tables c l st) = cur_process st" 
  "aux_processes (boot_tables c l st) = aux_processes st" "active_processes (boot_tables c l st) = active_processes st"
  "base_shell_booted_bitmask (boot_tables c l st) = base_shell_booted_bitmask st"
  "base_shell_live_bitmask (boot_tables c l st) = base_shell_live_bitmask st"
  "shell_init_boot (boot_tables c l st) = shell_init_boot st" "fs_ptrs (boot_tables c l st) = fs_ptrs st"
  "g_boot_block (boot_tables c l st) = g_boot_block st" "lit_shell (boot_tables c l st) = lit_shell st"
  "pdt (boot_tables c l st) = pdt (setup_kernel_paging (junk_paging l) st)" "tss_ss0 (boot_tables c l st) = 0x18"
    by (simp_all add: d)
qed
lemma boot_tables_tables:
  "ldt_desc_ptr (boot_tables c l st) = ldt_desc_ptr (setup_ldt l st)" "tss_desc_ptr (boot_tables c l st) = tss_desc_ptr (setup_tss l st)"
  "ldtr (boot_tables c l st) = 0x38" "tr (boot_tables c l st) = 0x30" "tss_esp0 (boot_tables c l st) = 0x800000"
  "pt0 (boot_tables c l st) = pt0 (setup_kernel_paging (junk_paging l) st)"
  "pt_vidmap (boot_tables c l st) = pt_vidmap (setup_kernel_paging (junk_paging l) st)"
  "at_pt0 (boot_tables c l st) = at_pt0 (setup_kernel_paging (junk_paging l) st)"
  "at_pt_vidmap (boot_tables c l st) = at_pt_vidmap (setup_kernel_paging (junk_paging l) st)"
  "decode_gate (desc_bytes (idt (boot_tables c l st) v)) =
     (case gate_table (linkage c) v of None \<Rightarrow> decode_gate (desc_bytes (idt st v)) | Some g \<Rightarrow> Some g)"
  "master_mask (boot_tables c l st) = master_mask st" "slave_mask (boot_tables c l st) = slave_mask st"
  "cr3 (boot_tables c l st) = at_pdt st" "bit (cr0 (boot_tables c l st)) 31" "bit (cr4 (boot_tables c l st)) 4"
proof -
  let ?X = "enable_paging (setup_kernel_paging (junk_paging l) (setup_tss l (setup_ldt l st)))"
  obtain i where "setup_IDT (linkage c) (junk_gate l) ?X = ?X\<lparr>idt := i\<rparr>" using setup_IDT_only by blast
  then have i: "boot_tables c l st = ?X\<lparr>idt := i\<rparr>" by (simp add: boot_tables_def)
  note d = i setup_tss_def setup_ldt_def enable_paging_def enable_paging_bit_def Let_def
    load_page_directory_def setup_kernel_paging_def write_pdt_def write_pt0_def
  show "ldt_desc_ptr (boot_tables c l st) = ldt_desc_ptr (setup_ldt l st)"
    "tss_desc_ptr (boot_tables c l st) = tss_desc_ptr (setup_tss l st)"
    "ldtr (boot_tables c l st) = 0x38" "tr (boot_tables c l st) = 0x30" "tss_esp0 (boot_tables c l st) = 0x800000"
    "pt0 (boot_tables c l st) = pt0 (setup_kernel_paging (junk_paging l) st)"
    "pt_vidmap (boot_tables c l st) = pt_vidmap (setup_kernel_paging (junk_paging l) st)"
    "at_pt0 (boot_tables c l st) = at_pt0 (setup_kernel_paging (junk_paging l) st)"
    "at_pt_vidmap (boot_tables c l st) = at_pt_vidmap (setup_kernel_paging (junk_paging l) st)"
    "master_mask (boot_tables c l st) = master_mask st" "slave_mask (boot_tables c l st) = slave_mask st"
    "cr3 (boot_tables c l st) = at_pdt st" "bit (cr0 (boot_tables c l st)) 31" "bit (cr4 (boot_tables c l st)) 4"
    by (simp_all add: d bit_simps)
  have "idt ?X = idt st" by (simp add: d(2-))
  then show "decode_gate (desc_bytes (idt (boot_tables c l st) v)) =
     (case gate_table (linkage c) v of None \<Rightarrow> decode_gate (desc_bytes (idt st v)) | Some g \<Rightarrow> Some g)"
    by (simp only: boot_tables_def Let_def setup_IDT_gate)
qed

lemma more_boot:
  fixes s t :: "'a boot_scheme"
  assumes "kernel.more t = kernel.more s"
  shows "idt t = idt s" "cs_reg t = cs_reg s" "ldt_desc_ptr t = ldt_desc_ptr s" "tss_desc_ptr t = tss_desc_ptr s" "ldtr t = ldtr s" "tr t = tr s"
  using assms by (cases s, cases t, simp)+

lemma boot_devices_masks:
  assumes "master_mask st = 0xFF" "slave_mask st = 0xFF" "j < 16"
  shows "irq_masked j (boot_devices l st) \<longleftrightarrow> j \<notin> {0, 1, 2, 8}" "pic_synced (boot_devices l st)"
proof -
  have m: "irq_masked j (outb d q s) = irq_masked j s" "irq_masked j (cli s) = irq_masked j s" "irq_masked j (sti s) = irq_masked j s"
    for d q and s :: "'x pic_scheme" by (simp_all add: irq_masked_def outb_def cli_def sti_def)
  have k: "irq_masked j (keyboard_init s) \<longleftrightarrow> irq_masked j s \<and> j \<noteq> 1" for s :: "'x kbd_scheme"
    using irq_masked_enable [of 1 j s] assms(3) by (auto simp: keyboard_init_def Let_def irq_masked_def)
  have "(0xFF :: u8) = mask 8" by (simp add: mask_eq_exp_minus_1)
  then have "bit (0xFF :: u8) i" if "i < 8" for i using that by (simp only: bit_mask_iff) simp
  then have "irq_masked j st" using assms by (cases "8 \<le> j") (simp_all add: irq_masked_def)
  then show "irq_masked j (boot_devices l st) \<longleftrightarrow> j \<notin> {0, 1, 2, 8}"
    using assms(3) by (auto simp: boot_devices_def Let_def RTC_init_def pit_init_def enable_cursor_def update_cursor_def m k
      irq_masked_enable irq_masked_init)
  have s: "pic_synced s \<Longrightarrow> pic_synced (keyboard_init s)" for s :: "'x kbd_scheme"
    using pic_synced_ops(1) [of s 1] by (simp add: keyboard_init_def Let_def) (simp add: pic_synced_def)
  have o: "pic_synced s \<Longrightarrow> q \<noteq> 0x21 \<Longrightarrow> q \<noteq> 0xA1 \<Longrightarrow> pic_synced (outb d q s)" "pic_synced (cli s) = pic_synced s"
    "pic_synced (sti s) = pic_synced s" for d q and s :: "'x pic_scheme"
    by (simp_all add: pic_synced_def) (simp_all add: outb_def cli_def sti_def)
  show "pic_synced (boot_devices l st)"
    unfolding boot_devices_def Let_def RTC_init_def pit_init_def enable_cursor_def update_cursor_def o
    by (intro o(1) pic_synced_ops s) (simp_all add: o pic_synced_ops s)
qed

end
