(* ===== verification/Booting.thy ===== *)
theory Booting imports Processes begin

text \<open>
  Base shells: how \<open>execute\<close> starts the first shell of a terminal, when the kernel boots or the user
  selects a terminal for the first time, and how it starts one again that has ended.
\<close>

section \<open>The command is the shell\<close>

definition shell_name :: "u8 list" where
  "shell_name = [115, 104, 101, 108, 108]"

text \<open>The command is the literal that \<open>execute\<close> compares its first word with.\<close>

definition shell_command :: "execute_locals \<Rightarrow> u8 list \<Rightarrow> 'a kernel_scheme \<Rightarrow> bool" where
  "shell_command l command st \<longleftrightarrow> command_word command = shell_name \<and> cstring (vmem st) (lit_shell st) shell_name \<and>
     apart (at_file_name l) 32 (lit_shell st) 6 \<and> apart (at_file_metadata l) 28 (lit_shell st) 6"

lemma shell_name_facts: "length shell_name = 5" "0 \<notin> set shell_name"
  by (simp_all add: shell_name_def)

lemma cstring_shell: "cstring m a shell_name \<longleftrightarrow> bytes m a 6 = shell_name @ [0]"
proof -
  have "bytes m (a + 5) 1 = [m (a + 5)]" by (simp add: bytes_Suc)
  then have "bytes m a 6 = bytes m a 5 @ [m (a + 5)]" using bytes_add [of m a 5 1] by simp
  then show ?thesis using shell_name_facts by (auto simp: cstring_def)
qed

lemma field_string_cstring5:
  assumes "cstring m s shell_name"
  shows "field_string m s 5 = shell_name"
proof -
  have "bytes m s 5 = shell_name" "0 \<notin> set shell_name" using assms shell_name_facts by (simp_all add: cstring_def)
  then show ?thesis by (metis (mono_tags, lifting) field_string_def takeWhile_eq_all_conv)
qed

lemma shell_compares:
  assumes "shell_command l command st" "apart (at_file_name l) 32 (at_file_metadata l) 28" "length xs \<le> 28"
  shows "strncmp (write_bytes (write_bytes (vmem st) (at_file_name l) (command_word command @ [0]))
    (at_file_metadata l) xs) (at_file_name l) (lit_shell st) 5 = 0"
proof -
  let ?m1 = "write_bytes (vmem st) (at_file_name l) (shell_name @ [0])"
  let ?m2 = "write_bytes ?m1 (at_file_metadata l) xs"
  have s: "cstring (vmem st) (lit_shell st) shell_name" "command_word command = shell_name"
    "apart (at_file_name l) 32 (lit_shell st) 6" "apart (at_file_metadata l) 28 (lit_shell st) 6"
    using assms(1) by (simp_all add: shell_command_def)
  have l6: "length (shell_name @ [0]) = 6" by (simp add: shell_name_def)
  have keep: "bytes ?m2 a 6 = bytes ?m1 a 6" if "apart (at_file_metadata l) 28 a 6" for a
    using apart_shorten [OF that assms(3)] assms(3) by (intro bytes_write_apart) simp_all
  have "bytes ?m1 (lit_shell st) 6 = bytes (vmem st) (lit_shell st) 6"
    using apart_shorten [OF s(3), of 6] l6 by (intro bytes_write_apart) simp_all
  then have "cstring ?m2 (lit_shell st) shell_name" using s(1) keep [OF s(4)] by (simp add: cstring_shell)
  moreover have "apart (at_file_metadata l) 28 (at_file_name l) 6"
    using apart_sub [OF assms(2), of 0 6] by (simp add: apart_sym)
  then have "bytes ?m2 (at_file_name l) 6 = bytes ?m1 (at_file_name l) 6" by (rule keep)
  then have "cstring ?m2 (at_file_name l) shell_name"
    using bytes_write_same [of "shell_name @ [0]" 6 "vmem st" "at_file_name l"] l6 by (simp add: cstring_shell)
  ultimately show ?thesis
    using field_string_cstring5 by (simp add: s(2) strncmp_zero_iff)
qed

section \<open>A terminal that has no shell\<close>

text \<open>The invariant between setting \<open>shell_init_boot\<close> to terminal \<open>t\<close> and starting its shell.\<close>

definition boot_inv :: "(int \<Rightarrow> int list) \<Rightarrow> int \<Rightarrow> 'a proc_scheme \<Rightarrow> bool" where
  "boot_inv threads t st \<longleftrightarrow> t \<in> {1, 2, 3} \<and> shell_init_boot st = t \<and>
     \<not> bit (base_shell_booted_bitmask st) (nat (t - 1)) \<and> (t = 1 \<or> bit (base_shell_booted_bitmask st) 0) \<and>
     list_all (\<lambda>u. if bit (base_shell_booted_bitmask st) (nat (u - 1))
       then threads u \<noteq> [] \<and> hd (threads u) = u \<and> chain (pcbs st) (threads u) else threads u = []) [1, 2, 3] \<and>
     distinct (all_procs threads) \<and> list_all (\<lambda>u. list_all (\<lambda>p. 4 \<le> p) (tl (threads u))) [1, 2, 3] \<and>
     list_all (\<lambda>i. active_processes st i = 0 \<longleftrightarrow> i + 1 \<notin> set (all_procs threads)) [3, 4, 5] \<and>
     aux_processes st = int (length (secondaries threads))"

lemma chain_one:
  assumes "process_id (h (pcb_at t)) = t" "child_pcb (h (pcb_at t)) = 0" "parent_pcb (h (pcb_at t)) = 0" "1 \<le> t" "t \<le> 6"
  shows "chain h [t]"
  using assms by (simp add: chain_def)

lemma boot_mask:
  assumes "1 \<le> t" "t \<le> (3 :: int)" "u \<in> {1, 2, 3}"
  shows "bit (b OR push_bit (nat (t - 1)) 1 :: u8) (nat (u - 1)) \<longleftrightarrow> bit b (nat (u - 1)) \<or> u = t"
proof -
  have "t = 1 \<or> t = 2 \<or> t = 3" using assms by linarith
  then show ?thesis using assms(3) by (auto simp: bit_simps)
qed

lemma booted_bit: "u \<in> {1, 2, 3} \<Longrightarrow> bit b 0 \<Longrightarrow> booted_terminal b u = bit b (nat (u - 1))"
  by (auto simp: booted_terminal_def)

lemma boot_inv_facts:
  assumes "boot_inv threads t st" "u \<in> {1, 2, 3}"
  shows "1 \<le> t" "t \<le> 3" "if bit (base_shell_booted_bitmask st) (nat (u - 1))
      then threads u \<noteq> [] \<and> hd (threads u) = u \<and> chain (pcbs st) (threads u) else threads u = []"
    "threads t = []" "t \<notin> set (all_procs threads)" "r \<in> set (threads u) \<Longrightarrow> 1 \<le> r \<and> r \<le> 6"
proof -
  show t: "1 \<le> t" "t \<le> 3" using assms(1) by (auto simp: boot_inv_def)
  have c: "if bit (base_shell_booted_bitmask st) (nat (v - 1))
      then threads v \<noteq> [] \<and> hd (threads v) = v \<and> chain (pcbs st) (threads v) else threads v = []" if "v \<in> {1, 2, 3}" for v
    using assms(1) that by (auto simp: boot_inv_def)
  show "if bit (base_shell_booted_bitmask st) (nat (u - 1))
      then threads u \<noteq> [] \<and> hd (threads u) = u \<and> chain (pcbs st) (threads u) else threads u = []" by (rule c [OF assms(2)])
  have tt: "t \<in> {1, 2, 3}" using assms(1) by (simp add: boot_inv_def)
  show e: "threads t = []" using c [OF tt] assms(1) by (simp add: boot_inv_def)
  have "t \<notin> set (threads v)" if v: "v \<in> {1, 2, 3}" for v
  proof
    assume in_v: "t \<in> set (threads v)"
    then have "threads v \<noteq> []" by auto
    then have h: "hd (threads v) = v" using c [OF v] by (simp split: if_splits)
    have "t \<noteq> v" using e in_v by auto
    then have "t \<in> set (tl (threads v))" using in_v h \<open>threads v \<noteq> []\<close> by (cases "threads v") auto
    then show False using assms(1) v t by (auto simp: boot_inv_def list_all_iff)
  qed
  then show "t \<notin> set (all_procs threads)" by (simp add: all_procs_def)
  show "r \<in> set (threads u) \<Longrightarrow> 1 \<le> r \<and> r \<le> 6"
    using c [OF assms(2)] chain_range [of "pcbs st" "threads u" r] by (auto split: if_splits)
qed

lemma boot_slots:
  assumes "boot_inv threads t st"
  shows "aux_processes st \<le> 3"
proof -
  have "set (secondaries threads) \<subseteq> {4, 5, 6}"
    using boot_inv_facts(6) [OF assms] by (fastforce simp: secondaries_def all_procs_def)
  moreover have "distinct (secondaries threads)" using assms by (simp add: boot_inv_def secondaries_def)
  ultimately have "length (secondaries threads) \<le> card {4, 5, 6 :: int}"
    by (metis card_mono distinct_card finite.emptyI finite.insertI)
  then show ?thesis using assms by (simp add: boot_inv_def)
qed

lemma boot_all_procs:
  assumes "t \<in> {1, 2, 3}" "threads t = []"
  shows "set (all_procs (threads(t := [t]))) = insert t (set (all_procs threads))"
    "secondaries (threads(t := [t])) = secondaries threads"
    "t \<notin> set (all_procs threads) \<Longrightarrow> distinct (all_procs threads) \<Longrightarrow> distinct (all_procs (threads(t := [t])))"
  using assms by (auto simp: all_procs_def secondaries_def)

text \<open>\<open>execute\<close> of the shell for a terminal that has none.\<close>

lemma execute_boots:
  fixes st :: "'a kernel_scheme" and cu :: addr and d :: dir_entry
  defines "command \<equiv> bytes (vmem st) cu 128" and "file \<equiv> file_bytes (vmem st) (fs_ptrs st) (inode_num d)"
  assumes "boot_inv threads t st" "can_load l command d st" "shell_command l command st" "low_direct st"
    and "cur_process st = t" "0 < n" "n \<le> 8192"
  obtains st' frame where "execute l cu st = Inr (st', To_user frame)"
    "proc_inv (threads(t := [t])) (enter_kernel n st')" "process_mapped st' t" "cur_process st' = t"
    "frame = \<lparr>uf_ss = 0x2B, uf_esp = 0x8400000 - 4, uf_eflags = 0x202, uf_cs = 0x23, uf_eip = uf_eip frame\<rparr>"
    "bytes_of32 (uf_eip frame) = take 4 (drop 24 file)" "bytes (vmem st') 0x08048000 (length file) = file"
    "\<And>r. r \<in> set (all_procs threads) \<Longrightarrow> sched_ebp (pcbs st' (pcb_at r)) = sched_ebp (pcbs st (pcb_at r))"
    "base_shell_booted_bitmask st' = base_shell_booted_bitmask st OR push_bit (nat (t - 1)) 1"
    "kernel.more st' = kernel.more st" "tss_ss0 st' = tss_ss0 st"
    "\<And>a. drop_bit 22 a = 1 \<Longrightarrow> \<not> inside (at_file_name l) 32 a \<Longrightarrow> \<not> inside (at_file_metadata l) 28 a \<Longrightarrow>
      vmem st' a = vmem st a"
proof -
  let ?b = "base_shell_booted_bitmask st" and ?th = "threads(t := [t])" and ?c = "current_pcb_addr st"
  define B where "B = ?b OR push_bit (nat (t - 1)) 1"
  have bt: "shell_init_boot st = t" "t \<in> {1, 2, 3}" "distinct (all_procs threads)" "t = 1 \<or> bit ?b 0"
    using assms(3) by (simp_all add: boot_inv_def)
  note t = boot_inv_facts(1,2,4,5) [OF assms(3), of 1, simplified] and ap = boot_all_procs [of t threads]
  define s1 where "s1 = set_vmem (write_bytes (write_bytes (vmem st) (at_file_name l) (command_word command @ [0]))
    (at_file_metadata l) (take 28 file)) (cli (st\<lparr>ebp := frame_pointer l\<rparr>))"
  have f1: "active_processes s1 = active_processes st" "aux_processes s1 = aux_processes st"
    "base_shell_booted_bitmask s1 = ?b" "shell_init_boot s1 = t" "lit_shell s1 = lit_shell st"
    by (simp_all add: s1_def bt(1))
  have "apart (at_file_name l) 32 (at_file_metadata l) 28" using assms(4) by (simp add: can_load_def locals_ok_def)
  then have "strncmp (vmem s1) (at_file_name l) (lit_shell st) 5 = 0"
    using shell_compares [OF assms(5), of "take 28 file"] by (simp add: s1_def)
  then have choose: "choose_process (strncmp (vmem s1) (at_file_name l) (lit_shell st) 5 = 0) (junk_pid l) s1 =
      (s1\<lparr>active_processes := (active_processes st)(t - 1 := 1), aux_processes := aux_processes st,
         base_shell_live_bitmask := B, base_shell_booted_bitmask := B, shell_init_boot := 0\<rparr>, t, True)"
    using t by (simp add: choose_process_def Let_def f1 B_def)
  obtain st' frame where x: "execute l cu st = Inr (st', To_user frame)"
    "frame = \<lparr>uf_ss = 0x2B, uf_esp = 0x8400000 - 4, uf_eflags = 0x202, uf_cs = 0x23, uf_eip = uf_eip frame\<rparr>"
    "bytes_of32 (uf_eip frame) = take 4 (drop 24 file)"
    "pcbs st' = (let h = (pcbs st)(?c := pcbs st ?c, pcb_at t := new_block (pcbs st (pcb_at t)) t 0 (command_word command)
        (command_args command)) in h(?c := (h ?c)\<lparr>pcb_ebp := frame_pointer l\<rparr>))"
    "process_mapped st' t" "tss_esp0 st' = kernel_stack_top t" "bytes (vmem st') 0x08048000 (length file) = file"
    "active_processes st' = (active_processes st)(t - 1 := 1)" "aux_processes st' = aux_processes st"
    "base_shell_live_bitmask st' = B" "base_shell_booted_bitmask st' = B" "shell_init_boot st' = 0"
    "cur_process st' = cur_process st" "int_flag st'" "kernel.more st' = kernel.more st" "tss_ss0 st' = tss_ss0 st"
    "\<And>a. drop_bit 22 a = 1 \<Longrightarrow> \<not> inside (at_file_name l) 32 a \<Longrightarrow> \<not> inside (at_file_metadata l) 28 a \<Longrightarrow>
      vmem st' a = vmem st a"
    by (rule execute_core [OF assms(4) [unfolded command_def] assms(6) choose [unfolded s1_def command_def file_def]
        boot_slots [OF assms(3)]]) (use t that in \<open>simp_all add: command_def file_def\<close>)
  have blk: "process_id (pcbs st' (pcb_at t)) = t" "child_pcb (pcbs st' (pcb_at t)) = 0" "parent_pcb (pcbs st' (pcb_at t)) = 0"
    by (auto simp: x(4) Let_def new_block_def)
  have old: "process_id (pcbs st' (pcb_at r)) = process_id (pcbs st (pcb_at r)) \<and>
      child_pcb (pcbs st' (pcb_at r)) = child_pcb (pcbs st (pcb_at r)) \<and>
      parent_pcb (pcbs st' (pcb_at r)) = parent_pcb (pcbs st (pcb_at r)) \<and>
      sched_ebp (pcbs st' (pcb_at r)) = sched_ebp (pcbs st (pcb_at r))" if "1 \<le> r" "r \<le> 6" "r \<noteq> t" for r
    using that t by (auto simp: x(4) Let_def pcb_at_eq)
  have "threads_ok (pcbs st') B ?th"
    unfolding threads_ok_iff
  proof (intro conjI ballI)
    show "bit B 0" using bt(2,4) by (auto simp: B_def bit_simps)
    show "distinct (all_procs ?th)" using ap(3) bt(2,3) t by simp
    fix u :: int assume u: "u \<in> {1, 2, 3}"
    have bu: "booted_terminal B u \<longleftrightarrow> bit ?b (nat (u - 1)) \<or> u = t"
      using booted_bit [OF u \<open>bit B 0\<close>] boot_mask [OF t(1,2) u] by (simp add: B_def)
    show "if booted_terminal B u then ?th u \<noteq> [] \<and> hd (?th u) = u \<and> chain (pcbs st') (?th u) else ?th u = []"
    proof (cases "u = t")
      case True
      then show ?thesis using bu chain_one [of "pcbs st'" t] blk t by simp
    next
      case False
      note fu = boot_inv_facts(3) [OF assms(3) u]
      have "chain (pcbs st') (threads u)" if c: "chain (pcbs st) (threads u)"
      proof -
        have "r \<noteq> t" if "r \<in> set (threads u)" for r using t(4) that u by (auto simp: all_procs_def)
        then show ?thesis using c chain_cong [of "threads u" "pcbs st'" "pcbs st"] old chain_range [OF c] by metis
      qed
      then show ?thesis using fu bu False by (simp split: if_splits)
    qed
  qed
  moreover have "table_ok ?th st'"
  proof -
    have "list_all (\<lambda>i. active_processes st' i = 0 \<longleftrightarrow> i + 1 \<notin> set (all_procs ?th)) [3, 4, 5]"
      using assms(3) ap(1) bt(2) t by (auto simp: boot_inv_def x(8))
    moreover have "list_all (\<lambda>u. list_all (\<lambda>p. 4 \<le> p) (tl (?th u))) [1, 2, 3]"
      using assms(3) by (simp add: boot_inv_def)
    ultimately show ?thesis using assms(3) ap(2) bt(2) t by (simp add: table_ok_def x(9-12) boot_inv_def)
  qed
  moreover have "booted_terminal B t" using bt(2,4) by (auto simp: booted_terminal_def B_def bit_simps)
  moreover have "running (enter_kernel n st') t"
    using x(5,6) blk(1) t assms(8,9) by (intro running_enter_kernel) simp_all
  ultimately have "proc_inv ?th (enter_kernel n st')"
    using assms(7) x(11,13) by (simp add: proc_inv_def enter_kernel_def table_ok_def)
  moreover have "sched_ebp (pcbs st' (pcb_at r)) = sched_ebp (pcbs st (pcb_at r))" if "r \<in> set (all_procs threads)" for r
  proof -
    have "r \<in> set (threads 1) \<or> r \<in> set (threads 2) \<or> r \<in> set (threads 3)" using that by (simp add: all_procs_def)
    then obtain u where "u \<in> {1, 2, 3}" "r \<in> set (threads u)" by blast
    then show ?thesis using old boot_inv_facts(6) [OF assms(3)] t(4) that by metis
  qed
  ultimately show ?thesis using x assms(7) by (intro that [of st' frame]) (simp_all add: B_def)
qed

end
