(* ===== verification/BootStart.thy ===== *)
theory BootStart imports BootReport BootSetup Booting CallProps begin

text \<open>
  From the boot loader to the first shell: the whole way through \<^verbatim>\<open>_start\<close> and \<open>entry\<close>.
\<close>

section \<open>Before the start\<close>

text \<open>The kernel's variables as the image has them, and what the start needs of memory.\<close>

definition initial_kernel :: "'a boot_scheme \<Rightarrow> bool" where
  "initial_kernel st \<longleftrightarrow> base_shell_booted_bitmask st = 0 \<and> shell_init_boot st = 1 \<and> aux_processes st = 0 \<and>
     list_all (\<lambda>i. active_processes st i = 0) [3, 4, 5] \<and> cur_process st = 1 \<and> cur_terminal st = 0 \<and>
     screen_x st 0 = 0 \<and> screen_y st 0 = 0 \<and> pdt st 32 = 0 \<and> (\<forall>v < 256. decode_gate (desc_bytes (idt st v)) = None)"

definition ready_to_boot :: "boot_locals \<Rightarrow> addr \<Rightarrow> u8 list \<Rightarrow> nat \<Rightarrow> dir_entry \<Rightarrow> 'a boot_scheme \<Rightarrow> bool" where
  "ready_to_boot l mbi cmd n d st \<longleftrightarrow> initial_kernel st \<and> boot_texts l (vmem st) \<and> multiboot_ok l mbi cmd n (vmem st) \<and>
     (let fs = fileSystem_init (first_module mbi (vmem st)) st; command = bytes (vmem st) (at_shell_name l) 128 in
        can_load (boot_execute l) command d fs \<and> shell_command (boot_execute l) command fs \<and>
        undisturbed l (g_boot_block fs) (fs_length (vmem st) (g_boot_block fs)) \<and>
        undisturbed l (at_shell_name l) 128 \<and> undisturbed l (lit_shell st) 6)"

definition boot_threads :: "int \<Rightarrow> int list" where
  "boot_threads = (\<lambda>_. [])(1 := [1])"

text \<open>The state \<open>entry\<close> starts in.\<close>

definition entered :: "boot_locals \<Rightarrow> 'a boot_scheme \<Rightarrow> 'a boot_scheme" where
  "entered l st = c_enter (size_entry l)
     (pushes [ebx st, eax st, ret_start l] ((cli st)\<lparr>cs_reg := 0x10, esp := 0x800000, ecx := put_bits 0 16 0x18 (ecx st), ss_reg := 0x18\<rparr>))"

lemma eax_push: "eax (push v st) = eax st"
  by (simp add: push_def Let_def)

lemma start_entered: "start c l st = entry_point c l (eax st) (ebx st) (entered l st)"
proof -
  define b where "b = (cli st)\<lparr>cs_reg := 0x10, esp := 0x800000, ecx := put_bits 0 16 0x18 (ecx st), ss_reg := 0x18\<rparr>"
  have r: "ebx b = ebx st" "eax b = eax st" "esp b = 0x800000" by (simp_all add: b_def cli_def)
  define vs where "vs = [ebx st, eax st, ret_start l, ebp (pushes [ebx st, eax st, ret_start l] b)]"
  have e: "vmem (entered l st) = vmem (pushes vs b)" "ebp (entered l st) = 0x800000 - 16"
    by (simp_all add: entered_def b_def [symmetric] vmem_c_enter vs_def pushes_simps r)
  have "stack_at (vmem (pushes vs b)) (esp b - 4 * of_nat (length vs)) (rev vs @ [])"
    by (rule stack_pushes) (simp_all add: vs_def)
  then have "read32 (vmem (entered l st)) (ebp (entered l st) + 8) = eax st"
    "read32 (vmem (entered l st)) (ebp (entered l st) + 12) = ebx st"
    by (simp_all add: e r vs_def add.assoc)
  moreover have "start c l st = entry_point c l (read32 (vmem (entered l st)) (ebp (entered l st) + 8))
      (read32 (vmem (entered l st)) (ebp (entered l st) + 12)) (entered l st)"
    by (simp add: start_def Let_def entered_def pushes_simps eax_push) (simp add: cli_def)
  ultimately show ?thesis by simp
qed

lemma entered_fields:
  "pcbs (entered l st) = pcbs st" "pdt (entered l st) = pdt st" "idt (entered l st) = idt st" "\<not> int_flag (entered l st)"
  "base_shell_booted_bitmask (entered l st) = base_shell_booted_bitmask st" "out_log (entered l st) = out_log st"
  "master_mask (entered l st) = master_mask st" "slave_mask (entered l st) = slave_mask st" "pt0 (entered l st) = pt0 st"
  by (simp_all add: entered_def c_enter_def pushes_simps push_def Let_def cli_def)

lemma push_keeps:
  "ldt_desc_ptr (push v s) = ldt_desc_ptr s" "tss_desc_ptr (push v s) = tss_desc_ptr s" "ldtr (push v s) = ldtr s"
  "tr (push v s) = tr s" "cr0 (push v s) = cr0 s" "cr3 (push v s) = cr3 s" "cr4 (push v s) = cr4 s"
  by (simp_all add: push_def set_vmem_def Let_def)

lemma entered_registers:
  "ldt_desc_ptr (entered l st) = ldt_desc_ptr st" "tss_desc_ptr (entered l st) = tss_desc_ptr st"
  "ldtr (entered l st) = ldtr st" "tr (entered l st) = tr st"
  "cr0 (entered l st) = cr0 st" "cr3 (entered l st) = cr3 st" "cr4 (entered l st) = cr4 st"
  by (simp_all add: entered_def c_enter_def pushes_simps push_keeps Let_def cli_def)

lemma initial_entered: "initial_kernel (entered l st) = initial_kernel st"
  by (simp add: initial_kernel_def entered_def c_enter_def pushes_simps push_def Let_def cli_def)

text \<open>Besides the words that \<open>_start\<close> and \<open>entry\<close> push, memory is as the boot loader left it.\<close>

lemma entered_outside:
  assumes "apart 0x7FFFF0 16 a n" "n \<le> 4294967296"
  shows "bytes (vmem (entered l st)) a n = bytes (vmem st) a n"
proof -
  define b where "b = (cli st)\<lparr>cs_reg := 0x10, esp := 0x800000, ecx := put_bits 0 16 0x18 (ecx st), ss_reg := 0x18\<rparr>"
  define vs where "vs = [ebx st, eax st, ret_start l, ebp (pushes [ebx st, eax st, ret_start l] b)]"
  have e: "vmem (entered l st) = vmem (pushes vs b)"
    by (simp add: entered_def b_def [symmetric] vmem_c_enter vs_def pushes_simps)
  have "bytes (vmem (pushes vs b)) a n = bytes (vmem b) a n"
    by (rule pushes_outside) (use assms in \<open>simp_all add: vs_def b_def cli_def\<close>)
  moreover have "vmem b = vmem st" by (simp add: b_def cli_def vmem_def remap_def user_mapped_def)
  ultimately show ?thesis by (simp add: e)
qed

section \<open>After the report\<close>

lemma vmem_setup: "pdt st 32 = 0 \<Longrightarrow> vmem (boot_setup c l st) = vmem st"
  by (simp add: boot_setup_def vmem_def remap_def user_mapped_def boot_devices_fields boot_tables_fields
    setup_kernel_paging_def write_pdt_def write_pt0_def Let_def)

lemma pdt_setup: "pdt (boot_setup c l st) 32 = pdt st 32"
  by (simp add: boot_setup_def boot_devices_fields boot_tables_fields setup_kernel_paging_def write_pdt_def write_pt0_def Let_def)

text \<open>The last message and the cleared screen, up to the call of \<open>execute\<close>.\<close>

lemma boot_to_execute:
  assumes "base_shell_booted_bitmask t = 0" "on_screen 0 t" "pdt t 32 = 0" "boot_texts l (vmem t)"
  shows "\<exists>w. touched l (boot_setup c l t) w \<and> boot_kernel c l t =
    andthen (only_to_user (execute (boot_execute l) (at_shell_name l) w)) (\<lambda>(st, out).
      Inr (st, case out of To_user frame \<Rightarrow> Some frame | _ \<Rightarrow> None))"
proof -
  define u where "u = boot_setup c l t"
  have f: "base_shell_booted_bitmask u = 0" "cur_terminal u = 1" "screen_x u = screen_x t" "screen_y u = screen_y t"
    "vmem u = vmem t"
    using assms(1) vmem_setup [OF assms(3)] by (simp_all add: u_def boot_setup_def boot_devices_fields boot_tables_fields)
  then have ok: "output_ok 1 True u" using assms(2) by (simp add: output_ok_def cur_process_local_def on_screen_def)
  have "msgs_ok l 1 True (vmem u)" using boot_texts_msgs [OF assms(4)] by (simp add: f(5))
  then obtain v where v: "say l Enabling [] u = Inr v" "said l 1 True u v"
    using say_plain [OF said_refl [OF ok], of l Enabling "[]"] by auto
  then have "cur_process_local v = Inr 1" by (simp add: said_def output_ok_def)
  then obtain w where w: "clear v = Inr w" "same_kernel v w" "\<And>a. \<not> inside 0xB8000 4000 a \<Longrightarrow> vmem w a = vmem v a"
    using clear_returns by blast
  have "inside (page_base True 1) 4000 a \<Longrightarrow> inside 0xB8000 8192 a" for a by (rule in_pages)
  then have "touched l v w" using w by (auto simp: touched_def page_base_def)
  then have "touched l u w" using touched_trans [OF said_touched [OF v(2)]] by blast
  then show ?thesis using v(1) w(1) by (auto simp: boot_kernel_def u_def)
qed

lemma touched_more:
  fixes s t :: "'a kernel_scheme"
  assumes "touched l s t"
  shows "lit_shell t = lit_shell s" "kernel.more t = kernel.more s" "tss_ss0 t = tss_ss0 s"
proof -
  have e: "t = s\<lparr>phys := phys t, out_log := out_log t, screen_x := screen_x t, screen_y := screen_y t\<rparr>"
    using assms by (simp add: touched_def same_kernel_def)
  show "lit_shell t = lit_shell s" "kernel.more t = kernel.more s" "tss_ss0 t = tss_ss0 s"
    by (subst e, simp)+
qed

lemma fileSystem_init_fields:
  fixes s :: "'a kernel_scheme"
  shows "pcbs (fileSystem_init f s) = pcbs s" "base_shell_booted_bitmask (fileSystem_init f s) = base_shell_booted_bitmask s"
    "shell_init_boot (fileSystem_init f s) = shell_init_boot s" "aux_processes (fileSystem_init f s) = aux_processes s"
    "active_processes (fileSystem_init f s) = active_processes s" "cur_process (fileSystem_init f s) = cur_process s"
    "pdt (fileSystem_init f s) = pdt s" "lit_shell (fileSystem_init f s) = lit_shell s"
    "kernel.more (fileSystem_init f s) = kernel.more s"
  by (simp_all add: fileSystem_init_def Let_def)

lemma boot_inv_start:
  assumes "base_shell_booted_bitmask st = 0" "shell_init_boot st = 1" "aux_processes st = 0"
    "list_all (\<lambda>i. active_processes st i = 0) [3, 4, 5]"
  shows "boot_inv (\<lambda>_. []) 1 st"
  using assms by (simp add: boot_inv_def all_procs_def secondaries_def)

text \<open>Started in user mode with this frame, the machine runs the program of process 1.\<close>

lemma enter_first:
  assumes "sites_ok c" "installed c st" "tss_ss0 st = 0x18" "uf_cs frame = 0x23" "uf_ss frame = 0x2B"
    "proc_inv boot_threads (enter_kernel 4 st)"
  shows "user_running c boot_threads (enter_user frame st)" "tasks c boot_threads ctxs (enter_user frame st)"
proof -
  let ?u = "enter_user frame st"
  have f: "pcbs ?u = pcbs st" "pdt ?u = pdt st" "cur_process ?u = cur_process st" "idt ?u = idt st"
    "base_shell_booted_bitmask ?u = base_shell_booted_bitmask st" "tss_esp0 ?u = tss_esp0 st" "tss_ss0 ?u = tss_ss0 st"
    "active_processes ?u = active_processes st" "aux_processes ?u = aux_processes st"
    "base_shell_live_bitmask ?u = base_shell_live_bitmask st" "shell_init_boot ?u = shell_init_boot st"
    "cs_reg ?u = 0x23" "c_cs (context_of ?u) = 0x23"
    by (simp_all add: enter_user_def set_flags_def context_of_def assms(4))
  have inv: "proc_inv boot_threads (enter_kernel 4 ?u)"
    using f by (intro proc_inv_same [OF assms(6)]) (simp_all, simp add: enter_kernel_def current_pcb_addr_def f(6))
  then show "user_running c boot_threads ?u"
    using assms(1-3) f by (simp add: user_running_def user_mode_def installed_def)
  have "threads_ok (pcbs st) (base_shell_booted_bitmask st) boot_threads"
    using proc_inv_parts(1) [OF assms(6)] by simp
  then have "\<not> booted_terminal (base_shell_booted_bitmask st) t" if "t \<in> {2, 3}" for t
    using that by (auto simp: threads_ok_iff boot_threads_def split: if_splits)
  moreover have "cur_process st = 1"
    using proc_inv_parts(10) [OF assms(6)] by (simp add: boot_threads_def split: if_splits)
  ultimately show "tasks c boot_threads ctxs ?u"
    using inv assms(1-3) f
    by (simp add: tasks_def sched_inv_def proc_inv_def installed_def ctx_ok_def)
qed

text \<open>\<open>entry\<close> up to the first program.\<close>

lemma entry_boots:
  fixes st :: "'a boot_scheme"
  assumes "ready_to_boot l mbi cmd n d st" "sites_ok c"
  obtains st' frame where "entry_point c l 0x2BADB002 mbi st = Inr (st', Some frame)"
    "user_running c boot_threads (enter_user frame st')" "multitasking c boot_threads (enter_user frame st')"
    "bytes_of32 (uf_eip frame) = take 4 (drop 24 (file_bytes (vmem st) (fs_ptrs (fileSystem_init (first_module mbi (vmem st)) st)) (inode_num d)))"
    "bytes (vmem st') 0x08048000 (file_size (vmem st) (fs_ptrs (fileSystem_init (first_module mbi (vmem st)) st)) (inode_num d)) =
       file_bytes (vmem st) (fs_ptrs (fileSystem_init (first_module mbi (vmem st)) st)) (inode_num d)"
    "frame = \<lparr>uf_ss = 0x2B, uf_esp = 0x8400000 - 4, uf_eflags = 0x202, uf_cs = 0x23, uf_eip = uf_eip frame\<rparr>"
proof -
  define fs where "fs = fileSystem_init (first_module mbi (vmem st)) st"
  let ?cu = "at_shell_name l" and ?le = "boot_execute l"
  have i: "base_shell_booted_bitmask st = 0" "shell_init_boot st = 1" "aux_processes st = 0"
    "list_all (\<lambda>i. active_processes st i = 0) [3, 4, 5]" "cur_process st = 1" "cur_terminal st = 0" "on_screen 0 st"
    "pdt st 32 = 0" "\<And>v. v < 256 \<Longrightarrow> decode_gate (desc_bytes (idt st v)) = None"
    using assms(1) by (simp_all add: ready_to_boot_def initial_kernel_def on_screen_def)
  have h: "boot_texts l (vmem st)" "multiboot_ok l mbi cmd n (vmem st)" "can_load ?le (bytes (vmem st) ?cu 128) d fs"
    "shell_command ?le (bytes (vmem st) ?cu 128) fs" "undisturbed l (g_boot_block fs) (fs_length (vmem st) (g_boot_block fs))"
    "undisturbed l ?cu 128" "undisturbed l (lit_shell st) 6"
    using assms(1) by (simp_all add: ready_to_boot_def fs_def Let_def)
  have vfs: "vmem fs = vmem st" by (simp add: fs_def)
  note ff = fileSystem_init_fields [of "first_module mbi (vmem st)" st, folded fs_def]
  have "cur_process_local st = Inr 1" by (simp add: cur_process_local_def i(1))
  then obtain t where t: "report l 0x2BADB002 mbi st = Inr (t, True)" "output_ok 1 False t" "touched l fs t"
    using report_returns [OF _ i(6,7) h(1,2)] by (auto simp: fs_def)
  note tk = same_kernel_eqs [OF t(3) [unfolded touched_def, THEN conjunct1]]
  have bt: "boot_texts l (vmem t)" using boot_texts_touched [OF _ t(3)] h(1) by (simp add: vfs)
  have pt: "pdt t 32 = 0" by (simp add: tk ff i)
  obtain w where w: "touched l (boot_setup c l t) w" "boot_kernel c l t =
      andthen (only_to_user (execute ?le ?cu w)) (\<lambda>(st, out). Inr (st, case out of To_user frame \<Rightarrow> Some frame | _ \<Rightarrow> None))"
    using boot_to_execute [OF _ _ pt bt] t(2) by (auto simp: tk ff i output_ok_def)
  note wk = same_kernel_eqs [OF w(1) [unfolded touched_def, THEN conjunct1]]
  have sf: "pcbs w = pcbs t" "cur_process w = cur_process t" "base_shell_booted_bitmask w = base_shell_booted_bitmask t"
    "shell_init_boot w = shell_init_boot t" "aux_processes w = aux_processes t" "active_processes w = active_processes t"
    "fs_ptrs w = fs_ptrs t" "g_boot_block w = g_boot_block t" "tss_ss0 w = 0x18" "pdt w 32 = pdt t 32"
    "lit_shell w = lit_shell t"
    using touched_more [OF w(1)] pdt_setup [of c l t]
    by (simp_all add: wk boot_setup_def boot_devices_fields boot_tables_fields)
  have mem: "bytes (vmem w) a k = bytes (vmem st) a k" if "undisturbed l a k" for a k
    using touched_bytes [OF w(1) that] touched_bytes [OF t(3) that] vmem_setup [OF pt] by (simp add: vfs)
  have img: "same_image (g_boot_block fs) (fs_length (vmem fs) (g_boot_block fs)) (vmem fs) (vmem w)"
    using mem [OF h(5)] by (simp add: same_image_def vfs)
  have cu: "bytes (vmem w) ?cu 128 = bytes (vmem st) ?cu 128" by (rule mem [OF h(6)])
  note ld = can_load_same [OF h(3) _ img, of ?le, unfolded vfs]
  have load: "can_load ?le (bytes (vmem w) ?cu 128) d w" using ld(1) by (simp add: cu sf tk)
  have "cstring (vmem w) (lit_shell w) shell_name"
    using h(4) mem [OF h(7)] touched_more(1) [OF t(3)] by (simp add: shell_command_def cstring_shell sf ff vfs)
  then have sh: "shell_command ?le (bytes (vmem w) ?cu 128) w"
    using h(4) touched_more(1) [OF t(3)] by (simp add: shell_command_def cu sf ff)
  have bi: "boot_inv (\<lambda>_. []) 1 w" by (rule boot_inv_start) (simp_all add: sf tk ff i, use i(4) in simp)
  have low: "low_direct w" by (rule low_direct_unmapped) (simp add: user_mapped_def sf pt)
  have cp: "cur_process w = 1" by (simp add: sf tk ff i)
  obtain st' frame where x: "execute ?le ?cu w = Inr (st', To_user frame)"
    "proc_inv boot_threads (enter_kernel 4 st')" 
    "frame = \<lparr>uf_ss = 0x2B, uf_esp = 0x8400000 - 4, uf_eflags = 0x202, uf_cs = 0x23, uf_eip = uf_eip frame\<rparr>"
    "bytes_of32 (uf_eip frame) = take 4 (drop 24 (file_bytes (vmem w) (fs_ptrs w) (inode_num d)))"
    "bytes (vmem st') 0x08048000 (length (file_bytes (vmem w) (fs_ptrs w) (inode_num d))) = file_bytes (vmem w) (fs_ptrs w) (inode_num d)"
    "kernel.more st' = kernel.more w" "tss_ss0 st' = tss_ss0 w"
    by (rule execute_boots [OF bi load sh low cp, of 4]) (use that in \<open>simp_all add: boot_threads_def\<close>)
  have fb: "file_bytes (vmem w) (fs_ptrs w) (inode_num d) = file_bytes (vmem st) (fs_ptrs fs) (inode_num d)"
    using ld(2) by (simp add: sf tk)
  have "kernel.more st' = kernel.more (boot_tables c l t)"
    using x(6) touched_more(2) [OF w(1)] by (simp add: boot_setup_def boot_devices_fields)
  then have idt: "idt st' = idt (boot_tables c l t)" by (rule more_boot(1))
  have "idt t = idt st"
    using more_boot(1) [OF touched_more(2) [OF t(3)]] more_boot(1) [OF ff(9)] by simp
  then have ins: "installed c st'"
    using i(9) by (simp add: installed_def idt boot_tables_tables split: option.split)
  have ss: "tss_ss0 st' = 0x18" "uf_cs frame = 0x23" "uf_ss frame = 0x2B"
    by (simp_all add: x(7) sf) (subst x(3), simp)+
  have "entry_point c l 0x2BADB002 mbi st = Inr (st', Some frame)"
    by (simp add: entry_point_def t(1) w(2) only_to_user_def x(1))
  moreover have "multitasking c boot_threads (enter_user frame st')"
    using enter_first(2) [OF assms(2) ins ss x(2)] by (auto simp: multitasking_def)
  ultimately show ?thesis
    using enter_first(1) [OF assms(2) ins ss x(2)] x(3-5)
    by (intro that [of st' frame]) (simp_all add: fb fs_def)
qed

end
