(* ===== verification/ExampleBoot.thy ===== *)
theory ExampleBoot imports BootStart begin

text \<open>
  A machine that the boot loader has just left: the image of \<open>Example\<close> is the first module, the messages
  of \<open>entry\<close> are at 0x510000, 256 bytes apart, the multiboot information is at 0x520000 and has a command line, a
  module and a memory map of one entry.
\<close>

fun msg_index :: "boot_msg \<Rightarrow> nat" where
  "msg_index Invalid_magic = 0" | "msg_index Flags = 1" | "msg_index Mem = 2" | "msg_index Boot_device = 3"
| "msg_index Cmdline = 4" | "msg_index Module_start = 5" | "msg_index Module_end = 6" | "msg_index First_bytes = 7"
| "msg_index Byte_value = 8" | "msg_index Newline = 9" | "msg_index Both_bits = 10" | "msg_index Elf_sec = 11"
| "msg_index Mmap = 12" | "msg_index Mmap_entry = 13" | "msg_index Enabling = 14"

definition all_msgs :: "boot_msg list" where
  "all_msgs = [Invalid_magic, Flags, Mem, Boot_device, Cmdline, Module_start, Module_end, First_bytes, Byte_value,
     Newline, Both_bits, Elf_sec, Mmap, Mmap_entry, Enabling]"

definition boot_info :: mem where
  "boot_info a =
     (if a = 0x520000 then 0x4D else if a = 0x520011 then 1 else if a = 0x520012 then 0x52 else
      if a = 0x520014 then 1 else if a = 0x520019 then 2 else if a = 0x52001A then 0x52 else
      if a = 0x52002C then 0x18 else if a = 0x520031 then 3 else if a = 0x520032 then 0x52 else
      if a = 0x520100 then 107 else if a = 0x520202 then 0x40 else if a = 0x520205 then 0x60 else
      if a = 0x520206 then 0x40 else if a = 0x520300 then 0x14 else system_image a)"

definition boot_memory :: mem where
  "boot_memory a =
     (if inside 0x510000 0x1000 a
      then (let k = unat (a - 0x510000)
            in if k div 256 < 15 \<and> k mod 256 < length (boot_text (all_msgs ! (k div 256)))
               then boot_text (all_msgs ! (k div 256)) ! (k mod 256) else 0)
      else boot_info a)"

definition boot_machine :: boot where
  "boot_machine = cpu.extend (bare_machine\<lparr>phys := boot_memory, pdt := \<lambda>_. 0, base_shell_booted_bitmask := 0,
     base_shell_live_bitmask := 0, shell_init_boot := 1, aux_processes := 0, active_processes := \<lambda>_. 0,
     cur_process := 1, cur_terminal := 0, master_mask := 0xFF, slave_mask := 0xFF, int_flag := False,
     eax := 0x2BADB002, ebx := 0x520000, cs_reg := 8, ss_reg := 0x10\<rparr>)
     (boot.fields \<lparr>seg_lim_15_00 = 0, base_15_00 = 0, base_23_16 = 0, seg_type = 0, seg_sys = 0, seg_dpl = 0, seg_present = 0,
        seg_lim_19_16 = 0, seg_avail = 0, seg_reserved = 0, seg_opsize = 0, seg_granularity = 0, base_31_24 = 0\<rparr>
       \<lparr>seg_lim_15_00 = 0, base_15_00 = 0, base_23_16 = 0, seg_type = 0, seg_sys = 0, seg_dpl = 0, seg_present = 0,
        seg_lim_19_16 = 0, seg_avail = 0, seg_reserved = 0, seg_opsize = 0, seg_granularity = 0, base_31_24 = 0\<rparr> 0 0 0)"

definition boot_params :: boot_locals where
  "boot_params = \<lparr>at_ldt = 0x413000, at_tss = 0x414000, at_boot_buf = 0x7FFD00,
     at_msg = (\<lambda>msg. 0x510000 + of_nat (256 * msg_index msg)), at_shell_name = 0x500080,
     junk_paging = \<lparr>kernal_page = 0xFFC00F55, first_mb = 0xFFFFFFFF, video_memory_page = 0x12345678,
       video_memory_page1 = 0xFFFFFFFF, video_memory_page2 = 0, video_memory_page3 = 0xDEADBEEF\<rparr>,
     junk_gate = zero_desc, junk_desc = ldt_desc_ptr boot_machine, rtc_register_b = 2, cursor_start = 0, cursor_end = 0,
     boot_execute = system_locals, size_entry = 0x100, ret_start = 0x400140\<rparr>"

section \<open>The memory\<close>

lemma msg_facts:
  "msg_index msg < 15" "all_msgs ! msg_index msg = msg" "length (boot_text msg) < 200" "0 \<notin> set (boot_text msg)"
proof -
  have "list_all (\<lambda>m. msg_index m < 15 \<and> all_msgs ! msg_index m = m \<and> length (boot_text m) < 200 \<and> 0 \<notin> set (boot_text m))
    all_msgs" by code_simp
  then show "msg_index msg < 15" "all_msgs ! msg_index msg = msg" "length (boot_text msg) < 200" "0 \<notin> set (boot_text msg)"
    by (cases msg; simp add: all_msgs_def del: boot_text.simps)+
qed

lemma boot_memory_msg:
  assumes "i < 200"
  shows "boot_memory (at_msg boot_params msg + of_nat i) = (if i < length (boot_text msg) then boot_text msg ! i else 0)"
proof -
  let ?n = "256 * msg_index msg + i"
  have a: "at_msg boot_params msg + of_nat i = 0x510000 + of_nat ?n" by (simp add: boot_params_def)
  have n: "?n < 4096" "?n div 256 = msg_index msg" "?n mod 256 = i" using msg_facts(1) [of msg] assms by simp_all
  have "unat (0x510000 + of_nat ?n - 0x510000 :: u32) = ?n"
    using n(1) by (simp only: add_diff_cancel_left' unat_of_nat_u32)
  then show ?thesis
    unfolding a boot_memory_def using n msg_facts(1,2) [of msg] inside_offset [OF n(1), of "0x510000"]
    by (simp only: Let_def) simp
qed

lemma boot_memory_info: "\<not> inside 0x510000 0x1000 a \<Longrightarrow> boot_memory a = boot_info a"
  by (simp add: boot_memory_def)

lemma boot_memory_text: "cstring boot_memory (at_msg boot_params msg) (boot_text msg)"
proof -
  have "bytes boot_memory (at_msg boot_params msg) (length (boot_text msg)) = boot_text msg"
    using msg_facts(3) [of msg] by (intro bytes_eqI) (simp_all add: boot_memory_msg)
  then show ?thesis
    using msg_facts(3,4) [of msg] boot_memory_msg [of "length (boot_text msg)" msg] by (simp add: cstring_def)
qed

section \<open>The state of \<open>entry\<close>\<close>

lemma boot_machine_fields:
  "pdt boot_machine = (\<lambda>_. 0)" "phys boot_machine = boot_memory" "base_shell_booted_bitmask boot_machine = 0"
  "shell_init_boot boot_machine = 1" "aux_processes boot_machine = 0" "active_processes boot_machine = (\<lambda>_. 0)"
  "cur_process boot_machine = 1" "cur_terminal boot_machine = 0" "screen_x boot_machine = (\<lambda>_. 0)"
  "screen_y boot_machine = (\<lambda>_. 0)" "idt boot_machine = (\<lambda>_. zero_desc)" "eax boot_machine = 0x2BADB002"
  "ebx boot_machine = 0x520000" "lit_shell boot_machine = 0x500080" "master_mask boot_machine = 0xFF"
  "slave_mask boot_machine = 0xFF" "pt0 boot_machine = (\<lambda>_. 0)" "pt_vidmap boot_machine = (\<lambda>_. 0)"
  "at_pt0 boot_machine = 0x411000" "at_pt_vidmap boot_machine = 0x412000"
  by (simp_all add: boot_machine_def bare_machine_def kernel.defs entry.defs cpu.defs boot.defs)
    (simp_all add: system_state_def)

lemma boot_machine_vmem: "vmem boot_machine = boot_memory"
  by (simp add: vmem_def remap_def user_mapped_def boot_machine_fields)

abbreviation entry_state :: boot where "entry_state \<equiv> entered boot_params boot_machine"

lemma entry_state_fields:
  "pdt entry_state = (\<lambda>_. 0)" "base_shell_booted_bitmask entry_state = 0"
  "shell_init_boot entry_state = 1" "aux_processes entry_state = 0" "active_processes entry_state = (\<lambda>_. 0)"
  "cur_process entry_state = 1" "cur_terminal entry_state = 0" "screen_x entry_state = (\<lambda>_. 0)"
  "screen_y entry_state = (\<lambda>_. 0)" "idt entry_state = (\<lambda>_. zero_desc)" "lit_shell entry_state = 0x500080"
  by (simp_all add: entered_def c_enter_def pushes_simps push_def Let_def cli_def boot_machine_fields)

lemma entry_bytes:
  "apart 0x7FFFF0 16 a n \<Longrightarrow> n \<le> 4294967296 \<Longrightarrow> bytes (vmem entry_state) a n = bytes boot_memory a n"
  by (simp add: entered_outside boot_machine_vmem)

lemma entry_read32: "apart 0x7FFFF0 16 a 4 \<Longrightarrow> read32 (vmem entry_state) a = read32 boot_memory a"
  by (rule read32_cong) (rule entry_bytes, simp_all)

lemma boot_memory_read32:
  "read32 boot_memory 0x520000 = 0x4D" "read32 boot_memory 0x520010 = 0x520100" "read32 boot_memory 0x520018 = 0x520200"
  "read32 boot_memory 0x52002C = 0x18" "read32 boot_memory 0x520030 = 0x520300" "read32 boot_memory 0x520200 = 0x400000"
  "read32 boot_memory 0x520300 = 0x14" "read32 boot_memory 0x400004 = 3"
  by (simp_all add: read32_def boot_memory_def inside_def boot_info_def system_image_def)

lemma boot_memory_system: "a < 0x510000 \<Longrightarrow> boot_memory a = system_image a"
proof -
  assume a: "a < 0x510000"
  have "\<not> inside 0x510000 0x1000 a"
  proof
    assume "inside 0x510000 0x1000 a"
    then obtain i where i: "i < 0x1000" "a = 0x510000 + of_nat i" by (rule inside_obtain)
    then have "a = of_nat (0x510000 + i)" by simp
    then have "unat a = 0x510000 + i" using i(1) by (simp only: unat_of_nat_u32)
    then show False using a by (simp add: word_less_nat_alt)
  qed
  then show ?thesis using a by (auto simp: boot_memory_info boot_info_def)
qed

lemma boot_system_bytes:
  assumes "unat a + n \<le> 0x510000"
  shows "bytes boot_memory a n = bytes system_image a n"
proof (rule bytes_cong)
  fix i assume i: "i < n"
  have "a + of_nat i = of_nat (unat a + i)" by simp
  then have "unat (a + of_nat i) = unat a + i" using assms i by (simp only: unat_of_nat_u32)
  then show "boot_memory (a + of_nat i) = system_image (a + of_nat i)"
    using assms i by (intro boot_memory_system) (simp add: word_less_nat_alt)
qed

lemma entry_image: "same_image 0x400000 24576 system_image (vmem entry_state)"
  using entry_bytes [of "0x400000" 24576] boot_system_bytes [of "0x400000" 24576] by (simp add: same_image_def apart_def)

lemma shell_can_load:
  "\<exists>d. can_load system_locals (bytes system_image 0x500080 128) d (system_state 1) \<and> inode_num d = 1"
proof -
  have "bytes system_image 0x500080 6 = [115, 104, 101, 108, 108, 0]" by (simp add: bytes_def upt_rec system_image_def)
  then obtain ys where b: "bytes system_image 0x500080 128 = [115, 104, 101, 108, 108, 0] @ ys" "length ys = 122"
    using bytes_add [of system_image "0x500080" 6 122] by simp
  have w: "command_word (bytes system_image 0x500080 128) = [115, 104, 101, 108, 108]"
    unfolding b(1) by (simp add: command_word_def)
  have ok: "command_ok (bytes system_image 0x500080 128)"
    unfolding command_ok_def w unfolding b(1) using boot_system_bytes by (simp add: b(2))
  have "\<exists>d. lookup_name system_image 0x400000 [115, 104, 101, 108, 108] = Some d \<and> inode_num d = 1"
    by (simp add: lookup_name_def system_names upt_rec dentry_at_def dentry_addr_def read32_def system_image_def)
  then obtain d where d: "lookup_name system_image 0x400000 [115, 104, 101, 108, 108] = Some d" "inode_num d = 1" by blast
  have c: "inode_size system_image 0x401000 1 = 28" "inode_block system_image 0x401000 1 0 = 0"
    by (simp_all add: inode_size_def inode_block_def inode_addr_def read32_def system_image_def)
  then have f: "file_size system_image system_fs 1 = 28" by (simp add: file_size_def system_fs_def)
  then have "file_bytes system_image system_fs 1 = bytes system_image 0x404000 28"
    using file_bytes_one_block [of system_image "0x400000" "0x401000" "0x404000" 1] by (simp add: system_fs_def c)
  then have "take 4 (file_bytes system_image system_fs 1) = [0x7F, 0x45, 0x4C, 0x46]"
    by (simp add: take_bytes bytes_def upt_rec system_image_def)
  moreover have "inode_ok system_image system_fs 1"
    using c system_counts by (simp add: inode_ok_def system_fs_def)
  ultimately have "elf system_image system_fs 1" using f by (simp add: elf_def)
  then have "can_load system_locals (bytes system_image 0x500080 128) d (system_state 1)"
    using d ok system_low system_locals_ok f
    by (simp add: can_load_def system_vmem system_fields w fits_user_def) (simp add: low_def system_locals_def)
  then show ?thesis using d by blast
qed

lemma unat_minus:
  fixes a b :: u32
  shows "unat (a - b) = (if unat b \<le> unat a then unat a - unat b else unat a + 4294967296 - unat b)"
proof (cases "unat b \<le> unat a")
  case False
  have "a - b = of_nat (unat a + 4294967296 - unat b)"
    using unat_u32_less [of b] by (simp add: of_nat_diff)
  then have "unat (a - b) = unat a + 4294967296 - unat b" using False by (simp only: unat_of_nat_u32)
  then show ?thesis using False by simp
qed (simp add: unat_sub word_le_nat_alt)

lemma apart_between:
  assumes "unat b + m \<le> unat a \<or> unat a + n \<le> unat b" "unat a + n \<le> 4294967296" "unat b + m \<le> 4294967296"
  shows "apart b m a n"
  using assms unat_u32_less [of a] unat_u32_less [of b] by (auto simp: apart_def unat_minus)

lemma boot_undisturbed:
  assumes "0x100000 \<le> unat a" "unat a + n \<le> 0x7FFD00"
  shows "undisturbed boot_params a n" "apart 0x7FFFF0 16 a n"
proof -
  have b: "at_boot_buf boot_params = 0x7FFD00" by (simp add: boot_params_def)
  have "apart 0xB8000 8192 a n" by (rule apart_between) (use assms in simp_all)
  moreover have "apart 0x7FFD00 64 a n" by (rule apart_between) (use assms in simp_all)
  ultimately show "undisturbed boot_params a n" using assms by (simp add: undisturbed_def b)
  show "apart 0x7FFFF0 16 a n" by (rule apart_between) (use assms in simp_all)
qed

lemma boot_texts_entered:
  assumes "vmem st = boot_memory"
  shows "boot_texts boot_params (vmem (entered boot_params st))"
proof -
  have "cstring (vmem (entered boot_params st)) (at_msg boot_params msg) (boot_text msg) \<and>
    undisturbed boot_params (at_msg boot_params msg) (Suc (length (boot_text msg)))" for msg
  proof -
    have "at_msg boot_params msg = of_nat (0x510000 + 256 * msg_index msg)" by (simp add: boot_params_def)
    then have "unat (at_msg boot_params msg) = 0x510000 + 256 * msg_index msg"
      using msg_facts(1) [of msg] by (simp only: unat_of_nat_u32)
    then have u: "0x100000 \<le> unat (at_msg boot_params msg)"
      "unat (at_msg boot_params msg) + Suc (length (boot_text msg)) \<le> 0x7FFD00"
      using msg_facts(1,3) [of msg] by simp_all
    have "bytes (vmem (entered boot_params st)) (at_msg boot_params msg) (Suc (length (boot_text msg))) =
        bytes boot_memory (at_msg boot_params msg) (Suc (length (boot_text msg)))"
      using boot_undisturbed(2) [OF u] msg_facts(3) [of msg] assms
      by (subst entered_outside) simp_all
    then show ?thesis using boot_memory_text [of msg] boot_undisturbed(1) [OF u] by (simp add: cstring_bytes)
  qed
  then show ?thesis by (simp add: boot_texts_def) (simp add: boot_params_def apart_def)
qed

lemma boot_texts_entry: "boot_texts boot_params (vmem entry_state)"
  by (rule boot_texts_entered) (rule boot_machine_vmem)

lemma multiboot_entry: "multiboot_ok boot_params 0x520000 [107] 1 (vmem entry_state)"
proof -
  have r: "read32 (vmem entry_state) 0x520000 = 0x4D" "read32 (vmem entry_state) 0x520010 = 0x520100"
    "read32 (vmem entry_state) 0x520018 = 0x520200" "read32 (vmem entry_state) 0x52002C = 0x18"
    "read32 (vmem entry_state) 0x520030 = 0x520300" "read32 (vmem entry_state) 0x520200 = 0x400000"
    "read32 (vmem entry_state) 0x520300 = 0x14"
    by (simp_all add: entry_read32 boot_undisturbed(2) boot_memory_read32)
  have u: "undisturbed boot_params 0x520000 52" "undisturbed boot_params 0x520200 4" "undisturbed boot_params 0x400000 8"
    "undisturbed boot_params 0x520100 (Suc (Suc 0))" "undisturbed boot_params 0x520300 4"
    by (rule boot_undisturbed(1); simp)+
  have "bytes (vmem entry_state) 0x520100 (Suc (Suc 0)) = bytes boot_memory 0x520100 (Suc (Suc 0))"
    by (rule entry_bytes) (simp_all add: boot_undisturbed(2))
  also have "\<dots> = [107, 0]"
    by (simp add: bytes_Suc boot_memory_def inside_def boot_info_def system_image_def)
  finally have c: "cstring (vmem entry_state) 0x520100 [107]" by (simp add: cstring_bytes)
  have f: "bit (0x4D :: u32) 3" "\<not> bit (0x4D :: u32) 4" by (simp_all add: bit_numeral_rec)
  have e: "map_ends boot_params (vmem entry_state) 0x520318 1 0x520300"
    unfolding One_nat_def by (simp add: u r)
  have a: "(0x520000 :: addr) + 24 = 0x520018" "(0x520000 :: addr) + 16 = 0x520010" "(0x520000 :: addr) + 44 = 0x52002C"
    "(0x520000 :: addr) + 48 = 0x520030" "(0x520300 :: addr) + 0x18 = 0x520318" "(0x520000 :: addr) + 0 = 0x520000" by simp_all
  show ?thesis
    unfolding multiboot_ok_def Let_def a r using u c e f by simp
qed

lemma initial_boot: "initial_kernel boot_machine"
  by (simp add: initial_kernel_def boot_machine_fields) (simp add: decode_gate_def desc_bytes_def zero_desc_def)

lemma ready_entry: "\<exists>d. ready_to_boot boot_params 0x520000 [107] 1 d entry_state \<and> inode_num d = 1"
proof -
  obtain d where d: "can_load system_locals (bytes system_image 0x500080 128) d (system_state 1)" "inode_num d = 1"
    using shell_can_load by blast
  define fs where "fs = fileSystem_init (first_module 0x520000 (vmem entry_state)) entry_state"
  have m: "first_module 0x520000 (vmem entry_state) = 0x400000"
    by (simp add: first_module_def entry_read32 apart_def boot_memory_read32)
  have n: "num_inodes (vmem entry_state) 0x400000 = 3" by (simp add: num_inodes_def entry_read32 apart_def boot_memory_read32)
  have ptrs: "fs_ptrs fs = system_fs" "g_boot_block fs = 0x400000"
    by (simp_all add: fs_def m fileSystem_init_def Let_def n fs_ptrs_def system_fs_def)
  have v: "vmem fs = vmem entry_state" by (simp add: fs_def)
  have cmd: "bytes (vmem entry_state) 0x500080 128 = bytes system_image 0x500080 128"
    using entry_bytes [of "0x500080" 128] boot_system_bytes [of "0x500080" 128] by (simp add: apart_def)
  have si: "same_image (g_boot_block (system_state 1)) (fs_length (vmem (system_state 1)) (g_boot_block (system_state 1)))
      (vmem (system_state 1)) (vmem fs)"
    using entry_image by (simp add: system_fields system_vmem system_counts v)
  have load: "can_load system_locals (bytes (vmem entry_state) 0x500080 128) d fs"
    unfolding cmd by (rule can_load_same(1) [OF d(1) _ si]) (simp_all add: ptrs system_fields)
  have len: "fs_length (vmem entry_state) 0x400000 = 24576"
    using same_image_counts [of "0x400000" system_image "vmem entry_state"] entry_image
    by (simp add: fs_length_def system_counts)
  have b6: "bytes system_image 0x500080 6 = [115, 104, 101, 108, 108, 0]" by (simp add: bytes_def upt_rec system_image_def)
  have "bytes (vmem entry_state) 0x500080 6 = take 6 (bytes (vmem entry_state) 0x500080 128)" by (simp add: take_bytes)
  then have e6: "bytes (vmem entry_state) 0x500080 6 = shell_name @ [0]"
    unfolding cmd using b6 by (simp add: take_bytes shell_name_def)
  have w: "command_word (bytes system_image 0x500080 128) = shell_name"
    using bytes_add [of system_image "0x500080" 6 122] b6 by (simp add: command_word_def shell_name_def)
  have ls: "lit_shell fs = 0x500080" by (simp add: fs_def fileSystem_init_fields entry_state_fields)
  have sh: "shell_command system_locals (bytes (vmem entry_state) 0x500080 128) fs"
    by (simp add: shell_command_def cmd w ls v cstring_shell e6) (simp add: system_locals_def apart_def)
  note initial_boot
  then have "ready_to_boot boot_params 0x520000 [107] 1 d entry_state"
    using initial_entered [of boot_params boot_machine] boot_texts_entry multiboot_entry load sh
    by (simp add: ready_to_boot_def Let_def fs_def [symmetric] ptrs len entry_state_fields boot_undisturbed
       boot_params_def [THEN arg_cong, of at_shell_name, simplified] boot_params_def [THEN arg_cong, of boot_execute, simplified])
  then show ?thesis using d(2) by blast
qed

end
