(* ===== verification/BootProps.thy ===== *)
theory BootProps imports ExampleBoot begin

text \<open>
  Properties of the start of the system and of formatted output.
\<close>

text \<open>C2: a machine that a multiboot loader has loaded the kernel into, with the file system as its first
  module, reaches its first program, whatever is in the rest of memory and of the information: \<open>_start\<close> ends by
  entering user mode at the entry point of \<open>shell\<close>, with the shell's file at 0x08048000 and its stack at the end of
  the user page.  In this state terminal 1 runs process 1 and nothing else runs, and the invariants that
  the properties of system calls and of the timer start from hold.\<close>

theorem kernel_boots:
  assumes "ready_to_boot l (ebx st) cmd n d (entered l st)" "eax st = 0x2BADB002" "sites_ok c"
  shows "\<exists>st' frame fs. start c l st = Inr (st', Some frame) \<and>
    user_running c boot_threads (enter_user frame st') \<and> multitasking c boot_threads (enter_user frame st') \<and>
    fs = fileSystem_init (first_module (ebx st) (vmem (entered l st))) (entered l st) \<and>
    bytes_of32 (eip (enter_user frame st')) = take 4 (drop 24 (file_bytes (vmem fs) (fs_ptrs fs) (inode_num d))) \<and>
    bytes (vmem (enter_user frame st')) 0x08048000 (file_size (vmem fs) (fs_ptrs fs) (inode_num d)) =
      file_bytes (vmem fs) (fs_ptrs fs) (inode_num d) \<and>
    esp (enter_user frame st') = 0x83FFFFC"
proof -
  obtain st' frame where b: "entry_point c l 0x2BADB002 (ebx st) (entered l st) = Inr (st', Some frame)"
    "user_running c boot_threads (enter_user frame st')" "multitasking c boot_threads (enter_user frame st')"
    "bytes_of32 (uf_eip frame) = take 4 (drop 24 (file_bytes (vmem (entered l st))
      (fs_ptrs (fileSystem_init (first_module (ebx st) (vmem (entered l st))) (entered l st))) (inode_num d)))"
    "bytes (vmem st') 0x08048000 (file_size (vmem (entered l st))
      (fs_ptrs (fileSystem_init (first_module (ebx st) (vmem (entered l st))) (entered l st))) (inode_num d)) =
      file_bytes (vmem (entered l st)) (fs_ptrs (fileSystem_init (first_module (ebx st) (vmem (entered l st))) (entered l st)))
        (inode_num d)"
    "frame = \<lparr>uf_ss = 0x2B, uf_esp = 0x8400000 - 4, uf_eflags = 0x202, uf_cs = 0x23, uf_eip = uf_eip frame\<rparr>"
    by (rule entry_boots [OF assms(1,3)]) (rule that, assumption+)
  have "uf_esp frame = 0x83FFFFC" by (subst b(6)) simp
  moreover have "eip (enter_user frame st') = uf_eip frame" "esp (enter_user frame st') = uf_esp frame"
    "vmem (enter_user frame st') = vmem st'" by (simp_all add: enter_user_def set_flags_def)
  ultimately show ?thesis using b start_entered [of c l st] assms(2) by simp
qed

lemma kernel_boots_witness:
  "\<exists>st' frame. start machine_code boot_params boot_machine = Inr (st', Some frame) \<and>
    user_running machine_code boot_threads (enter_user frame st') \<and> esp (enter_user frame st') = 0x83FFFFC"
proof -
  obtain d where "ready_to_boot boot_params (ebx boot_machine) [107] 1 d entry_state"
    using ready_entry by (auto simp: boot_machine_fields)
  from kernel_boots [OF this _ machine_sites] show ?thesis by (auto simp: boot_machine_fields)
qed

text \<open>C11: from the zeroed page tables, the closed masks and the table without gates of the image, \<open>entry\<close> sets
  up the machine as the processor reads it.  The descriptors of the LDT and of the TSS give exactly the bytes
  of these tables and are loaded; the ring 0 stack is set; paging is on, with the page directory that maps
  the four video pages from 0xB8000 to themselves, for the supervisor only, likewise the kernel's 4 MB to 8 MB
  if bits 13 to 20 of the uninitialised \<open>kernal_page\<close> happen to be 0, which the code does not ensure, and nothing
  else: not the rest of the first 4 MB, which a comment of \<^verbatim>\<open>paging.c\<close> says is mapped; every vector has its gate
  and no other vector has one; and of the 16 interrupt lines exactly those of the timer, the keyboard, the
  cascade and the clock are open, at the controllers as in the software masks.\<close>

theorem machine_set_up:
  fixes st :: "'a boot_scheme"
  assumes "zero_tables st" "take_bit 12 (at_pt0 st) = 0"
    and "\<forall>v < 256. decode_gate (desc_bytes (idt st v)) = None" "master_mask st = 0xFF" "slave_mask st = 0xFF" "j < 16"
  shows "let s = boot_setup c l st in
    decode_segment (seg_bytes (ldt_desc_ptr s)) = Some \<lparr>s_base = at_ldt l, s_limit = 31, s_access = 0x82\<rparr> \<and> ldtr s = 0x38 \<and>
    decode_segment (seg_bytes (tss_desc_ptr s)) = Some \<lparr>s_base = at_tss l, s_limit = 103, s_access = 0x89\<rparr> \<and> tr s = 0x30 \<and>
    tss_ss0 s = 0x18 \<and> tss_esp0 s = 0x800000 \<and> cr3 s = at_pdt st \<and> bit (cr0 s) 31 \<and> bit (cr4 s) 4 \<and>
    page_walk s va = (if 0x400000 \<le> va \<and> va < 0x800000 \<and> get_bits 13 8 (kernal_page (junk_paging l)) = 0 \<or> 0xB8000 \<le> va \<and> va < 0xBC000
      then Some \<lparr>frame_addr = va, user_ok = False, write_ok = True\<rparr> else None) \<and>
    installed c s \<and> (irq_masked j s \<longleftrightarrow> j \<notin> {0, 1, 2, 8}) \<and> pic_synced s"
proof -
  define s where "s = boot_setup c l st"
  note f = s_def boot_setup_def boot_devices_fields boot_tables_fields boot_tables_tables
  have k: "kernel.more s = kernel.more (boot_tables c l st)" by (simp add: f)
  note m = more_boot [OF k]
  have "page_walk s va = page_walk (setup_kernel_paging (junk_paging l) st) va"
    by (simp add: page_walk_def table_at_def Let_def f)
  moreover have "installed c s" using assms(3) by (simp add: installed_def m boot_tables_tables split: option.split)
  moreover have "irq_masked j s \<longleftrightarrow> j \<notin> {0, 1, 2, 8}" "pic_synced s"
    using boot_devices_masks [of "boot_tables c l st" j l] assms(4-6) by (simp_all add: s_def boot_setup_def boot_tables_tables)
  ultimately show ?thesis
    unfolding s_def [symmetric] Let_def
    using kernel_page_walk [OF assms(1,2), of "junk_paging l" va] setup_ldt_decodes [of l st] setup_tss_decodes [of l st]
    by (simp add: m boot_tables_tables) (simp add: f)
qed

lemma machine_set_up_witness:
  "page_walk (boot_setup machine_code boot_params boot_machine) 0xB8010 =
      Some \<lparr>frame_addr = 0xB8010, user_ok = False, write_ok = True\<rparr> \<and>
    irq_masked 3 (boot_setup machine_code boot_params boot_machine)"
proof -
  have a: "zero_tables boot_machine" "take_bit 12 (at_pt0 boot_machine) = 0"
    by (simp_all add: zero_tables_def boot_machine_fields)
  have b: "\<forall>v < 256. decode_gate (desc_bytes (idt boot_machine v)) = None"
    using initial_boot by (simp add: initial_kernel_def)
  show ?thesis
    using machine_set_up [OF a b, where j = 3 and va = "0xB8010" and c = machine_code]
    by (simp add: boot_machine_fields Let_def)
qed

text \<open>C15: \<open>printf\<close> returns, and does to the screens just what \<open>putc\<close> does with the characters its format and
  its arguments stand for, with \<open>%x\<close>, \<open>%#x\<close>, \<open>%u\<close>, \<open>%d\<close>, \<open>%c\<close>, \<open>%s\<close> and \<open>%%\<close>; besides it writes only to its local
  buffer, and it returns the length of the format.\<close>

theorem printf_prints:
  assumes "printed str f None vs = Some out" "output_ok p shown st"
    and "apart (page_base shown p) 4000 b 64" "texts_ok (vmem st) (page_base shown p) b (str(a \<mapsto> f))"
    and "texts_ok (vmem st) (page_base shown p) b str"
  shows "\<exists>t s. printf b a vs st = Inr (t, of_nat (length f)) \<and> putc_all out 0 st = Inr s \<and> agrees b 64 s t"
proof -
  obtain t where "printf b a vs st = Inr (t, of_nat (length f))" "agrees b 64 (fold (display p shown) out st) t"
    by (rule printf_displays [OF assms]) (rule that, assumption+)
  then show ?thesis using putc_all_display [OF assms(2)] by blast
qed

lemma module_text:
  "printed Map.empty (boot_text Module_start) None [3, 0x400000] =
    Some (ascii ''Module 3 loaded at address: 0x00400000'' @ [10])"
proof -
  have f: "boot_text Module_start = [77, 111, 100, 117, 108, 101, 32, 37, 100, 32, 108, 111, 97, 100, 101, 100, 32, 97, 116,
      32, 97, 100, 100, 114, 101, 115, 115, 58, 32, 48, 120, 37, 35, 120, 10]" by code_simp
  have o: "ascii ''Module 3 loaded at address: 0x00400000'' = [77, 111, 100, 117, 108, 101, 32, 51, 32, 108, 111, 97, 100,
      101, 100, 32, 97, 116, 32, 97, 100, 100, 114, 101, 115, 115, 58, 32, 48, 120, 48, 48, 52, 48, 48, 48, 48, 48]"
    by code_simp
  have l: "itoa_lookup = [48, 49, 50, 51, 52, 53, 54, 55, 56, 57, 65, 66, 67, 68, 69, 70, 71, 72, 73, 74, 75, 76, 77, 78, 79,
      80, 81, 82, 83, 84, 85, 86, 87, 88, 89, 90, 0]" by code_simp
  have n: "numeral_text 10 3 = [51]" "numeral_text 16 0x400000 = [52, 48, 48, 48, 48, 48]"
    by (simp_all add: numeral_text_def numeral_digits_def digits_lsb.simps l)
  have r: "replicate 2 48 = [48, 48 :: u8]" by (simp add: numeral_2_eq_2)
  show ?thesis unfolding f o by (simp add: converted_def word_text_def n Let_def r)
qed

lemma printf_prints_witness:
  "\<exists>t s. printf 0x7FFD00 0x510500 [3, 0x400000] entry_state = Inr (t, 35) \<and>
    putc_all (ascii ''Module 3 loaded at address: 0x00400000'' @ [10]) 0 entry_state = Inr s \<and> agrees 0x7FFD00 64 s t"
proof -
  have ok: "output_ok 1 False entry_state"
    by (simp add: output_ok_def cur_process_local_def entry_state_fields on_screen_def)
  have a: "at_msg boot_params Module_start = 0x510500" "at_boot_buf boot_params = 0x7FFD00"
    by (simp_all add: boot_params_def)
  note m = boot_texts_msgs [OF boot_texts_entry, of False]
  have t: "apart (page_base False 1) 4000 0x7FFD00 64"
    "texts_ok (vmem entry_state) (page_base False 1) 0x7FFD00 [0x510500 \<mapsto> boot_text Module_start]"
    using m a unfolding msgs_ok_def by metis+
  have "(of_nat (length (boot_text Module_start)) :: u32) = 35" by code_simp
  then show ?thesis using printf_prints [OF module_text ok t(1,2)] by simp
qed

text \<open>C36: started by anything but a multiboot loader, \<open>entry\<close> clears the screen, prints one message, with the number
  it was given, and returns.  Nothing else happens: from the state \<open>_start\<close> hands to it only the video pages,
  the buffer of \<open>printf\<close> and the cursors change; the only ports written are the cursor's, so no device is set
  up; the masks, the IDT, the descriptors, the table registers, the paging registers and tables and the control
  blocks are those of the loader, no terminal is booted, and interrupts are off.\<close>

theorem other_loader:
  assumes "initial_kernel (entered l st)" "boot_texts l (vmem (entered l st))" "eax st \<noteq> 0x2BADB002"
  shows "\<exists>s1 s2 st' ws. start c l st = Inr (st', None) \<and>
    clear (entered l st) = Inr s1 \<and>
    putc_all (ascii ''Invalid magic number: 0x'' @ word_text True 120 (eax st) @ [10]) 0 s1 = Inr s2 \<and>
    agrees (at_boot_buf l) 64 s2 st' \<and>
    st' = (entered l st)\<lparr>phys := phys st', out_log := out_log st @ ws, screen_x := screen_x st', screen_y := screen_y st'\<rparr> \<and>
    list_all (\<lambda>(port, v). port = 0x3D4 \<or> port = 0x3D5) ws \<and>
    (\<forall>a. \<not> inside 0xB8000 8192 a \<longrightarrow> \<not> inside (at_boot_buf l) 64 a \<longrightarrow> vmem st' a = vmem (entered l st) a) \<and>
    master_mask st' = master_mask st \<and> slave_mask st' = slave_mask st \<and> idt st' = idt st \<and>
    ldt_desc_ptr st' = ldt_desc_ptr st \<and> tss_desc_ptr st' = tss_desc_ptr st \<and> ldtr st' = ldtr st \<and> tr st' = tr st \<and>
    pdt st' = pdt st \<and> pt0 st' = pt0 st \<and> cr0 st' = cr0 st \<and> cr3 st' = cr3 st \<and> cr4 st' = cr4 st \<and>
    pcbs st' = pcbs st \<and> base_shell_booted_bitmask st' = 0 \<and> \<not> int_flag st'"
proof -
  let ?e = "entered l st"
  have k: "base_shell_booted_bitmask ?e = 0" "cur_terminal ?e = 0" "on_screen 0 ?e"
    "\<forall>v < 256. decode_gate (desc_bytes (idt ?e v)) = None"
    using assms(1) by (simp_all add: initial_kernel_def on_screen_def)
  then have "cur_process_local ?e = Inr 1" by (simp add: cur_process_local_def)
  then obtain s1 s2 t where t: "report l (eax st) (ebx st) ?e = Inr (t, False)" "touched l ?e t" "clear ?e = Inr s1"
    "putc_all (ascii ''Invalid magic number: 0x'' @ word_text True 120 (eax st) @ [10]) 0 s1 = Inr s2"
    "agrees (at_boot_buf l) 64 s2 t" "cursor_only ?e t"
    by (rule report_rejects [OF _ k(2,3) assms(2,3), where mbi = "ebx st"])
  have s: "start c l st = Inr (t, None)" by (simp add: start_entered entry_point_def t(1))
  obtain ws where ws: "out_log t = out_log st @ ws" "list_all (\<lambda>(port, v). port = 0x3D4 \<or> port = 0x3D5) ws"
    using t(6) by (auto simp: cursor_only_def entered_fields)
  have e: "t = ?e\<lparr>phys := phys t, out_log := out_log st @ ws, screen_x := screen_x t, screen_y := screen_y t\<rparr>"
    using t(2) by (simp add: touched_def same_kernel_def ws(1))
  have "master_mask t = master_mask st \<and> slave_mask t = slave_mask st \<and> idt t = idt st \<and>
    ldt_desc_ptr t = ldt_desc_ptr st \<and> tss_desc_ptr t = tss_desc_ptr st \<and> ldtr t = ldtr st \<and> tr t = tr st \<and>
    pdt t = pdt st \<and> pt0 t = pt0 st \<and> cr0 t = cr0 st \<and> cr3 t = cr3 st \<and> cr4 t = cr4 st \<and>
    pcbs t = pcbs st \<and> base_shell_booted_bitmask t = 0 \<and> \<not> int_flag t"
    using k(1) by (subst e, simp add: entered_fields entered_registers)+
  then show ?thesis
    using s t(2-5) ws(2) e unfolding touched_def by (intro exI [of _ s1] exI [of _ s2] exI [of _ t] exI [of _ ws]) blast
qed

lemma other_loader_witness:
  "\<exists>st'. start machine_code boot_params (boot_machine\<lparr>eax := 0x1BADB002\<rparr>) = Inr (st', None) \<and> \<not> int_flag st' \<and>
    master_mask st' = master_mask boot_machine \<and> ldtr st' = ldtr boot_machine \<and> cr0 st' = cr0 boot_machine"
proof -
  let ?s = "boot_machine\<lparr>eax := 0x1BADB002\<rparr>"
  have "initial_kernel ?s" using initial_boot by (simp add: initial_kernel_def)
  moreover have "vmem ?s = boot_memory" by (simp add: vmem_def remap_def user_mapped_def boot_machine_fields)
  ultimately show ?thesis
    using other_loader [of boot_params ?s machine_code] boot_texts_entered [of ?s] by (auto simp: initial_entered)
qed

end
