(* ===== verification/Spec2Isabelle.thy ===== *)
theory Spec2Isabelle imports DescriptorProps KeyboardProps CallProps BootProps begin

text \<open>
  A verification development for the kernel under \<^verbatim>\<open>src/src\<close>, a protected-mode kernel for the x86 with
  paging, three terminals, a read-only file system, processes and ten system calls.

  The parts and their theories.  Every C function is a HOL function on one machine state, a chain of
  records that each theory extends with the variables of its file:
    \<^item> \<open>Prelude\<close>: fixed-width integers, regions of byte memory, the faults a C function can meet
      (\<open>fault\<close>) and their sequencing (\<open>andthen\<close>), bit fields.
    \<^item> \<open>CMem\<close>, \<open>CString\<close>, \<open>CConv\<close>: the memory, string and number routines of \<^verbatim>\<open>lib.c\<close>, the assembly loops
      included; each against its obvious reference.
    \<^item> \<open>Machine\<close>: memory, the bytes sent to ports, interrupt flag, stack and debug registers
      (\<^verbatim>\<open>lib.h\<close>); \<open>I8259\<close>: the interrupt controllers (\<^verbatim>\<open>i8259.c\<close>).
    \<^item> \<open>Paging\<close>: page directory and tables (\<^verbatim>\<open>paging.c\<close>, \<^verbatim>\<open>x86_desc.S\<close>), the translation they give, and
      the memory a process sees (\<open>vmem\<close>, \<open>set_vmem\<close>).
    \<^item> \<open>Process\<close>: control blocks and scheduler globals (\<^verbatim>\<open>sys_calls.h\<close>), and their abstract view, chains
      of process numbers.
    \<^item> \<open>FileSys\<close>, \<open>FileDrivers\<close>: \<^verbatim>\<open>file_sys.c\<close>, the image in memory and the drivers of files and
      directories.
    \<^item> \<open>Screen\<close>: the console half of \<^verbatim>\<open>lib.c\<close>, and \<open>Printf\<close>: what \<^verbatim>\<open>printf\<close> prints; \<open>Terminal\<close>: the driver half of \<^verbatim>\<open>keyboard.c\<close>; \<open>Keyboard\<close>:
      its interrupt handler; \<open>LineEditor\<close>: the list editor the handler refines.
    \<^item> \<open>RTC\<close> and \<open>PIT\<close>: \<^verbatim>\<open>RTC.c\<close> and \<^verbatim>\<open>pit.c\<close>, the virtual clocks and the scheduler.
    \<^item> \<open>SysCalls\<close> and \<open>Execute\<close>: \<^verbatim>\<open>sys_calls.c\<close>; \<open>Lifecycle\<close> and \<open>Processes\<close>: what \<open>execute\<close> and \<open>halt\<close> do
      to the process stacks.
    \<^item> \<open>Idt\<close>: the interrupt descriptor table and the common handler (\<^verbatim>\<open>interrupts.c\<close>); \<open>Cpu\<close>: registers,
      the instructions the assembly uses, the processor's entry into a gate and \<^verbatim>\<open>iret\<close>; \<open>Linkage\<close>: the
      assembly of \<^verbatim>\<open>x86_desc.S\<close> and \<^verbatim>\<open>sys_calls_handler.S\<close>, from an interrupt to the resumed program.
    \<^item> \<open>Switching\<close>, \<open>Multitasking\<close>, \<open>CallLinkage\<close>: what the stack keeps for an interrupted program, and that
      interrupts and system calls give it back; \<open>Isolation\<close>: the terminals as separate domains.
    \<^item> \<open>Boot\<close>: \<^verbatim>\<open>_start\<close> of \<^verbatim>\<open>boot.S\<close> and \<^verbatim>\<open>entry\<close> of \<^verbatim>\<open>kernel.c\<close>, with the multiboot information of
      \<^verbatim>\<open>multiboot.h\<close>; \<open>BootReport\<close>: its report returns; \<open>BootSetup\<close>: the tables and devices it sets up;
      \<open>Booting\<close>: \<open>execute\<close> of the shell on a terminal without one; \<open>BootStart\<close>: all of it, up to the first
      instruction of the first shell.
    \<^item> \<open>Example\<close>, \<open>ExampleMachine\<close>, \<open>ExampleBoot\<close>: concrete states of the whole machine, for the witnesses.
    \<^item> \<open>ProcessProps\<close>, \<open>DeviceProps\<close>, \<open>DescriptorProps\<close>, \<open>KeyboardProps\<close>, \<open>SwitchProps\<close>, \<open>CallProps\<close>,
      \<open>BootProps\<close>: the properties.

  How the parts meet.  A system call or interrupt finds the running process by masking the stack
  pointer (\<open>current_pcb_addr\<close>); \<open>execute\<close> and \<open>halt\<close> push and pop one stack of processes per terminal,
  the timer passes the processor between the terminals, the keyboard's handler edits the line of the
  terminal that is shown and boots new terminals with \<open>execute\<close>, and \<open>read\<close> and \<^verbatim>\<open>write\<close> call the drivers
  through the operations tables of the descriptors.

  What the lemmas show.  The library routines equal their references.  The file system's reads return
  the bytes of the file, in pieces as in one.  \<open>threads_ok\<close>, \<open>table_ok\<close> and \<open>proc_inv\<close> tie control blocks,
  process table, page directory and kernel stack to the abstract stacks of processes; \<open>execute\<close>, \<open>halt\<close>
  and the timer keep them (\<open>sched_inv\<close>) and are push, pop and rotation on the stacks.  \<open>fds_ok\<close> is the
  type of a descriptor table.  \<open>lines_ok\<close> keeps the keyboard's indices in their rows.  \<open>tasks\<close> ties the
  contexts of the waiting programs to the words on their kernel stacks; timer, clock and user code keep
  it, and none of them changes what a waiting terminal will see (the locale \<open>separation\<close>); a booted
  terminal gets its turn within three ticks (the locale \<open>turns\<close>).  \<open>call_saved\<close>
  does the same for the caller of a system call, across \<open>execute\<close> and the \<open>halt\<close> that ends it.  The
  start of the system reaches a state in which all of these invariants hold (\<open>kernel_boots\<close>).

  Bounds.  Loops that may not end in C are \<open>partial_function (option)\<close>, where None is not returning;
  where they end the theorems say so.  The memory map of the boot information ends after a number of
  entries that \<open>map_ends\<close> takes as a bound.  Waiting for an interrupt takes what the interrupts do as an
  argument.  No fuel is used.

  Parameters.  Bytes read from ports, the addresses of literals and of the locals whose address is
  passed on, the values of uninitialised locals, the addresses and frame sizes the linker and the
  compiler choose (\<open>code\<close>) and what C code leaves in the registers (\<open>junk\<close>) are arguments or fields of
  the state.

  Not modelled: what C functions push below their frames, page faults of the kernel's own accesses,
  interrupts that arrive while the kernel starts, what garbage in bits 13 to 20 of a page-directory entry
  does (those bits of the uninitialised locals reach the entry: with one set the translation \<open>page_walk\<close>
  gives none, while the view \<open>vmem\<close> goes on with the frame the entry is meant for), the loading of GDT and IDT registers (the model reads
  the tables themselves), the kernel's tests, and the user programs with the emulation of the calls on a
  host.
\<close>

end
